(* ===== verification/Prelude.thy ===== *)
theory Prelude
  imports Main
begin

text \<open>
  What every component of the development shares: the outcome of a Rust function that
  returns a \<open>Result\<close> and may panic, the collections of rules the component proofs use, and
  the reachable states of a system that is given by its initial states and its steps,
  with the rule that an inductive invariant holds in all of them.
\<close>

section \<open>Collections of rules\<close>

named_theorems res_simps \<open>rewriting of outcomes: the question-mark operator and its inversions\<close>

named_theorems layout_simps \<open>lengths and projections of byte layouts\<close>

named_theorems inv_intros \<open>preservation of the invariants of the components\<close>

section \<open>Outcomes\<close>

text \<open>
  \<open>Ok\<close> and \<open>Err\<close> are the constructors of \<open>Result\<close>; \<open>Panic\<close> is a thread that
  unwinds (a slice or an index out of range). A decoder that never panics on hostile input is
  one whose model never returns \<open>Panic\<close>.
\<close>

datatype ('e, 'a) res = Ok 'a | Err 'e | Panic

text \<open>The \<open>?\<close> operator: go on with the value, or return the error (or the panic) as it is.\<close>

fun try_res :: "('e, 'a) res \<Rightarrow> ('a \<Rightarrow> ('e, 'b) res) \<Rightarrow> ('e, 'b) res" where
  "try_res (Ok x) k = k x"
| "try_res (Err e) k = Err e"
| "try_res Panic k = Panic"

text \<open>\<open>map_err\<close> with a closure that ignores its argument, and \<open>ok_or\<close>.\<close>

fun ok_or :: "'e \<Rightarrow> 'a option \<Rightarrow> ('e, 'a) res" where
  "ok_or e None = Err e"
| "ok_or e (Some x) = Ok x"

lemma try_res_Ok_iff [res_simps]:
  "try_res r k = Ok y \<longleftrightarrow> (\<exists>x. r = Ok x \<and> k x = Ok y)"
  by (cases r) auto

lemma try_res_Err_iff:
  "try_res r k = Err e \<longleftrightarrow> r = Err e \<or> (\<exists>x. r = Ok x \<and> k x = Err e)"
  by (cases r) auto

lemma try_res_Panic_iff [res_simps]:
  "try_res r k = Panic \<longleftrightarrow> r = Panic \<or> (\<exists>x. r = Ok x \<and> k x = Panic)"
  by (cases r) auto

lemma ok_or_iffs [res_simps]:
  "ok_or e m = Ok y \<longleftrightarrow> m = Some y"
  "ok_or e m = Err e' \<longleftrightarrow> m = None \<and> e' = e"
  "ok_or e m \<noteq> Panic"
  by (cases m; auto)+

lemma if_res_iffs [res_simps]:
  "(if c then Err e else r) = Ok y \<longleftrightarrow> \<not> c \<and> r = Ok y"
  "(if c then Err e else r) = Panic \<longleftrightarrow> \<not> c \<and> r = Panic"
  by auto

text \<open>
  The \<open>?\<close> operator in a method with a mutable receiver: on an error the method returns with the
  state it has reached so far.
\<close>

fun st_try :: "'s \<Rightarrow> ('e, 'a) res \<Rightarrow> ('a \<Rightarrow> 's \<times> ('e, 'b) res) \<Rightarrow> 's \<times> ('e, 'b) res" where
  "st_try s (Ok x) k = k x"
| "st_try s (Err e) k = (s, Err e)"
| "st_try s Panic k = (s, Panic)"

lemma st_try_eq [res_simps]:
  "st_try s r k = (s', x) \<longleftrightarrow>
     (\<exists>y. r = Ok y \<and> k y = (s', x)) \<or> (\<exists>e. r = Err e \<and> s' = s \<and> x = Err e) \<or> (r = Panic \<and> s' = s \<and> x = Panic)"
  by (cases r) auto

section \<open>Reachable states and inductive invariants\<close>

inductive reach :: "('s \<Rightarrow> bool) \<Rightarrow> ('s \<Rightarrow> 's \<Rightarrow> bool) \<Rightarrow> 's \<Rightarrow> bool"
  for init :: "'s \<Rightarrow> bool" and step :: "'s \<Rightarrow> 's \<Rightarrow> bool" where
  reach_init: "init s \<Longrightarrow> reach init step s"
| reach_step: "reach init step s \<Longrightarrow> step s t \<Longrightarrow> reach init step t"

text \<open>
  The contract of a component that keeps an invariant: it holds initially and each step of the
  component keeps it. The client gets it for every reachable state and along every run.
\<close>

locale invariant_system =
  fixes init :: "'s \<Rightarrow> bool"
    and step :: "'s \<Rightarrow> 's \<Rightarrow> bool"
    and inv :: "'s \<Rightarrow> bool"
  assumes inv_init: "init s \<Longrightarrow> inv s"
    and inv_step: "inv s \<Longrightarrow> step s t \<Longrightarrow> inv t"
begin

lemma reach_inv: "reach init step s \<Longrightarrow> inv s"
  by (induction rule: reach.induct) (blast intro: inv_init inv_step)+

lemma steps_inv: "step\<^sup>*\<^sup>* s t \<Longrightarrow> inv s \<Longrightarrow> inv t"
  by (induction rule: rtranclp_induct) (blast intro: inv_step)+

lemma reach_steps: "reach init step s \<Longrightarrow> step\<^sup>*\<^sup>* s t \<Longrightarrow> reach init step t"
  by (rotate_tac 1, induction rule: rtranclp_induct) (blast intro: reach_step)+

end

end
