(* ===== verification/Rust_Std.thy ===== *)
theory Rust_Std
  imports Prelude "HOL-Library.Word" "HOL-Library.Char_ord" "HOL-Library.List_Lexorder"
begin

text \<open>
  The part of Rust's core and standard library that the components call, as total functions:
  little-endian integer encodings, slices and indices with their panics, checked arithmetic on
  64-bit machine words, \<open>String\<close> as its UTF-8 bytes, and the conversions between them.
  A Rust \<open>String\<close> is a \<open>string\<close> here: one \<open>char\<close> per byte of its UTF-8 encoding, so
  \<open>length\<close> is \<open>String::len\<close>, and the lexicographic order is the one of \<open>Ord for str\<close>.
\<close>

type_synonym byte = "8 word"
type_synonym u16 = "16 word"
type_synonym u32 = "32 word"
type_synonym u64 = "64 word"

section \<open>Machine integers\<close>

text \<open>The model fixes a 64-bit target: \<open>usize\<close> is a \<open>nat\<close> and its checked operations fail at \<open>2 ^ 64\<close>.\<close>

definition usize_lim :: nat where
  "usize_lim = 2 ^ 64"

definition checked_add :: "nat \<Rightarrow> nat \<Rightarrow> nat option" where
  "checked_add a b = (if a + b < usize_lim then Some (a + b) else None)"

definition checked_mul :: "nat \<Rightarrow> nat \<Rightarrow> nat option" where
  "checked_mul a b = (if a * b < usize_lim then Some (a * b) else None)"

lemma checked_add_iffs [res_simps]:
  "checked_add a b = Some c \<longleftrightarrow> a + b < usize_lim \<and> c = a + b"
  "checked_add a b = None \<longleftrightarrow> usize_lim \<le> a + b"
  by (auto simp: checked_add_def)

lemma checked_mul_iffs [res_simps]:
  "checked_mul a b = Some c \<longleftrightarrow> a * b < usize_lim \<and> c = a * b"
  "checked_mul a b = None \<longleftrightarrow> usize_lim \<le> a * b"
  by (auto simp: checked_mul_def)

section \<open>Little-endian encodings\<close>

fun nat_le :: "nat \<Rightarrow> nat \<Rightarrow> byte list" where
  "nat_le 0 x = []"
| "nat_le (Suc n) x = of_nat (x mod 256) # nat_le n (x div 256)"

fun le_nat :: "byte list \<Rightarrow> nat" where
  "le_nat [] = 0"
| "le_nat (b # bs) = unat b + 256 * le_nat bs"

text \<open>\<open>to_le_bytes\<close> of the three widths the formats use, and \<open>from_le_bytes\<close>.\<close>

definition le16 :: "u16 \<Rightarrow> byte list" where "le16 w = nat_le 2 (unat w)"
definition le32 :: "u32 \<Rightarrow> byte list" where "le32 w = nat_le 4 (unat w)"
definition le64 :: "u64 \<Rightarrow> byte list" where "le64 w = nat_le 8 (unat w)"

definition from_le :: "byte list \<Rightarrow> 'a::len word" where
  "from_le bs = of_nat (le_nat bs)"

lemma unat_lt: "unat (w :: 'a::len word) < 2 ^ LENGTH('a)"
  by (rule unsigned_less)

lemma unat_byte_lt: "unat (b :: byte) < 256"
  using unat_lt [of b] by simp

lemma length_nat_le [simp, layout_simps]: "length (nat_le n x) = n"
  by (induction n arbitrary: x) auto

lemma le_nat_nat_le [simp]: "le_nat (nat_le n x) = x mod 256 ^ n"
proof (induction n arbitrary: x)
  case (Suc n)
  have "unat (of_nat (x mod 256) :: byte) = x mod 256"
    by (simp add: unat_of_nat)
  with Suc show ?case
    by (simp add: mod_mult2_eq)
qed simp

lemma le_nat_bound: "le_nat bs < 256 ^ length bs"
proof (induction bs)
  case (Cons b bs)
  have "unat b < 256" by (rule unat_byte_lt)
  with Cons show ?case by simp
qed simp

lemma nat_le_le_nat: "nat_le (length bs) (le_nat bs) = bs"
proof (induction bs)
  case (Cons b bs)
  have "unat b < 256" by (rule unat_byte_lt)
  with Cons show ?case by simp
qed simp

lemma nat_le_eq_iff:
  assumes "x < 256 ^ n" and "y < 256 ^ n"
  shows "nat_le n x = nat_le n y \<longleftrightarrow> x = y"
proof
  assume "nat_le n x = nat_le n y"
  then have "le_nat (nat_le n x) = le_nat (nat_le n y)" by simp
  with assms show "x = y" by simp
qed simp

lemma length_le [simp, layout_simps]:
  "length (le16 a) = 2" "length (le32 b) = 4" "length (le64 c) = 8"
  by (simp_all add: le16_def le32_def le64_def)

lemma unat_bounds:
  "unat (a :: u16) < 256 ^ 2" "unat (b :: u32) < 256 ^ 4" "unat (c :: u64) < 256 ^ 8"
  using unat_lt [of a] unat_lt [of b] unat_lt [of c] by simp_all

lemma le_nat_le [simp]:
  "le_nat (le16 a) = unat a" "le_nat (le32 b) = unat b" "le_nat (le64 c) = unat c"
  using unat_bounds(1) [of a] unat_bounds(2) [of b] unat_bounds(3) [of c]
  by (simp_all add: le16_def le32_def le64_def)

lemma from_le_le [simp]:
  "from_le (le16 a) = a" "from_le (le32 b) = b" "from_le (le64 c) = c"
  by (simp_all add: from_le_def)

lemma le_inject [simp]:
  "le16 a = le16 a' \<longleftrightarrow> a = a'" "le32 b = le32 b' \<longleftrightarrow> b = b'" "le64 c = le64 c' \<longleftrightarrow> c = c'"
  by (metis from_le_le(1), metis from_le_le(2), metis from_le_le(3))

lemma unat_from_le:
  "(256::nat) ^ length bs \<le> 2 ^ LENGTH('a) \<Longrightarrow> unat (from_le bs :: 'a::len word) = le_nat bs"
  using le_nat_bound [of bs] by (simp add: from_le_def unat_of_nat)

section \<open>Slices\<close>

text \<open>\<open>&bytes[i..j]\<close> and \<open>bytes[i]\<close> panic out of range; \<open>bytes.get(i..j)\<close> is \<open>None\<close> there.\<close>

definition get_slice :: "'a list \<Rightarrow> nat \<Rightarrow> nat \<Rightarrow> 'a list option" where
  "get_slice bs i j = (if i \<le> j \<and> j \<le> length bs then Some (take (j - i) (drop i bs)) else None)"

definition slice :: "'a list \<Rightarrow> nat \<Rightarrow> nat \<Rightarrow> ('e, 'a list) res" where
  "slice bs i j = (case get_slice bs i j of None \<Rightarrow> Panic | Some s \<Rightarrow> Ok s)"

definition index :: "'a list \<Rightarrow> nat \<Rightarrow> ('e, 'a) res" where
  "index bs i = (if i < length bs then Ok (bs ! i) else Panic)"

text \<open>\<open>buf[off..off + xs.len()].copy_from_slice(xs)\<close>.\<close>

definition put_at :: "'a list \<Rightarrow> nat \<Rightarrow> 'a list \<Rightarrow> ('e, 'a list) res" where
  "put_at buf off xs =
     (if off + length xs \<le> length buf
      then Ok (take off buf @ xs @ drop (off + length xs) buf) else Panic)"

lemma get_slice_iffs [res_simps]:
  "get_slice bs i j = Some s \<longleftrightarrow> i \<le> j \<and> j \<le> length bs \<and> s = take (j - i) (drop i bs)"
  "get_slice bs i j = None \<longleftrightarrow> \<not> (i \<le> j \<and> j \<le> length bs)"
  by (auto simp: get_slice_def)

lemma slice_iffs [res_simps]:
  "slice bs i j = Ok s \<longleftrightarrow> i \<le> j \<and> j \<le> length bs \<and> s = take (j - i) (drop i bs)"
  "slice bs i j = Panic \<longleftrightarrow> \<not> (i \<le> j \<and> j \<le> length bs)"
  "slice bs i j \<noteq> Err e"
  by (auto simp: slice_def get_slice_def)

lemma index_iffs [res_simps]:
  "index bs i = Ok x \<longleftrightarrow> i < length bs \<and> x = bs ! i"
  "index bs i = Panic \<longleftrightarrow> \<not> i < length bs"
  "index bs i \<noteq> Err e"
  by (auto simp: index_def)

lemma slice_mid:
  "length xs = i \<Longrightarrow> j = i + length ys \<Longrightarrow> slice (xs @ ys @ zs) i j = Ok ys"
  by (simp add: slice_iffs)

lemma get_slice_mid:
  "length xs = i \<Longrightarrow> j = i + length ys \<Longrightarrow> get_slice (xs @ ys @ zs) i j = Some ys"
  by (simp add: get_slice_iffs)

lemma put_at_mid:
  "off = length xs \<Longrightarrow> length ys = length vs \<Longrightarrow> put_at (xs @ ys @ zs) off vs = Ok (xs @ vs @ zs)"
  by (simp add: put_at_def)

section \<open>Strings\<close>

abbreviation ord :: "char \<Rightarrow> nat" where
  "ord c \<equiv> of_char c"

definition byte_of_char :: "char \<Rightarrow> byte" where
  "byte_of_char c = of_nat (ord c)"

definition char_of_byte :: "byte \<Rightarrow> char" where
  "char_of_byte b = char_of (unat b)"

definition as_bytes :: "string \<Rightarrow> byte list" where
  "as_bytes s = map byte_of_char s"

definition from_bytes :: "byte list \<Rightarrow> string" where
  "from_bytes bs = map char_of_byte bs"

lemma ord_bound: "ord c < 256"
  by (rule nat_of_char_less_256)

lemma unat_byte_of_char [simp]: "unat (byte_of_char c) = ord c"
  by (simp add: byte_of_char_def unat_of_nat)

lemma char_of_byte_inverse [simp]:
  "char_of_byte (byte_of_char c) = c" "byte_of_char (char_of_byte b) = b"
  using unat_byte_lt [of b] by (simp_all add: char_of_byte_def) (simp add: byte_of_char_def)

lemma as_bytes_simps [simp]:
  "length (as_bytes s) = length s" "length (from_bytes bs) = length bs"
  "from_bytes (as_bytes s) = s" "as_bytes (from_bytes bs) = bs"
  "as_bytes (s @ t) = as_bytes s @ as_bytes t"
  by (simp_all add: as_bytes_def from_bytes_def comp_def)

lemma as_bytes_inject [simp]: "as_bytes s = as_bytes t \<longleftrightarrow> s = t"
  by (metis as_bytes_simps(3))

subsection \<open>UTF-8\<close>

definition cont_byte :: "char \<Rightarrow> bool" where
  "cont_byte c \<longleftrightarrow> 128 \<le> ord c \<and> ord c < 192"

definition in_range :: "nat \<Rightarrow> nat \<Rightarrow> char \<Rightarrow> bool" where
  "in_range lo hi c \<longleftrightarrow> lo \<le> ord c \<and> ord c \<le> hi"

text \<open>
  One well-formed sequence at the head of a byte string, as \<open>core::str::from_utf8\<close> accepts it:
  no overlong form, no surrogate, nothing above U+10FFFF.
\<close>

fun utf8_tail :: "string \<Rightarrow> string option" where
  "utf8_tail [] = None"
| "utf8_tail (a # cs) =
     (if ord a < 128 then Some cs
      else case cs of
        [] \<Rightarrow> None
      | b # cs' \<Rightarrow>
          if in_range 194 223 a then (if cont_byte b then Some cs' else None)
          else case cs' of
            [] \<Rightarrow> None
          | c # cs'' \<Rightarrow>
              if in_range 224 239 a then
                (if (ord a = 224 \<and> in_range 160 191 b \<or> in_range 225 236 a \<and> cont_byte b
                     \<or> ord a = 237 \<and> in_range 128 159 b \<or> in_range 238 239 a \<and> cont_byte b)
                    \<and> cont_byte c then Some cs'' else None)
              else case cs'' of
                [] \<Rightarrow> None
              | d # rest \<Rightarrow>
                  if (ord a = 240 \<and> in_range 144 191 b \<or> in_range 241 243 a \<and> cont_byte b
                      \<or> ord a = 244 \<and> in_range 128 143 b) \<and> cont_byte c \<and> cont_byte d
                  then Some rest else None)"

lemma utf8_tail_shorter: "utf8_tail s = Some r \<Longrightarrow> length r < length s"
  by (cases s) (auto split: if_splits list.splits)

function utf8_valid :: "string \<Rightarrow> bool" where
  "utf8_valid s = (s = [] \<or> (case utf8_tail s of None \<Rightarrow> False | Some r \<Rightarrow> utf8_valid r))"
  by pat_completeness auto
termination
  by (relation "measure length") (auto dest: utf8_tail_shorter)

declare utf8_valid.simps [simp del]

lemma utf8_valid_Nil [simp]: "utf8_valid []"
  by (simp add: utf8_valid.simps)

lemma utf8_valid_ascii_Cons [simp]: "ord c < 128 \<Longrightarrow> utf8_valid (c # s) \<longleftrightarrow> utf8_valid s"
  by (subst utf8_valid.simps) simp

lemma utf8_valid_ascii: "\<forall>c \<in> set s. ord c < 128 \<Longrightarrow> utf8_valid s"
  by (induction s) auto

text \<open>\<open>String::from_utf8\<close>: the string, or \<open>None\<close> for its error.\<close>

definition from_utf8 :: "byte list \<Rightarrow> string option" where
  "from_utf8 bs = (if utf8_valid (from_bytes bs) then Some (from_bytes bs) else None)"

lemma from_utf8_as_bytes [simp]: "utf8_valid s \<Longrightarrow> from_utf8 (as_bytes s) = Some s"
  by (simp add: from_utf8_def)

lemma from_utf8_Some: "from_utf8 bs = Some s \<longleftrightarrow> utf8_valid s \<and> bs = as_bytes s"
  by (auto simp: from_utf8_def)


subsection \<open>Decimal and hexadecimal digits\<close>

text \<open>\<open>u64::to_string\<close>.\<close>

definition digit :: "nat \<Rightarrow> char" where
  "digit d = char_of (48 + d)"

fun dec_string :: "nat \<Rightarrow> string" where
  "dec_string n = (if n < 10 then [digit n] else dec_string (n div 10) @ [digit (n mod 10)])"

declare dec_string.simps [simp del]

definition dec_value :: "string \<Rightarrow> nat" where
  "dec_value s = foldl (\<lambda>v c. 10 * v + (ord c - 48)) 0 s"

lemma ord_digit [simp]: "d < 10 \<Longrightarrow> ord (digit d) = 48 + d"
  by (simp add: digit_def)

lemma dec_value_dec_string: "dec_value (dec_string n) = n"
proof (induction n rule: dec_string.induct)
  case (1 n)
  show ?case
  proof (cases "n < 10")
    case True
    then show ?thesis by (subst dec_string.simps) (simp add: dec_value_def)
  next
    case False
    with "1.IH" have "dec_value (dec_string (n div 10)) = n div 10" by simp
    with False show ?thesis by (subst dec_string.simps) (simp add: dec_value_def)
  qed
qed

lemma dec_string_inject [simp]: "dec_string m = dec_string n \<longleftrightarrow> m = n"
  by (metis dec_value_dec_string)

lemma dec_string_ascii: "c \<in> set (dec_string n) \<Longrightarrow> ord c < 128"
proof (induction n rule: dec_string.induct)
  case (1 n)
  then show ?case
    by (cases "n < 10") (auto simp: dec_string.simps [of n])
qed

lemma length_dec_string: "length (dec_string n) \<le> Suc (n div 10)"
proof (induction n rule: dec_string.induct)
  case (1 n)
  show ?case
  proof (cases "n < 10")
    case False
    with "1.IH" have "length (dec_string (n div 10)) \<le> Suc (n div 10 div 10)" by simp
    moreover from False have "n div 10 div 10 < n div 10" by (intro div_less_dividend) auto
    ultimately show ?thesis using False by (simp add: dec_string.simps [of n])
  qed (simp add: dec_string.simps [of n])
qed

text \<open>\<open>char::to_digit(16)\<close>.\<close>

definition to_digit16 :: "char \<Rightarrow> nat option" where
  "to_digit16 c =
     (if in_range 48 57 c then Some (ord c - 48)
      else if in_range 97 102 c then Some (ord c - 87)
      else if in_range 65 70 c then Some (ord c - 55)
      else None)"

end
