(* ===== verification/Hbp.thy ===== *)
theory Hbp
  imports Rust_Std
begin

text \<open>
  The append-only receipt ledger of \<open>simplicio-code-formats/src/hbp.rs\<close>: the encoder, the
  decoder and the genesis-linked row hashes. SHA-256 is the \<open>sha2\<close> crate's and is the
  parameter \<open>sha\<close> of the definitions that hash.
\<close>

unbundle bit_operations_syntax

section \<open>Constants, records and errors\<close>

definition HBP_MAGIC :: "byte list" where
  "HBP_MAGIC = as_bytes ''HBP1''"

definition HBP_VERSION :: u16 where
  "HBP_VERSION = 1"

definition HBP_GENESIS :: string where
  "HBP_GENESIS = ''genesis''"

definition HBP_HEADER_LEN :: nat where
  "HBP_HEADER_LEN = 8"

definition MAX_FIELD_BYTES :: nat where
  "MAX_FIELD_BYTES = 4 * 1024 * 1024"

definition MAX_RECORD_BYTES :: nat where
  "MAX_RECORD_BYTES = 16 * 1024 * 1024"

definition MAX_LEDGER_BYTES :: nat where
  "MAX_LEDGER_BYTES = 64 * 1024 * 1024"

definition CODE_TOPIC :: string where
  "CODE_TOPIC = ''code.record''"

definition CODE_PROVENANCE :: string where
  "CODE_PROVENANCE = ''simplicio-code''"

record HbpRecord =
  hbp_sequence :: u64
  hbp_payload :: "byte list"

datatype HbpError =
    HbpTruncated u64
  | HbpBadMagic
  | HbpUnsupportedVersion u16
  | HbpInvalidLength
  | HbpBrokenChain u64
  | HbpTooLarge
  | HbpNonContiguousSequence u64 u64
  | HbpInvalidUtf8
  | HbpFieldTooLarge
  | HbpInvalidTokenMarker
  | HbpInvalidHex
  | HbpTrailingBytes

section \<open>Hexadecimal\<close>

definition hex_char :: "nat \<Rightarrow> char" where
  "hex_char d = ''0123456789abcdef'' ! d"

fun hex_encode :: "byte list \<Rightarrow> string" where
  "hex_encode [] = []"
| "hex_encode (b # bs) =
     hex_char (unat (drop_bit 4 b)) # hex_char (unat (b AND 15)) # hex_encode bs"

text \<open>The pairs of \<open>chunks_exact(2)\<close>, collected up to the first error.\<close>

fun hex_pairs :: "string \<Rightarrow> (HbpError, byte list) res" where
  "hex_pairs (a # b # rest) =
     try_res (ok_or HbpInvalidHex (to_digit16 a)) (\<lambda>high.
     try_res (ok_or HbpInvalidHex (to_digit16 b)) (\<lambda>low.
     try_res (hex_pairs rest) (\<lambda>bs.
     Ok (of_nat (high * 16 + low) # bs))))"
| "hex_pairs _ = Ok []"

definition hex_decode :: "string \<Rightarrow> (HbpError, byte list) res" where
  "hex_decode value = (if length value mod 2 \<noteq> 0 then Err HbpInvalidHex else hex_pairs value)"

section \<open>Row hashes\<close>

definition hash_fields :: "string list \<Rightarrow> byte list" where
  "hash_fields parts = concat (map (\<lambda>field. nat_le 8 (length field) @ as_bytes field) parts)"

definition row_content_hash ::
  "(byte list \<Rightarrow> byte list) \<Rightarrow> u64 \<Rightarrow> string \<Rightarrow> string \<Rightarrow> string \<Rightarrow> string \<Rightarrow> string option \<Rightarrow> string" where
  "row_content_hash sha sequence previous_hash topic payload provenance crypto_token =
     hex_encode (sha (hash_fields
       [dec_string (unat sequence), previous_hash, topic, payload, provenance,
        (case crypto_token of None \<Rightarrow> [] | Some t \<Rightarrow> t)]))"

section \<open>Encoding\<close>

definition put_string :: "byte list \<Rightarrow> string \<Rightarrow> (HbpError, byte list) res" where
  "put_string out value =
     (if length value > MAX_FIELD_BYTES then Err HbpFieldTooLarge
      else Ok (out @ nat_le 4 (length value) @ as_bytes value))"

definition encode_body ::
  "u64 \<Rightarrow> string \<Rightarrow> string \<Rightarrow> string \<Rightarrow> (HbpError, byte list) res" where
  "encode_body sequence payload previous_hash hash =
     (let body = le64 sequence @ le64 0 in
      try_res (put_string body CODE_TOPIC) (\<lambda>body.
      try_res (put_string body payload) (\<lambda>body.
      try_res (put_string body CODE_PROVENANCE) (\<lambda>body.
      let body = body @ [0] in
      try_res (put_string body previous_hash) (\<lambda>body.
      put_string body hash)))))"

fun encode_loop ::
  "(byte list \<Rightarrow> byte list) \<Rightarrow> nat \<Rightarrow> string \<Rightarrow> byte list \<Rightarrow> HbpRecord list \<Rightarrow> (HbpError, byte list) res" where
  "encode_loop sha idx previous_hash output [] = Ok output"
| "encode_loop sha idx previous_hash output (record # records) =
     (let expected = of_nat idx in
      if hbp_sequence record \<noteq> expected
      then Err (HbpNonContiguousSequence expected (hbp_sequence record))
      else
        let payload = hex_encode (hbp_payload record);
            hash = row_content_hash sha expected previous_hash CODE_TOPIC payload CODE_PROVENANCE None
        in try_res (encode_body expected payload previous_hash hash) (\<lambda>body.
           if length body > MAX_RECORD_BYTES then Err HbpTooLarge
           else if length body \<ge> 2 ^ 32 then Err HbpTooLarge
           else
             let output = output @ nat_le 4 (length body) @ body in
             if length output > MAX_LEDGER_BYTES then Err HbpTooLarge
             else encode_loop sha (Suc idx) hash output records))"

definition hbp_header :: "byte list" where
  "hbp_header = HBP_MAGIC @ le16 HBP_VERSION @ le16 0"

definition encode_hbp ::
  "(byte list \<Rightarrow> byte list) \<Rightarrow> HbpRecord list \<Rightarrow> (HbpError, byte list) res" where
  "encode_hbp sha records = encode_loop sha 0 HBP_GENESIS hbp_header records"

section \<open>Decoding\<close>

text \<open>The readers take the cursor and return the value with the advanced cursor.\<close>

definition take_bytes :: "byte list \<Rightarrow> nat \<Rightarrow> nat \<Rightarrow> (HbpError, byte list \<times> nat) res" where
  "take_bytes bytes cursor count =
     try_res (ok_or HbpInvalidLength (checked_add cursor count)) (\<lambda>end'.
     if end' > length bytes then Err (HbpTruncated 0)
     else try_res (slice bytes cursor end') (\<lambda>value. Ok (value, end')))"

definition take_u64 :: "byte list \<Rightarrow> nat \<Rightarrow> (HbpError, u64 \<times> nat) res" where
  "take_u64 bytes cursor =
     try_res (take_bytes bytes cursor 8) (\<lambda>(value, cursor). Ok (from_le value, cursor))"

definition take_string :: "byte list \<Rightarrow> nat \<Rightarrow> (HbpError, string \<times> nat) res" where
  "take_string bytes cursor =
     try_res (take_bytes bytes cursor 4) (\<lambda>(value, cursor).
     let len = unat (from_le value :: u32) in
     if len > MAX_FIELD_BYTES then Err HbpFieldTooLarge
     else try_res (take_bytes bytes cursor len) (\<lambda>(raw, cursor).
          try_res (ok_or HbpInvalidUtf8 (from_utf8 raw)) (\<lambda>s. Ok (s, cursor))))"

definition decode_body ::
  "byte list \<Rightarrow> (HbpError, u64 \<times> string \<times> string \<times> string \<times> string \<times> string) res" where
  "decode_body body =
     try_res (take_u64 body 0) (\<lambda>(sequence, cursor).
     try_res (take_u64 body cursor) (\<lambda>(_, cursor).
     try_res (take_string body cursor) (\<lambda>(topic, cursor).
     try_res (take_string body cursor) (\<lambda>(payload, cursor).
     try_res (take_string body cursor) (\<lambda>(provenance, cursor).
     try_res (take_bytes body cursor 1) (\<lambda>(one, cursor).
     try_res (index one 0) (\<lambda>marker.
     if marker \<noteq> 0 then Err HbpInvalidTokenMarker
     else
       try_res (take_string body cursor) (\<lambda>(previous_hash, cursor).
       try_res (take_string body cursor) (\<lambda>(hash, cursor).
       if cursor \<noteq> length body then Err HbpTrailingBytes
       else Ok (sequence, payload, previous_hash, hash, topic, provenance))))))))))"

text \<open>
  One turn of the \<open>while cursor < bytes.len()\<close> loop: the record, its hash and the cursor after
  it, given the hash of the row before and the number of records read so far.
\<close>

definition decode_row ::
  "(byte list \<Rightarrow> byte list) \<Rightarrow> byte list \<Rightarrow> nat \<Rightarrow> string \<Rightarrow> nat \<Rightarrow> (HbpError, HbpRecord \<times> string \<times> nat) res" where
  "decode_row sha bytes cursor previous_hash n =
     (let sequence = of_nat n in
      if length bytes - cursor < 4 then Err (HbpTruncated sequence)
      else
        try_res (slice bytes cursor (cursor + 4)) (\<lambda>value.
        let len = unat (from_le value :: u32); cursor = cursor + 4 in
        if len = 0 \<or> len > MAX_RECORD_BYTES then Err HbpInvalidLength
        else
          try_res (ok_or HbpInvalidLength (checked_add cursor len)) (\<lambda>end'.
          if end' > length bytes then Err (HbpTruncated sequence)
          else
            try_res (slice bytes cursor end') (\<lambda>body.
            try_res (decode_body body)
              (\<lambda>(actual_sequence, payload, prev, hash, topic, provenance).
              if actual_sequence \<noteq> sequence
              then Err (HbpNonContiguousSequence sequence actual_sequence)
              else if prev \<noteq> previous_hash \<or> topic \<noteq> CODE_TOPIC \<or> provenance \<noteq> CODE_PROVENANCE
              then Err (HbpBrokenChain sequence)
              else if row_content_hash sha sequence prev topic payload provenance None \<noteq> hash
              then Err (HbpBrokenChain sequence)
              else
                try_res (hex_decode payload) (\<lambda>decoded.
                Ok (\<lparr>hbp_sequence = sequence, hbp_payload = decoded\<rparr>, hash, end')))))))"

lemma decode_row_cursor:
  "decode_row sha bytes cursor prev n = Ok (r, h, c) \<Longrightarrow> cursor < c \<and> c \<le> length bytes"
  unfolding decode_row_def Let_def
  by (auto simp: res_simps split: if_splits prod.splits)

text \<open>The loop with its final state: the records and the hash of the last row.\<close>

function decode_loop ::
  "(byte list \<Rightarrow> byte list) \<Rightarrow> byte list \<Rightarrow> nat \<Rightarrow> string \<Rightarrow> HbpRecord list \<Rightarrow>
   (HbpError, HbpRecord list \<times> string) res" where
  "decode_loop sha bytes cursor previous_hash records =
     (if cursor < length bytes then
        case decode_row sha bytes cursor previous_hash (length records) of
          Ok (record, hash, cursor') \<Rightarrow> decode_loop sha bytes cursor' hash (records @ [record])
        | Err e \<Rightarrow> Err e
        | Panic \<Rightarrow> Panic
      else Ok (records, previous_hash))"
  by pat_completeness auto
termination
  by (relation "measure (\<lambda>(sha, bytes, cursor, h, rs). length bytes - cursor)")
     (auto dest: decode_row_cursor)

declare decode_loop.simps [simp del]

definition decode_header :: "byte list \<Rightarrow> (HbpError, unit) res" where
  "decode_header bytes =
     (if length bytes > MAX_LEDGER_BYTES then Err HbpTooLarge
      else if length bytes < HBP_HEADER_LEN then Err (HbpTruncated 0)
      else
        try_res (slice bytes 0 4) (\<lambda>magic.
        if magic \<noteq> HBP_MAGIC then Err HbpBadMagic
        else
          try_res (index bytes 4) (\<lambda>v0. try_res (index bytes 5) (\<lambda>v1.
          let version = from_le [v0, v1] in
          if version \<noteq> HBP_VERSION then Err (HbpUnsupportedVersion version)
          else
            try_res (index bytes 6) (\<lambda>f0. try_res (index bytes 7) (\<lambda>f1.
            if f0 \<noteq> 0 \<or> f1 \<noteq> 0 then Err (HbpUnsupportedVersion (- 1)) else Ok ()))))))"

definition decode_ledger ::
  "(byte list \<Rightarrow> byte list) \<Rightarrow> byte list \<Rightarrow> (HbpError, HbpRecord list \<times> string) res" where
  "decode_ledger sha bytes =
     try_res (decode_header bytes) (\<lambda>_. decode_loop sha bytes HBP_HEADER_LEN HBP_GENESIS [])"

definition decode_hbp ::
  "(byte list \<Rightarrow> byte list) \<Rightarrow> byte list \<Rightarrow> (HbpError, HbpRecord list) res" where
  "decode_hbp sha bytes = try_res (decode_ledger sha bytes) (\<lambda>(records, _). Ok records)"


section \<open>Hexadecimal round trip\<close>

lemma nibbles:
  "unat (drop_bit 4 (b :: byte)) = unat b div 16" "unat (b AND 15) = unat b mod 16"
proof -
  show "unat (drop_bit 4 b) = unat b div 16"
    by (simp only: unat_drop_bit_eq) (simp add: drop_bit_eq_div)
  have "b AND 15 = take_bit 4 b"
    by (simp add: take_bit_eq_mask mask_eq_exp_minus_1)
  then show "unat (b AND 15) = unat b mod 16"
    by (simp only: unsigned_take_bit_eq) (simp add: take_bit_eq_mod)
qed

lemma nat_less_16: "(d::nat) < 16 \<Longrightarrow> d \<in> {0, 1, 2, 3, 4, 5, 6, 7, 8, 9, 10, 11, 12, 13, 14, 15}"
  by (simp, presburger)

lemma hex_char_digit:
  assumes "d < 16"
  shows "to_digit16 (hex_char d) = Some d" and "ord (hex_char d) < 128"
  using nat_less_16 [OF assms] by (auto simp: hex_char_def to_digit16_def in_range_def)

lemma length_hex_encode [simp, layout_simps]: "length (hex_encode bs) = 2 * length bs"
  by (induction bs) auto

lemma hex_nibble_bounds: "unat (b :: byte) div 16 < 16" "unat b mod 16 < 16"
  using unat_byte_lt [of b] by (auto simp: less_mult_imp_div_less)

lemma hex_pairs_encode: "hex_pairs (hex_encode bs) = Ok bs"
proof (induction bs)
  case (Cons b bs)
  then show ?case
    by (simp add: nibbles hex_char_digit(1) hex_nibble_bounds del: of_nat_add of_nat_mult)
qed simp

lemma hex_decode_encode [simp]: "hex_decode (hex_encode bs) = Ok bs"
  by (simp add: hex_decode_def hex_pairs_encode)

lemma hex_encode_inject [simp]: "hex_encode a = hex_encode b \<longleftrightarrow> a = b"
  by (metis hex_pairs_encode res.inject(1))

lemma hex_encode_ascii: "c \<in> set (hex_encode bs) \<Longrightarrow> ord c < 128"
  by (induction bs) (auto simp: nibbles hex_char_digit(2) hex_nibble_bounds)

lemma utf8_hex_encode [simp]: "utf8_valid (hex_encode bs)"
  by (rule utf8_valid_ascii) (blast intro: hex_encode_ascii)

lemma utf8_constants [simp]:
  "utf8_valid CODE_TOPIC" "utf8_valid CODE_PROVENANCE" "utf8_valid HBP_GENESIS"
  by (simp_all add: CODE_TOPIC_def CODE_PROVENANCE_def HBP_GENESIS_def)

section \<open>The field readers\<close>

lemma take_bytes_at:
  assumes "drop c bs = ys @ zs" and "length bs < usize_lim" and "c \<le> length bs" and "n = length ys"
  shows "take_bytes bs c n = Ok (ys, c + n)" and "drop (c + n) bs = zs" and "c + n \<le> length bs"
proof -
  have len: "length bs - c = length ys + length zs"
    using arg_cong [OF assms(1), of length] by simp
  with assms show le: "c + n \<le> length bs" by linarith
  show "drop (c + n) bs = zs"
    using assms(1,4) by (metis add.commute append_eq_conv_conj drop_drop)
  show "take_bytes bs c n = Ok (ys, c + n)"
    using assms le by (simp add: take_bytes_def checked_add_def slice_def get_slice_def)
qed

lemma take_u64_at:
  assumes "drop c bs = le64 w @ zs" and "length bs < usize_lim" and "c \<le> length bs"
  shows "take_u64 bs c = Ok (w, c + 8)" and "drop (c + 8) bs = zs" and "c + 8 \<le> length bs"
  using take_bytes_at [OF assms, of 8] by (simp_all add: take_u64_def)

lemma unat_from_le32: "x < 2 ^ 32 \<Longrightarrow> unat (from_le (nat_le 4 x) :: u32) = x"
  by (simp add: unat_from_le)

lemma MAX_FIELD_lt: "n \<le> MAX_FIELD_BYTES \<Longrightarrow> n < 4294967296"
  by (simp add: MAX_FIELD_BYTES_def)

lemma take_string_at:
  assumes d: "drop c bs = nat_le 4 (length s) @ as_bytes s @ zs"
    and l: "length bs < usize_lim" and c: "c \<le> length bs"
    and u: "utf8_valid s" and m: "length s \<le> MAX_FIELD_BYTES"
  shows "take_string bs c = Ok (s, c + 4 + length s)"
    and "drop (c + 4 + length s) bs = zs" and "c + 4 + length s \<le> length bs"
proof -
  note a = take_bytes_at [OF d l c, of 4, simplified]
  have d2: "drop (c + 4) bs = as_bytes s @ zs" using a(2) .
  note b = take_bytes_at [OF d2 l a(3), of "length s", simplified]
  show "take_string bs c = Ok (s, c + 4 + length s)"
    using m u by (simp add: take_string_def Let_def a(1) b(1) unat_from_le32 MAX_FIELD_lt)
  show "drop (c + 4 + length s) bs = zs" and "c + 4 + length s \<le> length bs"
    using b(2,3) .
qed

lemma take_bytes_no_panic [simp]: "take_bytes bs c n \<noteq> Panic"
  by (auto simp: take_bytes_def res_simps)

lemma take_bytes_length: "take_bytes bs c n = Ok (v, c') \<Longrightarrow> length v = n"
  by (auto simp: take_bytes_def res_simps)

lemma take_u64_no_panic [simp]: "take_u64 bs c \<noteq> Panic"
  by (auto simp: take_u64_def res_simps)

lemma take_string_no_panic [simp]: "take_string bs c \<noteq> Panic"
  by (auto simp: take_string_def res_simps Let_def)

lemma take_string_bound: "take_string bs c = Ok (s, c') \<Longrightarrow> length s \<le> MAX_FIELD_BYTES"
  by (auto simp: take_string_def res_simps Let_def from_utf8_Some dest!: take_bytes_length)


section \<open>The layout of a row\<close>

definition hbp_field :: "string \<Rightarrow> byte list" where
  "hbp_field s = nat_le 4 (length s) @ as_bytes s"

definition hbp_body :: "u64 \<Rightarrow> string \<Rightarrow> string \<Rightarrow> string \<Rightarrow> byte list" where
  "hbp_body seq payload prev hash =
     le64 seq @ le64 0 @ hbp_field CODE_TOPIC @ hbp_field payload @ hbp_field CODE_PROVENANCE
       @ [0] @ hbp_field prev @ hbp_field hash"

lemma length_hbp_field [simp, layout_simps]: "length (hbp_field s) = 4 + length s"
  by (simp add: hbp_field_def)

lemma constant_lengths [simp]:
  "length CODE_TOPIC = 11" "length CODE_PROVENANCE = 14" "length HBP_GENESIS = 7"
  by (simp_all add: CODE_TOPIC_def CODE_PROVENANCE_def HBP_GENESIS_def)

lemma length_hbp_body [layout_simps]:
  "length (hbp_body seq payload prev hash) = 62 + length payload + length prev + length hash"
  by (simp add: hbp_body_def)

lemma encode_body_Ok_iff:
  "encode_body seq payload prev hash = Ok body \<longleftrightarrow>
     body = hbp_body seq payload prev hash \<and> length payload \<le> MAX_FIELD_BYTES
     \<and> length prev \<le> MAX_FIELD_BYTES \<and> length hash \<le> MAX_FIELD_BYTES"
proof -
  have "11 \<le> MAX_FIELD_BYTES" "14 \<le> MAX_FIELD_BYTES" by (simp_all add: MAX_FIELD_BYTES_def)
  then show ?thesis
    by (auto simp: encode_body_def put_string_def hbp_body_def hbp_field_def Let_def)
qed

lemma take_field_at:
  assumes "drop c bs = hbp_field s @ zs" and "length bs < usize_lim" and "c \<le> length bs"
    and "utf8_valid s" and "length s \<le> MAX_FIELD_BYTES"
  shows "take_string bs c = Ok (s, c + 4 + length s)"
    and "drop (c + 4 + length s) bs = zs" and "c + 4 + length s \<le> length bs"
  using take_string_at [of c bs s zs] assms by (simp_all add: hbp_field_def)

lemma decode_body_layout:
  assumes u: "utf8_valid payload" "utf8_valid prev" "utf8_valid hash"
    and m: "length payload \<le> MAX_FIELD_BYTES" "length prev \<le> MAX_FIELD_BYTES" "length hash \<le> MAX_FIELD_BYTES"
    and l: "length (hbp_body seq payload prev hash) < usize_lim"
  shows "decode_body (hbp_body seq payload prev hash) =
           Ok (seq, payload, prev, hash, CODE_TOPIC, CODE_PROVENANCE)"
proof -
  let ?b = "hbp_body seq payload prev hash"
  have k: "length CODE_TOPIC \<le> MAX_FIELD_BYTES" "length CODE_PROVENANCE \<le> MAX_FIELD_BYTES"
    by (simp_all add: MAX_FIELD_BYTES_def)
  have one: "1 = length [0 :: byte]" by simp
  have d0: "drop 0 ?b = le64 seq @ le64 0 @ hbp_field CODE_TOPIC @ hbp_field payload
       @ hbp_field CODE_PROVENANCE @ [0] @ hbp_field prev @ hbp_field hash @ []"
    by (simp add: hbp_body_def)
  note r1 = take_u64_at [OF d0 l le0]
  note r2 = take_u64_at [OF r1(2) l r1(3)]
  note r3 = take_field_at [OF r2(2) l r2(3) utf8_constants(1) k(1)]
  note r4 = take_field_at [OF r3(2) l r3(3) u(1) m(1)]
  note r5 = take_field_at [OF r4(2) l r4(3) utf8_constants(2) k(2)]
  note r6 = take_bytes_at [OF r5(2) l r5(3) one]
  note r7 = take_field_at [OF r6(2) l r6(3) u(2) m(2)]
  note r8 = take_field_at [OF r7(2) l r7(3) u(3) m(3)]
  note r9 = le_antisym [OF r8(3) r8(2) [unfolded drop_eq_Nil]]
  have marker: "index [0] 0 = Ok (0 :: byte)" by (simp add: index_def)
  show ?thesis
    by (simp only: decode_body_def r1(1) r2(1) r3(1) r4(1) r5(1) r6(1) r7(1) r8(1) r9 marker
        try_res.simps prod.case simp_thms if_False)
qed

section \<open>Encoding, then decoding\<close>

lemma encode_loop_extends:
  "encode_loop sha idx prev out rs = Ok bs \<Longrightarrow>
     (\<exists>rest. bs = out @ rest) \<and> (length out \<le> MAX_LEDGER_BYTES \<longrightarrow> length bs \<le> MAX_LEDGER_BYTES)"
proof (induction rs arbitrary: idx prev out)
  case (Cons r rs)
  then obtain body where b: "encode_loop sha (Suc idx)
        (row_content_hash sha (of_nat idx) prev CODE_TOPIC (hex_encode (hbp_payload r)) CODE_PROVENANCE None)
        (out @ nat_le 4 (length body) @ body) rs = Ok bs"
      and l: "length (out @ nat_le 4 (length body) @ body) \<le> MAX_LEDGER_BYTES"
    by (auto simp: Let_def res_simps split: if_splits)
  from Cons.IH [OF b] l show ?case by auto
qed simp

lemma MAX_lims: "MAX_LEDGER_BYTES < usize_lim" "n \<le> MAX_RECORD_BYTES \<Longrightarrow> n < 4294967296"
  by (simp_all add: MAX_LEDGER_BYTES_def MAX_RECORD_BYTES_def usize_lim_def)

lemma decode_row_layout:
  assumes d: "drop c bs = nat_le 4 (length body) @ body @ rest"
    and body: "body = hbp_body (of_nat n) (hex_encode p) prev hash"
    and hash: "hash = row_content_hash sha (of_nat n) prev CODE_TOPIC (hex_encode p) CODE_PROVENANCE None"
    and c: "c \<le> length bs" and l: "length bs < usize_lim" "length body \<le> MAX_RECORD_BYTES"
    and u: "utf8_valid prev"
    and m: "length (hex_encode p) \<le> MAX_FIELD_BYTES" "length prev \<le> MAX_FIELD_BYTES" "length hash \<le> MAX_FIELD_BYTES"
  shows "decode_row sha bs c prev n =
           Ok (\<lparr>hbp_sequence = of_nat n, hbp_payload = p\<rparr>, hash, c + 4 + length body)"
proof -
  have len: "length bs = c + 4 + length body + length rest"
    using arg_cong [OF d, of length] c by simp
  have t: "take 4 (drop c bs) = nat_le 4 (length body)" by (simp add: d)
  have t': "take (length body) (drop (4 + c) bs) = body"
    using arg_cong [OF d, of "\<lambda>xs. take (length body) (drop 4 xs)"] by simp
  have pos: "0 < length body" by (simp add: body length_hbp_body)
  have uh: "utf8_valid hash" by (simp add: hash row_content_hash_def)
  have db: "decode_body body = Ok (of_nat n, hex_encode p, prev, hash, CODE_TOPIC, CODE_PROVENANCE)"
    unfolding body using u uh m l(1) len body
    by (intro decode_body_layout) auto
  have s1: "slice bs c (c + 4) = Ok (nat_le 4 (length body))"
    using len t by (simp add: slice_iffs)
  have s2: "slice bs (c + 4) (c + 4 + length body) = Ok body"
    using len t' by (simp add: slice_iffs add.commute)
  have nl: "unat (from_le (nat_le 4 (length body)) :: u32) = length body"
    using l(2) by (simp add: unat_from_le32 MAX_lims)
  show ?thesis
    using len l pos
    by (simp add: decode_row_def Let_def s1 s2 nl checked_add_def db hash [symmetric])
qed

lemma encode_decode_loop:
  assumes "encode_loop sha idx prev out rs = Ok bs" and "length acc = idx"
    and "length out \<le> MAX_LEDGER_BYTES" and "utf8_valid prev"
  shows "\<exists>h. decode_loop sha bs (length out) prev acc = Ok (acc @ rs, h)"
  using assms
proof (induction rs arbitrary: idx prev out acc)
  case Nil
  then show ?case by (subst decode_loop.simps) simp
next
  case (Cons r rs)
  let ?p = "hex_encode (hbp_payload r)"
  let ?h = "row_content_hash sha (of_nat idx) prev CODE_TOPIC ?p CODE_PROVENANCE None"
  let ?b = "hbp_body (of_nat idx) ?p prev ?h"
  let ?out = "out @ nat_le 4 (length ?b) @ ?b"
  from Cons.prems(1) have seq: "hbp_sequence r = of_nat idx"
    and m: "length ?p \<le> MAX_FIELD_BYTES" "length prev \<le> MAX_FIELD_BYTES" "length ?h \<le> MAX_FIELD_BYTES"
    and lb: "length ?b \<le> MAX_RECORD_BYTES" and lo: "length ?out \<le> MAX_LEDGER_BYTES"
    and e: "encode_loop sha (Suc idx) ?h ?out rs = Ok bs"
    by (auto simp: Let_def res_simps encode_body_Ok_iff split: if_splits)
  from encode_loop_extends [OF e] lo obtain rest where
    bs: "bs = ?out @ rest" and lbs: "length bs \<le> MAX_LEDGER_BYTES" by auto
  have row: "decode_row sha bs (length out) prev idx =
      Ok (\<lparr>hbp_sequence = of_nat idx, hbp_payload = hbp_payload r\<rparr>, ?h, length out + 4 + length ?b)"
    using bs lbs lb m MAX_lims(1) Cons.prems(4)
    by (intro decode_row_layout [where rest = rest]) auto
  have r: "\<lparr>hbp_sequence = of_nat idx, hbp_payload = hbp_payload r\<rparr> = r"
    using seq by (cases r) simp
  have uh: "utf8_valid ?h" by (simp add: row_content_hash_def)
  from Cons.IH [OF e _ lo uh, of "acc @ [r]"] Cons.prems(2) obtain h where
    "decode_loop sha bs (length ?out) ?h (acc @ [r]) = Ok (acc @ r # rs, h)" by auto
  moreover have "length out < length bs" by (simp add: bs)
  ultimately show ?case
    using Cons.prems(2) by (subst decode_loop.simps) (simp add: row r add.assoc)
qed

lemma decode_header_ok:
  assumes "bs = hbp_header @ rest" and "length bs \<le> MAX_LEDGER_BYTES"
  shows "decode_header bs = Ok ()"
proof -
  have h: "hbp_header = HBP_MAGIC @ [1, 0, 0, 0]" and m: "length HBP_MAGIC = 4"
    by (simp_all add: hbp_header_def HBP_VERSION_def HBP_MAGIC_def le16_def numeral_2_eq_2)
  have v: "from_le [1, 0] = HBP_VERSION"
    by (simp add: from_le_def HBP_VERSION_def)
  show ?thesis
    using assms(2)
    by (simp add: decode_header_def assms(1) h m v slice_iffs slice_def get_slice_def index_def
        HBP_HEADER_LEN_def Let_def nth_append)
qed

lemma length_hbp_header [simp]: "length hbp_header = 8"
  by (simp add: hbp_header_def HBP_MAGIC_def)

lemma encode_decode_hbp:
  assumes "encode_hbp sha rs = Ok bs"
  shows "decode_hbp sha bs = Ok rs"
proof -
  have h: "length hbp_header \<le> MAX_LEDGER_BYTES" by (simp add: MAX_LEDGER_BYTES_def)
  from encode_loop_extends [OF assms [unfolded encode_hbp_def]] h obtain rest where
    "bs = hbp_header @ rest" and "length bs \<le> MAX_LEDGER_BYTES" by auto
  then have "decode_header bs = Ok ()" by (rule decode_header_ok)
  moreover obtain h where "decode_loop sha bs (length hbp_header) HBP_GENESIS [] = Ok (rs, h)"
    using encode_decode_loop [OF assms [unfolded encode_hbp_def], of "[]"] h by auto
  ultimately show ?thesis
    by (simp add: decode_hbp_def decode_ledger_def HBP_HEADER_LEN_def)
qed


section \<open>Hostile input\<close>

lemma decode_body_no_panic [simp]: "decode_body body \<noteq> Panic"
  by (auto simp: decode_body_def res_simps dest!: take_bytes_length)

lemma hex_pairs_no_panic [simp]: "hex_pairs s \<noteq> Panic"
  by (induction s rule: hex_pairs.induct) (auto simp: res_simps)

lemma hex_decode_no_panic [simp]: "hex_decode s \<noteq> Panic"
  by (simp add: hex_decode_def)

lemma decode_row_no_panic [simp]: "decode_row sha bytes cursor prev n \<noteq> Panic"
  by (auto simp: decode_row_def Let_def res_simps)

lemma decode_loop_no_panic: "decode_loop sha bytes cursor prev records \<noteq> Panic"
proof (induction sha bytes cursor prev records rule: decode_loop.induct)
  case (1 sha bytes cursor prev records)
  show ?case
    by (subst decode_loop.simps) (auto split: res.splits simp: "1.IH")
qed

lemma decode_header_no_panic: "decode_header bytes \<noteq> Panic"
  by (auto simp: decode_header_def HBP_HEADER_LEN_def Let_def res_simps)

lemma decode_hbp_never_panics: "decode_hbp sha bytes \<noteq> Panic"
  by (auto simp: decode_hbp_def decode_ledger_def res_simps decode_header_no_panic decode_loop_no_panic)

section \<open>What an accepted ledger is\<close>

text \<open>The hashed content of a row, and the hash of the last row of a chain of payload texts.\<close>

definition row_input :: "nat \<Rightarrow> string \<Rightarrow> string \<Rightarrow> byte list" where
  "row_input n prev payload =
     hash_fields [dec_string (unat (of_nat n :: u64)), prev, CODE_TOPIC, payload, CODE_PROVENANCE, []]"

definition row_hash :: "(byte list \<Rightarrow> byte list) \<Rightarrow> nat \<Rightarrow> string \<Rightarrow> string \<Rightarrow> string" where
  "row_hash sha n prev payload = hex_encode (sha (row_input n prev payload))"

fun chain_hash :: "(byte list \<Rightarrow> byte list) \<Rightarrow> nat \<Rightarrow> string \<Rightarrow> string list \<Rightarrow> string" where
  "chain_hash sha n prev [] = prev"
| "chain_hash sha n prev (p # ps) = chain_hash sha (Suc n) (row_hash sha n prev p) ps"

text \<open>The records of a chain of payload texts, numbered from \<open>n\<close>.\<close>

fun rows_of :: "nat \<Rightarrow> string list \<Rightarrow> HbpRecord list" where
  "rows_of n [] = []"
| "rows_of n (p # ps) =
     \<lparr>hbp_sequence = of_nat n, hbp_payload = (case hex_decode p of Ok d \<Rightarrow> d | _ \<Rightarrow> [])\<rparr>
       # rows_of (Suc n) ps"

lemma row_content_hash_row: "row_content_hash sha (of_nat n) prev CODE_TOPIC p CODE_PROVENANCE None = row_hash sha n prev p"
  by (simp add: row_content_hash_def row_hash_def row_input_def)

lemma decode_body_bounds:
  "decode_body body = Ok (s, p, prev, h, t, v) \<Longrightarrow>
     length p \<le> MAX_FIELD_BYTES \<and> length prev \<le> MAX_FIELD_BYTES \<and> length h \<le> MAX_FIELD_BYTES"
  by (auto simp: decode_body_def res_simps dest!: take_string_bound)

lemma decode_row_accepts:
  assumes "decode_row sha bytes cursor prev n = Ok (r, h, c)"
  obtains p where "hex_decode p = Ok (hbp_payload r)" and "hbp_sequence r = of_nat n"
    and "h = row_hash sha n prev p" and "length p \<le> MAX_FIELD_BYTES" and "length prev \<le> MAX_FIELD_BYTES"
    and "length h \<le> MAX_FIELD_BYTES"
  using assms
  by (auto simp: decode_row_def Let_def res_simps row_content_hash_row dest!: decode_body_bounds)

lemma decode_loop_accepts:
  "decode_loop sha bytes cursor prev acc = Ok (rs, h) \<Longrightarrow>
     \<exists>ps. rs = acc @ rows_of (length acc) ps \<and> h = chain_hash sha (length acc) prev ps
        \<and> (\<forall>p \<in> set ps. length p \<le> MAX_FIELD_BYTES)
        \<and> (\<forall>k < length ps. length (chain_hash sha (length acc) prev (take k ps)) \<le> MAX_FIELD_BYTES)
        \<and> length ps \<le> length bytes - cursor"
proof (induction sha bytes cursor prev acc rule: decode_loop.induct)
  case (1 sha bytes cursor prev acc)
  show ?case
  proof (cases "cursor < length bytes")
    case False
    with "1.prems" show ?thesis
      by (intro exI [of _ "[]"]) (auto simp: decode_loop.simps [of sha bytes cursor])
  next
    case True
    with "1.prems" obtain r h1 c where
      row: "decode_row sha bytes cursor prev (length acc) = Ok (r, h1, c)"
      and rec: "decode_loop sha bytes c h1 (acc @ [r]) = Ok (rs, h)"
      by (auto simp: decode_loop.simps [of sha bytes cursor] split: res.splits)
    from row obtain p where p: "hex_decode p = Ok (hbp_payload r)" "hbp_sequence r = of_nat (length acc)"
        "h1 = row_hash sha (length acc) prev p" "length p \<le> MAX_FIELD_BYTES" "length prev \<le> MAX_FIELD_BYTES"
      by (rule decode_row_accepts)
    from "1.IH" [OF True row _ _ rec] obtain ps where
      ps: "rs = (acc @ [r]) @ rows_of (Suc (length acc)) ps"
        "h = chain_hash sha (Suc (length acc)) h1 ps" "\<forall>p \<in> set ps. length p \<le> MAX_FIELD_BYTES"
        "\<forall>k < length ps. length (chain_hash sha (Suc (length acc)) h1 (take k ps)) \<le> MAX_FIELD_BYTES"
        "length ps \<le> length bytes - c" by auto
    have "rows_of (length acc) (p # ps) = r # rows_of (Suc (length acc)) ps"
      using p(1,2) by (cases r) simp
    moreover have "\<forall>k < length (p # ps). length (chain_hash sha (length acc) prev (take k (p # ps))) \<le> MAX_FIELD_BYTES"
      using ps(4) p(3,5) by (auto simp: take_Cons split: nat.split)
    ultimately show ?thesis
      using ps p decode_row_cursor [OF row] by (intro exI [of _ "p # ps"]) auto
  qed
qed

lemma length_rows_of [simp]: "length (rows_of n ps) = length ps"
  by (induction ps arbitrary: n) auto

lemma rows_of_nth: "i < length ps \<Longrightarrow> hbp_sequence (rows_of n ps ! i) = of_nat (n + i)"
  by (induction ps arbitrary: n i) (auto simp: nth_Cons split: nat.split)

lemma decode_ledger_accepts:
  assumes "decode_ledger sha bytes = Ok (rs, h)"
  obtains ps where "rs = rows_of 0 ps" and "h = chain_hash sha 0 HBP_GENESIS ps"
    and "\<forall>p \<in> set ps. length p \<le> MAX_FIELD_BYTES"
    and "\<forall>k < length ps. length (chain_hash sha 0 HBP_GENESIS (take k ps)) \<le> MAX_FIELD_BYTES"
    and "length ps \<le> MAX_LEDGER_BYTES"
proof -
  from assms have "length bytes \<le> MAX_LEDGER_BYTES"
    and "decode_loop sha bytes HBP_HEADER_LEN HBP_GENESIS [] = Ok (rs, h)"
    by (auto simp: decode_ledger_def decode_header_def res_simps)
  with decode_loop_accepts [of sha bytes HBP_HEADER_LEN HBP_GENESIS "[]" rs h] that
  show thesis by fastforce
qed


section \<open>The last hash determines the ledger\<close>

lemma hash_fields_inject:
  assumes "length fs = length gs" and "hash_fields fs = hash_fields gs"
    and "\<forall>f \<in> set fs. length f < usize_lim" and "\<forall>g \<in> set gs. length g < usize_lim"
  shows "fs = gs"
  using assms
proof (induction fs gs rule: list_induct2)
  case (Cons f fs g gs)
  from Cons.prems(1) have eq: "nat_le 8 (length f) @ as_bytes f @ hash_fields fs
      = nat_le 8 (length g) @ as_bytes g @ hash_fields gs"
    by (simp add: hash_fields_def)
  then have "nat_le 8 (length f) = nat_le 8 (length g)" by simp
  with Cons.prems have len: "length f = length g"
    by (simp add: nat_le_eq_iff usize_lim_def)
  with eq have "as_bytes f = as_bytes g" and "hash_fields fs = hash_fields gs" by simp_all
  with Cons show ?case by simp
qed simp

lemma row_input_inject:
  assumes "row_input m prev p = row_input n prev' p'" and "m < usize_lim" and "n < usize_lim"
    and "length p < usize_lim" "length p' < usize_lim" "length prev < usize_lim" "length prev' < usize_lim"
  shows "m = n \<and> prev = prev' \<and> p = p'"
proof -
  have d: "length (dec_string (unat (of_nat k :: u64))) < usize_lim" for k
    using length_dec_string [of "unat (of_nat k :: u64)"] unat_lt [of "of_nat k :: u64"]
    by (simp add: usize_lim_def)
  have "[dec_string (unat (of_nat m :: u64)), prev, CODE_TOPIC, p, CODE_PROVENANCE, []]
      = [dec_string (unat (of_nat n :: u64)), prev', CODE_TOPIC, p', CODE_PROVENANCE, []]"
    using assms d by (intro hash_fields_inject) (auto simp: row_input_def, simp_all add: usize_lim_def)
  moreover have "unat (of_nat m :: u64) = m" "unat (of_nat n :: u64) = n"
    using assms(2,3) by (simp_all add: unat_of_nat usize_lim_def)
  ultimately show ?thesis by simp
qed

lemma chain_hash_snoc:
  "chain_hash sha n prev (ps @ [p]) = row_hash sha (n + length ps) (chain_hash sha n prev ps) p"
  by (induction ps arbitrary: n prev) auto

lemma row_hash_not_genesis: "row_hash sha n prev p \<noteq> HBP_GENESIS"
proof
  assume "row_hash sha n prev p = HBP_GENESIS"
  then have "length (row_hash sha n prev p) = 7" by simp
  then have "2 * length (sha (row_input n prev p)) = 7" by (simp add: row_hash_def)
  then show False by presburger
qed

text \<open>The contents that the rows of a chain hash, oldest first.\<close>

definition row_inputs :: "(byte list \<Rightarrow> byte list) \<Rightarrow> string list \<Rightarrow> byte list list" where
  "row_inputs sha ps =
     map (\<lambda>k. row_input k (chain_hash sha 0 HBP_GENESIS (take k ps)) (ps ! k)) [0..<length ps]"

lemma row_inputs_snoc:
  "row_inputs sha (ps @ [p]) =
     row_inputs sha ps @ [row_input (length ps) (chain_hash sha 0 HBP_GENESIS ps) p]"
  by (auto simp: row_inputs_def nth_append)

definition small_chain :: "(byte list \<Rightarrow> byte list) \<Rightarrow> string list \<Rightarrow> bool" where
  "small_chain sha ps \<longleftrightarrow> length ps < usize_lim \<and> (\<forall>p \<in> set ps. length p < usize_lim)
     \<and> (\<forall>k < length ps. length (chain_hash sha 0 HBP_GENESIS (take k ps)) < usize_lim)"

lemma small_chain_snocD:
  assumes "small_chain sha (ps @ [p])"
  shows "small_chain sha ps" and "length p < usize_lim" and "length ps < usize_lim"
    and "length (chain_hash sha 0 HBP_GENESIS ps) < usize_lim"
proof -
  have k: "length (chain_hash sha 0 HBP_GENESIS (take k (ps @ [p]))) < usize_lim" if "k \<le> length ps" for k
    using assms that by (auto simp: small_chain_def less_Suc_eq_le)
  show "length (chain_hash sha 0 HBP_GENESIS ps) < usize_lim" using k [of "length ps"] by simp
  have "length (chain_hash sha 0 HBP_GENESIS (take k ps)) < usize_lim" if "k < length ps" for k
    using k [of k] that by simp
  with assms show "small_chain sha ps" by (simp add: small_chain_def)
  from assms show "length p < usize_lim" and "length ps < usize_lim" by (auto simp: small_chain_def)
qed

lemma chain_hash_collision:
  assumes "chain_hash sha 0 HBP_GENESIS ps = chain_hash sha 0 HBP_GENESIS qs"
    and "small_chain sha ps" and "small_chain sha qs"
  shows "ps = qs \<or> (\<exists>x \<in> set (row_inputs sha ps). \<exists>y \<in> set (row_inputs sha qs). x \<noteq> y \<and> sha x = sha y)"
  using assms
proof (induction ps arbitrary: qs rule: rev_induct)
  case Nil
  then show ?case
    by (cases qs rule: rev_cases) (auto simp: chain_hash_snoc row_hash_not_genesis dest: sym)
next
  case (snoc p ps)
  show ?case
  proof (cases qs rule: rev_cases)
    case Nil
    with snoc.prems(1) show ?thesis by (auto simp: chain_hash_snoc row_hash_not_genesis)
  next
    case (snoc qs' q)
    let ?x = "row_input (length ps) (chain_hash sha 0 HBP_GENESIS ps) p"
    let ?y = "row_input (length qs') (chain_hash sha 0 HBP_GENESIS qs') q"
    note sp = small_chain_snocD [OF snoc.prems(2)]
    note sq = small_chain_snocD [OF snoc.prems(3) [unfolded snoc]]
    have eq: "sha ?x = sha ?y"
      using snoc.prems(1) by (simp add: snoc chain_hash_snoc row_hash_def)
    show ?thesis
    proof (cases "?x = ?y")
      case True
      from row_input_inject [OF True sp(3) sq(3) sp(2) sq(2) sp(4) sq(4)]
      have "chain_hash sha 0 HBP_GENESIS ps = chain_hash sha 0 HBP_GENESIS qs'" and "p = q" by simp_all
      from snoc.IH [OF this(1) sp(1) sq(1)] \<open>p = q\<close> show ?thesis
        by (auto simp: snoc row_inputs_snoc)
    next
      case False
      with eq show ?thesis by (auto simp: snoc row_inputs_snoc)
    qed
  qed
qed


section \<open>A ledger cut short\<close>

lemma decode_row_cut:
  assumes d: "drop c bs = take j (nat_le 4 (length body) @ body @ rest)" and j: "0 < j" "j < 4 + length body"
    and c: "c < length bs" and l: "length bs \<le> MAX_LEDGER_BYTES"
    and b: "0 < length body" "length body \<le> MAX_RECORD_BYTES"
  shows "decode_row sha bs c prev n = Err (HbpTruncated (of_nat n))"
proof -
  have len: "length bs - c = j"
    using arg_cong [OF d, of length] j by simp
  show ?thesis
  proof (cases "j < 4")
    case True
    with len show ?thesis by (simp add: decode_row_def Let_def)
  next
    case False
    have "take 4 (drop c bs) = nat_le 4 (length body)"
      using False by (simp add: d min_def)
    with False len c have s1: "slice bs c (c + 4) = Ok (nat_le 4 (length body))"
      by (simp add: slice_iffs)
    have nl: "unat (from_le (nat_le 4 (length body)) :: u32) = length body"
      using b by (simp add: unat_from_le32 MAX_lims)
    have "length bs < c + 4 + length body" using len j c by simp
    with False len b l show ?thesis
      by (simp add: decode_row_def Let_def s1 nl checked_add_def usize_lim_def
          MAX_RECORD_BYTES_def MAX_LEDGER_BYTES_def)
  qed
qed

lemma encode_decode_cut_loop:
  assumes "encode_loop sha idx prev out rs = Ok bs" and "length acc = idx"
    and "length out \<le> MAX_LEDGER_BYTES" and "utf8_valid prev" and "length out \<le> k" and "k \<le> length bs"
  shows "(\<exists>n h. decode_loop sha (take k bs) (length out) prev acc = Ok (acc @ take n rs, h))
       \<or> (\<exists>s. decode_loop sha (take k bs) (length out) prev acc = Err (HbpTruncated s))"
  using assms
proof (induction rs arbitrary: idx prev out acc)
  case Nil
  then show ?case by (subst decode_loop.simps, subst (2) decode_loop.simps) simp
next
  case (Cons r rs)
  let ?p = "hex_encode (hbp_payload r)"
  let ?h = "row_content_hash sha (of_nat idx) prev CODE_TOPIC ?p CODE_PROVENANCE None"
  let ?b = "hbp_body (of_nat idx) ?p prev ?h"
  let ?out = "out @ nat_le 4 (length ?b) @ ?b"
  let ?t = "take k bs"
  from Cons.prems(1) have seq: "hbp_sequence r = of_nat idx"
    and m: "length ?p \<le> MAX_FIELD_BYTES" "length prev \<le> MAX_FIELD_BYTES" "length ?h \<le> MAX_FIELD_BYTES"
    and lb: "length ?b \<le> MAX_RECORD_BYTES" and lo: "length ?out \<le> MAX_LEDGER_BYTES"
    and e: "encode_loop sha (Suc idx) ?h ?out rs = Ok bs"
    by (auto simp: Let_def res_simps encode_body_Ok_iff split: if_splits)
  from encode_loop_extends [OF e] lo obtain rest where
    bs: "bs = ?out @ rest" and lbs: "length bs \<le> MAX_LEDGER_BYTES" by auto
  have lt: "length ?t = k" "length ?t < usize_lim" "length ?t \<le> MAX_LEDGER_BYTES" using Cons.prems(6) lbs MAX_lims(1) by auto
  have dt: "drop (length out) ?t = take (k - length out) (nat_le 4 (length ?b) @ ?b @ rest)"
    by (simp only: drop_take) (simp add: bs)
  consider (here) "k = length out" | (cut) "length out < k" "k < length ?out" | (whole) "length ?out \<le> k"
    using Cons.prems(5) by force
  then show ?case
  proof cases
    case here
    then show ?thesis
      by (subst decode_loop.simps) (auto simp: lt intro: exI [of _ "0::nat"])
  next
    case cut
    have "decode_row sha ?t (length out) prev idx = Err (HbpTruncated (of_nat idx))"
      using cut lb lt by (intro decode_row_cut [OF dt]) (auto simp: length_hbp_body)
    with cut Cons.prems(2,6) show ?thesis
      by (subst (2) decode_loop.simps) simp
  next
    case whole
    have "drop (length out) ?t = nat_le 4 (length ?b) @ ?b @ take (k - length ?out) rest"
      using whole by (simp add: dt add.assoc)
    then have row: "decode_row sha ?t (length out) prev idx =
        Ok (\<lparr>hbp_sequence = of_nat idx, hbp_payload = hbp_payload r\<rparr>, ?h, length out + 4 + length ?b)"
      using lt lb m Cons.prems(4,5)
      by (intro decode_row_layout [where rest = "take (k - length ?out) rest"]) auto
    have r: "\<lparr>hbp_sequence = of_nat idx, hbp_payload = hbp_payload r\<rparr> = r"
      using seq by (cases r) simp
    have uh: "utf8_valid ?h" by (simp add: row_content_hash_def)
    have step: "decode_loop sha ?t (length out) prev acc = decode_loop sha ?t (length ?out) ?h (acc @ [r])"
      using whole Cons.prems(2,6)
      by (subst decode_loop.simps) (simp add: row r add.assoc)
    have len: "length (acc @ [r]) = Suc idx" using Cons.prems(2) by simp
    from Cons.IH [OF e len lo uh whole Cons.prems(6)]
    show ?thesis unfolding step
    proof (elim disjE exE, goal_cases)
      case (1 n h)
      then show ?case by (intro disjI1 exI [of _ "Suc n"] exI [of _ h]) simp
    qed auto
  qed
qed

lemma encode_decode_cut:
  assumes "encode_hbp sha rs = Ok bs"
  shows "(\<exists>n. decode_hbp sha (take k bs) = Ok (take n rs))
       \<or> (\<exists>s. decode_hbp sha (take k bs) = Err (HbpTruncated s))"
proof -
  have h: "length hbp_header \<le> MAX_LEDGER_BYTES" by (simp add: MAX_LEDGER_BYTES_def)
  note e = assms [unfolded encode_hbp_def]
  from encode_loop_extends [OF e] h obtain rest where
    bs: "bs = hbp_header @ rest" "length bs \<le> MAX_LEDGER_BYTES" by auto
  have whole: "take k bs = take (min k (length bs)) bs" by (simp add: min_def)
  show ?thesis
  proof (cases "k < 8")
    case True
    with bs have "decode_header (take k bs) = Err (HbpTruncated 0)"
      by (simp add: decode_header_def HBP_HEADER_LEN_def)
    then show ?thesis by (simp add: decode_hbp_def decode_ledger_def)
  next
    case False
    let ?k = "min k (length bs)"
    have k: "length hbp_header \<le> ?k" using False bs by simp
    have "decode_header (take ?k bs) = Ok ()"
      using k bs by (intro decode_header_ok [where rest = "take (?k - 8) rest"]) auto
    moreover have "(\<exists>n h. decode_loop sha (take ?k bs) 8 HBP_GENESIS [] = Ok (take n rs, h))
       \<or> (\<exists>s. decode_loop sha (take ?k bs) 8 HBP_GENESIS [] = Err (HbpTruncated s))"
      using encode_decode_cut_loop [OF e, of "[]" ?k] h k by simp
    ultimately show ?thesis
      by (subst (1 2) whole) (auto simp: decode_hbp_def decode_ledger_def HBP_HEADER_LEN_def)
  qed
qed


section \<open>Properties\<close>

text \<open>
  C6: the ledger round trip. Whatever \<open>encode_hbp\<close> accepts, \<open>decode_hbp\<close> reads back as the
  same records, for every digest function in the place of SHA-256.
\<close>

theorem hbp_roundtrip:
  "encode_hbp sha records = Ok bytes \<Longrightarrow> decode_hbp sha bytes = Ok records"
  by (rule encode_decode_hbp)

text \<open>A digest that is easy to evaluate, for the witnesses: the length modulo 256, as one byte.\<close>

definition toy_sha :: "byte list \<Rightarrow> byte list" where
  "toy_sha bs = [of_nat (length bs)]"

definition toy_record :: HbpRecord where
  "toy_record = \<lparr>hbp_sequence = 0, hbp_payload = [1, 255]\<rparr>"

lemma toy_ledger: "\<exists>bytes. encode_hbp toy_sha [toy_record] = Ok bytes"
  by (auto simp: encode_hbp_def toy_record_def Let_def encode_body_Ok_iff res_simps length_hbp_body
      row_content_hash_def toy_sha_def MAX_FIELD_BYTES_def MAX_RECORD_BYTES_def MAX_LEDGER_BYTES_def)

theorem hbp_roundtrip_witness:
  "\<exists>bytes. encode_hbp toy_sha [toy_record] = Ok bytes \<and> decode_hbp toy_sha bytes = Ok [toy_record]"
  using toy_ledger hbp_roundtrip by blast

text \<open>
  The decoder is safe on hostile bytes. No input makes \<open>decode_hbp\<close> slice or index out of
  range: it always returns records or an \<open>HbpError\<close>.
\<close>

theorem hbp_decode_never_panics: "decode_hbp sha bytes \<noteq> Panic"
  by (rule decode_hbp_never_panics)

text \<open>
  The hash chain is tamper evident. If two byte strings are both accepted and their last row
  hashes agree, then they hold the same records, or two different row contents of the two
  ledgers are an explicit collision of the digest.
\<close>

theorem hbp_last_hash_binds_records:
  assumes "decode_ledger sha bytes = Ok (records, h)" and "decode_ledger sha bytes' = Ok (records', h)"
  shows "\<exists>ps qs. records = rows_of 0 ps \<and> records' = rows_of 0 qs \<and>
           (records = records' \<or>
            (\<exists>x \<in> set (row_inputs sha ps). \<exists>y \<in> set (row_inputs sha qs). x \<noteq> y \<and> sha x = sha y))"
proof -
  have lt: "n \<le> MAX_FIELD_BYTES \<Longrightarrow> n < usize_lim" "n \<le> MAX_LEDGER_BYTES \<Longrightarrow> n < usize_lim" for n
    by (simp_all add: MAX_FIELD_BYTES_def MAX_LEDGER_BYTES_def usize_lim_def)
  obtain ps where ps: "records = rows_of 0 ps" "h = chain_hash sha 0 HBP_GENESIS ps" "small_chain sha ps"
    using assms(1) by (rule decode_ledger_accepts) (auto simp: small_chain_def lt)
  obtain qs where qs: "records' = rows_of 0 qs" "h = chain_hash sha 0 HBP_GENESIS qs" "small_chain sha qs"
    using assms(2) by (rule decode_ledger_accepts) (auto simp: small_chain_def lt)
  from chain_hash_collision [of sha ps qs] ps qs show ?thesis by auto
qed

theorem hbp_last_hash_binds_records_witness:
  "\<exists>bytes h. decode_ledger toy_sha bytes = Ok ([toy_record], h) \<and>
     (\<exists>ps qs. [toy_record] = rows_of 0 ps \<and> [toy_record] = rows_of 0 qs \<and>
        ([toy_record] = [toy_record] \<or>
         (\<exists>x \<in> set (row_inputs toy_sha ps). \<exists>y \<in> set (row_inputs toy_sha qs). x \<noteq> y \<and> toy_sha x = toy_sha y)))"
proof -
  obtain bytes where "encode_hbp toy_sha [toy_record] = Ok bytes" using toy_ledger by blast
  then have "decode_hbp toy_sha bytes = Ok [toy_record]" by (rule encode_decode_hbp)
  then obtain h where h: "decode_ledger toy_sha bytes = Ok ([toy_record], h)"
    by (auto simp: decode_hbp_def res_simps)
  from hbp_last_hash_binds_records [OF h h] h show ?thesis by blast
qed

text \<open>
  An accepted ledger is numbered without gaps: record \<open>i\<close> carries sequence \<open>i\<close>, so no record
  was dropped, repeated or reordered.
\<close>

theorem hbp_accepted_is_contiguous:
  assumes "decode_hbp sha bytes = Ok records" and "i < length records"
  shows "hbp_sequence (records ! i) = of_nat i"
proof -
  from assms(1) obtain h where "decode_ledger sha bytes = Ok (records, h)"
    by (auto simp: decode_hbp_def res_simps)
  then obtain ps where "records = rows_of 0 ps" by (rule decode_ledger_accepts)
  with assms(2) show ?thesis by (simp add: rows_of_nth)
qed

theorem hbp_accepted_is_contiguous_witness:
  "\<exists>bytes. decode_hbp toy_sha bytes = Ok [toy_record] \<and> 0 < length [toy_record]
     \<and> hbp_sequence ([toy_record] ! 0) = of_nat 0"
proof -
  obtain bytes where "encode_hbp toy_sha [toy_record] = Ok bytes" using toy_ledger by blast
  then have d: "decode_hbp toy_sha bytes = Ok [toy_record]" by (rule encode_decode_hbp)
  from hbp_accepted_is_contiguous [OF d, of 0] d show ?thesis by auto
qed

text \<open>
  A ledger cut at any byte (a crash while appending) never decodes to wrong data: the decoder
  returns the records that were complete, in order, or reports the ledger as truncated.
\<close>

theorem hbp_truncation_detected:
  assumes "encode_hbp sha records = Ok bytes"
  shows "(\<exists>n. decode_hbp sha (take k bytes) = Ok (take n records))
       \<or> (\<exists>s. decode_hbp sha (take k bytes) = Err (HbpTruncated s))"
  using assms by (rule encode_decode_cut)

theorem hbp_truncation_detected_witness:
  "\<exists>bytes. encode_hbp toy_sha [toy_record] = Ok bytes \<and>
     ((\<exists>n. decode_hbp toy_sha (take 20 bytes) = Ok (take n [toy_record]))
      \<or> (\<exists>s. decode_hbp toy_sha (take 20 bytes) = Err (HbpTruncated s)))"
  using toy_ledger hbp_truncation_detected [of toy_sha "[toy_record]" _ 20] by blast

end
