(* ===== verification/Hbi.thy ===== *)
theory Hbi
  imports Rust_Std "HOL-Library.Multiset"
begin

text \<open>
  The sectioned container of \<open>simplicio-code-formats/src/hbi.rs\<close>: \<open>encode_hbi\<close>,
  \<open>encode_hbi_with_identity\<close> and \<open>HbiReader::open\<close> with its accessors. SHA-256 is the
  parameter \<open>sha\<close>; an incremental hasher is the digest of the concatenated updates. The encoder
  writes into one zeroed buffer, as the code does; every write and read that could leave the
  buffer is modelled with its panic.
\<close>

section \<open>Constants, records and errors\<close>

definition HBI_MAGIC :: "byte list" where
  "HBI_MAGIC = [0x48, 0x42, 0x49, 0, 0x76, 0x31, 0, 0]"

definition HBI_VERSION :: u16 where "HBI_VERSION = 1"
definition HBI_ENDIAN_LITTLE :: byte where "HBI_ENDIAN_LITTLE = 1"
definition HBI_ALIGNMENT :: nat where "HBI_ALIGNMENT = 8"
definition HBI_FIXED_HEADER_LEN :: nat where "HBI_FIXED_HEADER_LEN = 112"
definition HBI_SECTION_ENTRY_LEN :: nat where "HBI_SECTION_ENTRY_LEN = 56"
definition HBI_MAX_SECTIONS :: u32 where "HBI_MAX_SECTIONS = 4096"

definition OFF_VERSION :: nat where "OFF_VERSION = 8"
definition OFF_HEADER_LEN :: nat where "OFF_HEADER_LEN = 10"
definition OFF_ENDIANNESS :: nat where "OFF_ENDIANNESS = 12"
definition OFF_ALIGNMENT :: nat where "OFF_ALIGNMENT = 13"
definition OFF_FLAGS :: nat where "OFF_FLAGS = 16"
definition OFF_SECTION_COUNT :: nat where "OFF_SECTION_COUNT = 20"
definition OFF_TOTAL_LEN :: nat where "OFF_TOTAL_LEN = 24"
definition OFF_SCHEMA_ID :: nat where "OFF_SCHEMA_ID = 32"
definition OFF_SCHEMA_FINGERPRINT :: nat where "OFF_SCHEMA_FINGERPRINT = 48"
definition OFF_CONTENT_CHECKSUM :: nat where "OFF_CONTENT_CHECKSUM = 80"

lemmas hbi_consts =
  HBI_VERSION_def HBI_ENDIAN_LITTLE_def HBI_ALIGNMENT_def HBI_FIXED_HEADER_LEN_def
  HBI_SECTION_ENTRY_LEN_def OFF_VERSION_def OFF_HEADER_LEN_def OFF_ENDIANNESS_def
  OFF_ALIGNMENT_def OFF_FLAGS_def OFF_SECTION_COUNT_def OFF_TOTAL_LEN_def OFF_SCHEMA_ID_def
  OFF_SCHEMA_FINGERPRINT_def OFF_CONTENT_CHECKSUM_def

datatype HbiError =
    HbiTruncated string
  | HbiInvalidMagic
  | HbiUnsupportedVersion u16
  | HbiUnsupportedEndianness byte
  | HbiInvalidAlignment byte
  | HbiNonZeroReserved
  | HbiInvalidHeaderLength u16
  | HbiTooManySections u32
  | HbiLengthMismatch u64 nat
  | HbiArithmeticOverflow
  | HbiMisalignedOffset u64
  | HbiOutOfBounds u64 u64
  | HbiOverlappingSections
  | HbiNonZeroPadding
  | HbiDuplicateSectionKind u32
  | HbiChecksumMismatch string
  | HbiSchemaFingerprintMismatch

record HbiSection =
  sec_kind :: u32
  sec_bytes :: "byte list"

record HbiSectionWithFlags =
  wf_kind :: u32
  wf_flags :: u32
  wf_bytes :: "byte list"

record HbiSectionInfo =
  si_kind :: u32
  si_flags :: u32
  si_offset :: u64
  si_length :: u64

record HbiMetadata =
  md_flags :: u32
  md_schema_id :: "byte list"
  md_schema_fingerprint :: "byte list"
  md_total_len :: u64

record HbiReader =
  rd_bytes :: "byte list"
  rd_metadata :: HbiMetadata
  rd_sections :: "HbiSectionInfo list"

section \<open>Encoding\<close>

definition align_up :: "nat \<Rightarrow> (HbiError, nat) res" where
  "align_up value =
     (let remainder = value mod HBI_ALIGNMENT in
      if remainder = 0 then Ok value
      else ok_or HbiArithmeticOverflow (checked_add value (HBI_ALIGNMENT - remainder)))"

definition u64_try_from :: "nat \<Rightarrow> (HbiError, u64) res" where
  "u64_try_from n = (if n < 2 ^ 64 then Ok (of_nat n) else Err HbiArithmeticOverflow)"

definition put_u16 :: "byte list \<Rightarrow> nat \<Rightarrow> u16 \<Rightarrow> (HbiError, byte list) res" where
  "put_u16 bytes offset value = put_at bytes offset (le16 value)"

definition put_u32 :: "byte list \<Rightarrow> nat \<Rightarrow> u32 \<Rightarrow> (HbiError, byte list) res" where
  "put_u32 bytes offset value = put_at bytes offset (le32 value)"

definition put_u64 :: "byte list \<Rightarrow> nat \<Rightarrow> u64 \<Rightarrow> (HbiError, byte list) res" where
  "put_u64 bytes offset value = put_at bytes offset (le64 value)"

text \<open>\<open>vec![0u8; n]\<close> panics when the capacity exceeds \<open>isize::MAX\<close>.\<close>

definition zeroed_vec :: "nat \<Rightarrow> (HbiError, byte list) res" where
  "zeroed_vec n = (if n < 2 ^ 63 then Ok (replicate n 0) else Panic)"

text \<open>The first pair of neighbours of equal kind (\<open>windows(2)\<close>).\<close>

fun duplicate_kind :: "HbiSectionWithFlags list \<Rightarrow> u32 option" where
  "duplicate_kind (a # b # rest) =
     (if wf_kind a = wf_kind b then Some (wf_kind a) else duplicate_kind (b # rest))"
| "duplicate_kind _ = None"

fun total_len_loop :: "nat \<Rightarrow> HbiSectionWithFlags list \<Rightarrow> (HbiError, nat) res" where
  "total_len_loop total_len [] = Ok total_len"
| "total_len_loop total_len (section # sections) =
     try_res (align_up total_len) (\<lambda>total_len.
     try_res (ok_or HbiArithmeticOverflow (checked_add total_len (length (wf_bytes section)))) (\<lambda>total_len.
     total_len_loop total_len sections))"

definition encode_header ::
  "byte list \<Rightarrow> byte list \<Rightarrow> u32 \<Rightarrow> nat \<Rightarrow> u64 \<Rightarrow> byte list \<Rightarrow> (HbiError, byte list) res" where
  "encode_header schema_id schema_fingerprint flags n total_len_u64 bytes =
     try_res (put_at bytes 0 HBI_MAGIC) (\<lambda>bytes.
     try_res (put_u16 bytes OFF_VERSION HBI_VERSION) (\<lambda>bytes.
     try_res (put_u16 bytes OFF_HEADER_LEN (of_nat HBI_FIXED_HEADER_LEN)) (\<lambda>bytes.
     try_res (put_at bytes OFF_ENDIANNESS [HBI_ENDIAN_LITTLE]) (\<lambda>bytes.
     try_res (put_at bytes OFF_ALIGNMENT [of_nat HBI_ALIGNMENT]) (\<lambda>bytes.
     try_res (put_u32 bytes OFF_FLAGS flags) (\<lambda>bytes.
     try_res (put_u32 bytes OFF_SECTION_COUNT (of_nat n)) (\<lambda>bytes.
     try_res (put_u64 bytes OFF_TOTAL_LEN total_len_u64) (\<lambda>bytes.
     try_res (put_at bytes OFF_SCHEMA_ID schema_id) (\<lambda>bytes.
     put_at bytes OFF_SCHEMA_FINGERPRINT schema_fingerprint)))))))))"

definition aggregate_header ::
  "u16 \<Rightarrow> u16 \<Rightarrow> u32 \<Rightarrow> u32 \<Rightarrow> u64 \<Rightarrow> byte list \<Rightarrow> byte list \<Rightarrow> byte list" where
  "aggregate_header version header_len flags n total_len schema_id schema_fingerprint =
     le16 version @ le16 header_len @ [HBI_ENDIAN_LITTLE, of_nat HBI_ALIGNMENT]
       @ le32 flags @ le32 n @ le64 total_len @ schema_id @ schema_fingerprint"

definition aggregate_section :: "u32 \<Rightarrow> u32 \<Rightarrow> u64 \<Rightarrow> u64 \<Rightarrow> byte list \<Rightarrow> byte list" where
  "aggregate_section kind flags offset len data =
     le32 kind @ le32 flags @ le64 offset @ le64 len @ data"

text \<open>One turn of the section loop: the buffer, the stream of the aggregate hash and the cursor.\<close>

definition encode_section ::
  "(byte list \<Rightarrow> byte list) \<Rightarrow> nat \<Rightarrow> HbiSectionWithFlags \<Rightarrow> byte list \<times> byte list \<times> nat \<Rightarrow>
   (HbiError, byte list \<times> byte list \<times> nat) res" where
  "encode_section sha idx section = (\<lambda>(bytes, aggregate, cursor).
     try_res (align_up cursor) (\<lambda>cursor.
     try_res (u64_try_from cursor) (\<lambda>offset.
     try_res (u64_try_from (length (wf_bytes section))) (\<lambda>len.
     let entry = HBI_FIXED_HEADER_LEN + idx * HBI_SECTION_ENTRY_LEN in
     try_res (put_u32 bytes entry (wf_kind section)) (\<lambda>bytes.
     try_res (put_u32 bytes (entry + 4) (wf_flags section)) (\<lambda>bytes.
     try_res (put_u64 bytes (entry + 8) offset) (\<lambda>bytes.
     try_res (put_u64 bytes (entry + 16) len) (\<lambda>bytes.
     try_res (put_at bytes (entry + 24) (sha (wf_bytes section))) (\<lambda>bytes.
     try_res (put_at bytes cursor (wf_bytes section)) (\<lambda>bytes.
     let aggregate = aggregate @
       aggregate_section (wf_kind section) (wf_flags section) offset len (wf_bytes section) in
     try_res (ok_or HbiArithmeticOverflow (checked_add cursor (length (wf_bytes section)))) (\<lambda>cursor.
     Ok (bytes, aggregate, cursor))))))))))))"

fun encode_sections ::
  "(byte list \<Rightarrow> byte list) \<Rightarrow> nat \<Rightarrow> HbiSectionWithFlags list \<Rightarrow> byte list \<times> byte list \<times> nat \<Rightarrow>
   (HbiError, byte list \<times> byte list \<times> nat) res" where
  "encode_sections sha idx [] st = Ok st"
| "encode_sections sha idx (section # sections) st =
     try_res (encode_section sha idx section st) (encode_sections sha (Suc idx) sections)"

definition encode_hbi_with_identity ::
  "(byte list \<Rightarrow> byte list) \<Rightarrow> byte list \<Rightarrow> byte list \<Rightarrow> u32 \<Rightarrow> HbiSectionWithFlags list \<Rightarrow>
   (HbiError, byte list) res" where
  "encode_hbi_with_identity sha schema_id schema_fingerprint flags sections0 =
     (if length sections0 > unat HBI_MAX_SECTIONS then Err (HbiTooManySections (of_nat (length sections0)))
      else
        let sections = sort_key wf_kind sections0 in
        case duplicate_kind sections of
          Some k \<Rightarrow> Err (HbiDuplicateSectionKind k)
        | None \<Rightarrow>
            try_res (ok_or HbiArithmeticOverflow (checked_mul (length sections) HBI_SECTION_ENTRY_LEN)) (\<lambda>directory_len.
            try_res (ok_or HbiArithmeticOverflow (checked_add HBI_FIXED_HEADER_LEN directory_len)) (\<lambda>body_start.
            try_res (total_len_loop body_start sections) (\<lambda>total_len.
            try_res (align_up total_len) (\<lambda>total_len.
            try_res (u64_try_from total_len) (\<lambda>total_len_u64.
            try_res (zeroed_vec total_len) (\<lambda>bytes.
            try_res (encode_header schema_id schema_fingerprint flags (length sections) total_len_u64 bytes) (\<lambda>bytes.
            let aggregate = aggregate_header HBI_VERSION (of_nat HBI_FIXED_HEADER_LEN) flags
                  (of_nat (length sections)) total_len_u64 schema_id schema_fingerprint in
            try_res (encode_sections sha 0 sections (bytes, aggregate, body_start)) (\<lambda>(bytes, aggregate, cursor).
            put_at bytes OFF_CONTENT_CHECKSUM (sha aggregate))))))))))"

definition schema_identity :: "(byte list \<Rightarrow> byte list) \<Rightarrow> string \<Rightarrow> byte list \<times> byte list" where
  "schema_identity sha schema = (let digest = sha (as_bytes schema) in (take 16 digest, digest))"

definition encode_hbi ::
  "(byte list \<Rightarrow> byte list) \<Rightarrow> string \<Rightarrow> HbiSection list \<Rightarrow> (HbiError, byte list) res" where
  "encode_hbi sha schema sections =
     (let (schema_id, schema_fingerprint) = schema_identity sha schema;
          sections = map (\<lambda>s. \<lparr>wf_kind = sec_kind s, wf_flags = 0, wf_bytes = sec_bytes s\<rparr>) sections
      in encode_hbi_with_identity sha schema_id schema_fingerprint 0 sections)"

section \<open>Reading\<close>

definition get_u16 :: "byte list \<Rightarrow> nat \<Rightarrow> (HbiError, u16) res" where
  "get_u16 bytes offset =
     try_res (ok_or (HbiTruncated ''header field'') (get_slice bytes offset (offset + 2))) (\<lambda>v. Ok (from_le v))"

definition get_u32 :: "byte list \<Rightarrow> nat \<Rightarrow> (HbiError, u32) res" where
  "get_u32 bytes offset =
     try_res (ok_or (HbiTruncated ''header field'') (get_slice bytes offset (offset + 4))) (\<lambda>v. Ok (from_le v))"

definition get_u64 :: "byte list \<Rightarrow> nat \<Rightarrow> (HbiError, u64) res" where
  "get_u64 bytes offset =
     try_res (ok_or (HbiTruncated ''header field'') (get_slice bytes offset (offset + 8))) (\<lambda>v. Ok (from_le v))"

text \<open>The fixed header: section count, declared length, header length and end of the directory.\<close>

definition open_header :: "byte list \<Rightarrow> (HbiError, u16 \<times> u32 \<times> u64 \<times> nat \<times> nat) res" where
  "open_header bytes =
     (if length bytes < HBI_FIXED_HEADER_LEN then Err (HbiTruncated ''header'')
      else
        try_res (slice bytes 0 8) (\<lambda>magic.
        if magic \<noteq> HBI_MAGIC then Err HbiInvalidMagic
        else
        try_res (get_u16 bytes OFF_VERSION) (\<lambda>version.
        if version \<noteq> HBI_VERSION then Err (HbiUnsupportedVersion version)
        else
        try_res (get_u16 bytes OFF_HEADER_LEN) (\<lambda>header_len16.
        let header_len = unat header_len16 in
        if header_len \<noteq> HBI_FIXED_HEADER_LEN \<or> header_len mod HBI_ALIGNMENT \<noteq> 0
        then Err (HbiInvalidHeaderLength (of_nat header_len))
        else
        try_res (index bytes OFF_ENDIANNESS) (\<lambda>endianness.
        if endianness \<noteq> HBI_ENDIAN_LITTLE then Err (HbiUnsupportedEndianness endianness)
        else
        try_res (index bytes OFF_ALIGNMENT) (\<lambda>alignment.
        if unat alignment \<noteq> HBI_ALIGNMENT then Err (HbiInvalidAlignment alignment)
        else
        try_res (index bytes 14) (\<lambda>r0. try_res (index bytes 15) (\<lambda>r1.
        if r0 \<noteq> 0 \<or> r1 \<noteq> 0 then Err HbiNonZeroReserved
        else
        try_res (get_u32 bytes OFF_SECTION_COUNT) (\<lambda>section_count.
        if section_count > HBI_MAX_SECTIONS then Err (HbiTooManySections section_count)
        else
        try_res (get_u64 bytes OFF_TOTAL_LEN) (\<lambda>declared_len.
        if unat declared_len \<ge> usize_lim \<or> unat declared_len \<noteq> length bytes
        then Err (HbiLengthMismatch declared_len (length bytes))
        else
        try_res (ok_or HbiArithmeticOverflow (checked_mul (unat section_count) HBI_SECTION_ENTRY_LEN)) (\<lambda>directory_len.
        try_res (ok_or HbiArithmeticOverflow (checked_add header_len directory_len)) (\<lambda>directory_end.
        if directory_end > length bytes then Err (HbiTruncated ''section directory'')
        else Ok (version, section_count, declared_len, header_len, directory_end)))))))))))))"

text \<open>One entry of the directory.\<close>

definition open_entry ::
  "(byte list \<Rightarrow> byte list) \<Rightarrow> byte list \<Rightarrow> u64 \<Rightarrow> nat \<Rightarrow> nat \<Rightarrow> nat \<Rightarrow> (HbiError, HbiSectionInfo) res" where
  "open_entry sha bytes declared_len header_len directory_end idx =
     (let entry = header_len + idx * HBI_SECTION_ENTRY_LEN in
      try_res (get_u32 bytes entry) (\<lambda>kind.
      try_res (get_u32 bytes (entry + 4)) (\<lambda>flags.
      try_res (get_u64 bytes (entry + 8)) (\<lambda>offset.
      try_res (get_u64 bytes (entry + 16)) (\<lambda>len.
      if offset mod of_nat HBI_ALIGNMENT \<noteq> 0 then Err (HbiMisalignedOffset offset)
      else if unat offset + unat len \<ge> 2 ^ 64 then Err HbiArithmeticOverflow
      else
        let end' = offset + len in
        if offset < of_nat directory_end \<or> end' > declared_len then Err (HbiOutOfBounds offset len)
        else
          try_res (slice bytes (entry + 24) (entry + 56)) (\<lambda>checksum.
          try_res (slice bytes (unat offset) (unat end')) (\<lambda>data.
          if sha data \<noteq> checksum then Err (HbiChecksumMismatch ''section'')
          else Ok \<lparr>si_kind = kind, si_flags = flags, si_offset = offset, si_length = len\<rparr>)))))))"

fun open_entries ::
  "(byte list \<Rightarrow> byte list) \<Rightarrow> byte list \<Rightarrow> u64 \<Rightarrow> nat \<Rightarrow> nat \<Rightarrow> nat list \<Rightarrow> (HbiError, HbiSectionInfo list) res" where
  "open_entries sha bytes declared_len header_len directory_end [] = Ok []"
| "open_entries sha bytes declared_len header_len directory_end (i # is) =
     try_res (open_entry sha bytes declared_len header_len directory_end i) (\<lambda>section.
     try_res (open_entries sha bytes declared_len header_len directory_end is) (\<lambda>sections.
     Ok (section # sections)))"

text \<open>The sections by offset: no overlap, and only zeros between them and after the last.\<close>

fun check_padding :: "byte list \<Rightarrow> u64 \<Rightarrow> HbiSectionInfo list \<Rightarrow> (HbiError, u64) res" where
  "check_padding bytes previous_end [] = Ok previous_end"
| "check_padding bytes previous_end (section # sections) =
     (if si_offset section < previous_end then Err HbiOverlappingSections
      else
        try_res (slice bytes (unat previous_end) (unat (si_offset section))) (\<lambda>gap.
        if list_ex (\<lambda>byte. byte \<noteq> 0) gap then Err HbiNonZeroPadding
        else if unat (si_offset section) + unat (si_length section) \<ge> 2 ^ 64 then Err HbiArithmeticOverflow
        else check_padding bytes (si_offset section + si_length section) sections))"

definition section_data :: "byte list \<Rightarrow> HbiSectionInfo \<Rightarrow> (HbiError, byte list) res" where
  "section_data bytes section =
     slice bytes (unat (si_offset section)) (unat (si_offset section + si_length section))"

fun aggregate_sections :: "byte list \<Rightarrow> HbiSectionInfo list \<Rightarrow> (HbiError, byte list) res" where
  "aggregate_sections bytes [] = Ok []"
| "aggregate_sections bytes (section # sections) =
     try_res (section_data bytes section) (\<lambda>data.
     try_res (aggregate_sections bytes sections) (\<lambda>rest.
     Ok (aggregate_section (si_kind section) (si_flags section) (si_offset section)
           (si_length section) data @ rest)))"

definition hbi_open :: "(byte list \<Rightarrow> byte list) \<Rightarrow> byte list \<Rightarrow> (HbiError, HbiReader) res" where
  "hbi_open sha bytes =
     try_res (open_header bytes) (\<lambda>(version, section_count, declared_len, header_len, directory_end).
     try_res (open_entries sha bytes declared_len header_len directory_end [0..<unat section_count]) (\<lambda>sections.
     try_res (check_padding bytes (of_nat directory_end) (sort_key si_offset sections)) (\<lambda>previous_end.
     try_res (slice bytes (unat previous_end) (length bytes)) (\<lambda>rest.
     if list_ex (\<lambda>byte. byte \<noteq> 0) rest then Err HbiNonZeroPadding
     else
       try_res (get_u32 bytes OFF_FLAGS) (\<lambda>flags.
       try_res (slice bytes OFF_SCHEMA_ID (OFF_SCHEMA_ID + 16)) (\<lambda>schema_id.
       try_res (slice bytes OFF_SCHEMA_FINGERPRINT (OFF_SCHEMA_FINGERPRINT + 32)) (\<lambda>schema_fingerprint.
       try_res (aggregate_sections bytes sections) (\<lambda>stream.
       try_res (slice bytes OFF_CONTENT_CHECKSUM (OFF_CONTENT_CHECKSUM + 32)) (\<lambda>checksum.
       if sha (aggregate_header version (of_nat header_len) flags section_count declared_len
                 schema_id schema_fingerprint @ stream) \<noteq> checksum
       then Err (HbiChecksumMismatch ''content'')
       else Ok \<lparr>rd_bytes = bytes,
                rd_metadata = \<lparr>md_flags = flags, md_schema_id = schema_id,
                  md_schema_fingerprint = schema_fingerprint, md_total_len = declared_len\<rparr>,
                rd_sections = sections\<rparr>)))))))))"

definition section_count :: "HbiReader \<Rightarrow> nat" where
  "section_count reader = length (rd_sections reader)"

definition hbi_section :: "HbiReader \<Rightarrow> nat \<Rightarrow> (HbiError, (u32 \<times> byte list) option) res" where
  "hbi_section reader i =
     (if i < length (rd_sections reader) then
        let section = rd_sections reader ! i in
        try_res (section_data (rd_bytes reader) section) (\<lambda>data. Ok (Some (si_kind section, data)))
      else Ok None)"

definition schema_matches :: "(byte list \<Rightarrow> byte list) \<Rightarrow> HbiReader \<Rightarrow> string \<Rightarrow> bool" where
  "schema_matches sha reader schema \<longleftrightarrow>
     md_schema_fingerprint (rd_metadata reader) = snd (schema_identity sha schema)"

definition verify_schema_fingerprint :: "HbiReader \<Rightarrow> byte list \<Rightarrow> (HbiError, unit) res" where
  "verify_schema_fingerprint reader expected =
     (if md_schema_fingerprint (rd_metadata reader) = expected then Ok ()
      else Err HbiSchemaFingerprintMismatch)"


section \<open>Hostile input\<close>

lemma get_no_panic [simp]:
  "get_u16 bytes i \<noteq> Panic" "get_u32 bytes i \<noteq> Panic" "get_u64 bytes i \<noteq> Panic"
  by (simp_all add: get_u16_def get_u32_def get_u64_def res_simps)

lemma get_Ok_iffs [res_simps]:
  "get_u16 bytes i = Ok a \<longleftrightarrow> i + 2 \<le> length bytes \<and> a = from_le (take 2 (drop i bytes))"
  "get_u32 bytes i = Ok b \<longleftrightarrow> i + 4 \<le> length bytes \<and> b = from_le (take 4 (drop i bytes))"
  "get_u64 bytes i = Ok c \<longleftrightarrow> i + 8 \<le> length bytes \<and> c = from_le (take 8 (drop i bytes))"
  by (auto simp: get_u16_def get_u32_def get_u64_def res_simps)

lemma open_header_no_panic [simp]: "open_header bytes \<noteq> Panic"
  by (auto simp: open_header_def Let_def hbi_consts res_simps)

lemma open_header_Ok:
  assumes "open_header bytes = Ok (version, n, declared_len, header_len, directory_end)"
  shows "version = 1" and "header_len = 112" and "directory_end = 112 + 56 * unat n"
    and "directory_end \<le> length bytes" and "unat declared_len = length bytes" and "unat n \<le> 4096"
    and "112 \<le> length bytes" and "n = from_le (take 4 (drop 20 bytes))"
    and "declared_len = from_le (take 8 (drop 24 bytes))"
  using assms
  by (auto simp: open_header_def Let_def hbi_consts HBI_MAX_SECTIONS_def res_simps
      word_less_nat_alt split: if_splits)

definition in_bounds :: "byte list \<Rightarrow> nat \<Rightarrow> HbiSectionInfo \<Rightarrow> bool" where
  "in_bounds bytes directory_end s \<longleftrightarrow>
     unat (si_offset s) mod 8 = 0 \<and> directory_end \<le> unat (si_offset s)
     \<and> unat (si_offset s) + unat (si_length s) \<le> length bytes"

lemma u64_of_nat: "n < usize_lim \<Longrightarrow> unat (of_nat n :: u64) = n"
  by (simp add: unat_of_nat usize_lim_def)

lemma length_lt_usize: "unat (d :: u64) = length bytes \<Longrightarrow> length bytes < usize_lim"
  using unat_lt [of d] by (simp add: usize_lim_def)

lemma open_entry_Ok:
  assumes "open_entry sha bytes declared_len 112 directory_end i = Ok s"
    and "unat declared_len = length bytes" and "directory_end \<le> length bytes"
  shows "in_bounds bytes directory_end s"
    and "si_kind s = from_le (take 4 (drop (112 + i * 56) bytes))"
    and "si_flags s = from_le (take 4 (drop (112 + i * 56 + 4) bytes))"
    and "si_offset s = from_le (take 8 (drop (112 + i * 56 + 8) bytes))"
    and "si_length s = from_le (take 8 (drop (112 + i * 56 + 16) bytes))"
    and "sha (take (unat (si_length s)) (drop (unat (si_offset s)) bytes)) = take 32 (drop (112 + i * 56 + 24) bytes)"
    and "112 + i * 56 + 56 \<le> length bytes"
proof -
  note lt = length_lt_usize [OF assms(2)]
  have de: "unat (of_nat directory_end :: u64) = directory_end"
    using lt assms(3) by (intro u64_of_nat) simp
  have m8: "(w :: u64) mod 8 = 0 \<longleftrightarrow> unat w mod 8 = 0" for w
  proof -
    have "unat (w mod 8) = unat w mod 8" by (simp add: unat_mod_distrib)
    then show ?thesis by (metis unat_0 unat_eq_zero)
  qed
  let ?e = "112 + i * 56"
  obtain ov: "unat (si_offset s) + unat (si_length s) < 2 ^ 64"
    and al: "si_offset s mod 8 = 0"
    and ob: "\<not> si_offset s < of_nat directory_end" "\<not> si_offset s + si_length s > declared_len"
    and f: "si_kind s = from_le (take 4 (drop ?e bytes))"
      "si_flags s = from_le (take 4 (drop (?e + 4) bytes))"
      "si_offset s = from_le (take 8 (drop (?e + 8) bytes))"
      "si_length s = from_le (take 8 (drop (?e + 16) bytes))"
      "?e + 56 \<le> length bytes"
    and h: "sha (take (unat (si_offset s + si_length s) - unat (si_offset s)) (drop (unat (si_offset s)) bytes))
        = take 32 (drop (?e + 24) bytes)"
    using assms(1)
    by (auto simp: open_entry_def Let_def hbi_consts res_simps split: if_splits)
  have sum: "unat (si_offset s + si_length s) = unat (si_offset s) + unat (si_length s)"
    using ov by (simp add: unat_word_ariths)
  show "in_bounds bytes directory_end s"
    using al ob assms(2) de sum by (simp add: in_bounds_def m8 word_less_nat_alt)
  show "sha (take (unat (si_length s)) (drop (unat (si_offset s)) bytes)) = take 32 (drop (?e + 24) bytes)"
    using h by (simp add: sum)
qed (use assms(1) in \<open>auto simp: open_entry_def Let_def hbi_consts res_simps split: if_splits\<close>)

lemma open_entry_no_panic:
  assumes "unat declared_len = length bytes" and "112 + i * 56 + 56 \<le> length bytes"
  shows "open_entry sha bytes declared_len 112 directory_end i \<noteq> Panic"
proof -
  have "unat (o' + l) \<le> length bytes" if "\<not> declared_len < o' + l" for o' l :: u64
    using that assms(1) by (simp add: word_less_nat_alt)
  moreover have "unat o' \<le> unat (o' + l)" if "unat o' + unat l < 2 ^ 64" for o' l :: u64
    using that by (simp add: unat_word_ariths)
  ultimately show ?thesis
    using assms(2) by (auto simp: open_entry_def Let_def hbi_consts res_simps)
qed

lemma open_entries_no_panic:
  assumes "unat declared_len = length bytes" and "\<forall>i \<in> set is. 112 + i * 56 + 56 \<le> length bytes"
  shows "open_entries sha bytes declared_len 112 directory_end is \<noteq> Panic"
  using assms(2) by (induction "is") (auto simp: res_simps open_entry_no_panic [OF assms(1)])

lemma open_entries_Ok:
  "open_entries sha bytes declared_len header_len directory_end is = Ok ss \<longleftrightarrow>
     list_all2 (\<lambda>i s. open_entry sha bytes declared_len header_len directory_end i = Ok s) is ss"
  by (induction "is" arbitrary: ss) (auto simp: res_simps list_all2_Cons1)

lemma open_entries_in_bounds:
  assumes "open_entries sha bytes declared_len 112 directory_end is = Ok ss"
    and "unat declared_len = length bytes" and "directory_end \<le> length bytes"
  shows "\<forall>s \<in> set ss. in_bounds bytes directory_end s"
proof
  fix s assume "s \<in> set ss"
  then obtain i where "open_entry sha bytes declared_len 112 directory_end i = Ok s"
    using assms(1) by (auto simp: open_entries_Ok in_set_conv_nth list_all2_conv_all_nth)
  then show "in_bounds bytes directory_end s" using assms(2,3) by (rule open_entry_Ok)
qed

lemma section_end:
  assumes "in_bounds bytes directory_end s" and "length bytes < usize_lim"
  shows "unat (si_offset s + si_length s) = unat (si_offset s) + unat (si_length s)"
  using assms by (simp add: in_bounds_def usize_lim_def unat_word_ariths)

lemma section_data_Ok:
  assumes "in_bounds bytes directory_end s" and "length bytes < usize_lim"
  shows "section_data bytes s = Ok (take (unat (si_length s)) (drop (unat (si_offset s)) bytes))"
  using assms section_end [OF assms] by (simp add: section_data_def slice_iffs in_bounds_def)

lemma check_padding_no_panic:
  assumes "\<forall>s \<in> set ss. in_bounds bytes directory_end s"
  shows "check_padding bytes p ss \<noteq> Panic"
  using assms
  by (induction ss arbitrary: p) (auto simp: res_simps in_bounds_def word_less_nat_alt)

text \<open>
  Sections that tile a stretch of the buffer: in order, without overlap, and every byte between
  and after them is zero.
\<close>

definition tiled :: "byte list \<Rightarrow> nat \<Rightarrow> nat \<Rightarrow> HbiSectionInfo list \<Rightarrow> bool" where
  "tiled bytes p q ss \<longleftrightarrow> p \<le> q \<and> q \<le> length bytes
     \<and> (\<forall>s \<in> set ss. p \<le> unat (si_offset s) \<and> unat (si_offset s) + unat (si_length s) \<le> q)
     \<and> sorted_wrt (\<lambda>s t. unat (si_offset s) + unat (si_length s) \<le> unat (si_offset t)) ss
     \<and> (\<forall>k. p \<le> k \<and> k < q \<and> bytes ! k \<noteq> 0 \<longrightarrow>
           (\<exists>s \<in> set ss. unat (si_offset s) \<le> k \<and> k < unat (si_offset s) + unat (si_length s)))"

lemma tiled_Cons:
  assumes "tiled bytes (unat (si_offset s) + unat (si_length s)) q ss" and "p \<le> unat (si_offset s)"
    and "\<forall>k. p \<le> k \<and> k < unat (si_offset s) \<longrightarrow> bytes ! k = 0"
  shows "tiled bytes p q (s # ss)"
proof -
  have "\<exists>t \<in> set (s # ss). unat (si_offset t) \<le> k \<and> k < unat (si_offset t) + unat (si_length t)"
    if "p \<le> k" "k < q" "bytes ! k \<noteq> 0" for k
  proof (cases "k < unat (si_offset s) + unat (si_length s)")
    case True
    with that assms(3) have "unat (si_offset s) \<le> k" by (meson not_le)
    with True show ?thesis by auto
  next
    case False
    with that assms(1) show ?thesis by (auto simp: tiled_def)
  qed
  with assms(1,2) show ?thesis by (fastforce simp: tiled_def)
qed

lemma check_padding_Ok:
  assumes "check_padding bytes p ss = Ok q" and "\<forall>s \<in> set ss. in_bounds bytes directory_end s"
    and "length bytes < usize_lim" and "unat p \<le> length bytes"
  shows "tiled bytes (unat p) (unat q) ss"
  using assms
proof (induction ss arbitrary: p)
  case Nil
  then show ?case by (simp add: tiled_def)
next
  case (Cons s ss)
  let ?e = "si_offset s + si_length s"
  have b: "in_bounds bytes directory_end s" using Cons.prems(2) by simp
  note e = section_end [OF b Cons.prems(3)]
  from Cons.prems(1) have step: "check_padding bytes ?e ss = Ok q" "unat p \<le> unat (si_offset s)"
      and z: "\<forall>x \<in> set (take (unat (si_offset s) - unat p) (drop (unat p) bytes)). x = 0"
    by (auto simp: res_simps word_less_nat_alt list_ex_iff split: if_splits)
  have "tiled bytes (unat ?e) (unat q) ss"
    using Cons.IH [OF step(1)] Cons.prems(2,3) b e by (simp add: in_bounds_def)
  moreover have "bytes ! k = 0" if k: "unat p \<le> k" "k < unat (si_offset s)" for k
  proof -
    have "bytes ! k \<in> set (take (unat (si_offset s) - unat p) (drop (unat p) bytes))"
      using k b by (intro in_set_conv_nth [THEN iffD2] exI [of _ "k - unat p"]) (auto simp: in_bounds_def)
    with z show ?thesis by blast
  qed
  ultimately show ?case using step(2) e by (intro tiled_Cons) auto
qed

lemma aggregate_sections_Ok:
  assumes "\<forall>s \<in> set ss. in_bounds bytes directory_end s" and "length bytes < usize_lim"
  shows "aggregate_sections bytes ss = Ok (concat (map (\<lambda>s. aggregate_section (si_kind s) (si_flags s)
           (si_offset s) (si_length s) (take (unat (si_length s)) (drop (unat (si_offset s)) bytes))) ss))"
  using assms(1) by (induction ss) (auto simp: section_data_Ok [OF _ assms(2)])


lemma directory_entries_fit:
  assumes "112 + 56 * n \<le> (m :: nat)"
  shows "\<forall>i \<in> set [0..<n]. 112 + i * 56 + 56 \<le> m"
proof
  fix i assume "i \<in> set [0..<n]"
  then have "56 * Suc i \<le> 56 * n" by (intro mult_le_mono) auto
  with assms show "112 + i * 56 + 56 \<le> m" by simp
qed

lemma header_reads:
  assumes "112 \<le> length bytes"
  shows "get_u32 bytes OFF_FLAGS = Ok (from_le (take 4 (drop 16 bytes)))"
    and "slice bytes OFF_SCHEMA_ID (OFF_SCHEMA_ID + 16) = Ok (take 16 (drop 32 bytes))"
    and "slice bytes OFF_SCHEMA_FINGERPRINT (OFF_SCHEMA_FINGERPRINT + 32) = Ok (take 32 (drop 48 bytes))"
    and "slice bytes OFF_CONTENT_CHECKSUM (OFF_CONTENT_CHECKSUM + 32) = Ok (take 32 (drop 80 bytes))"
  using assms by (simp_all add: hbi_consts slice_iffs get_Ok_iffs)

lemma hbi_open_never_panics: "hbi_open sha bytes \<noteq> Panic"
proof
  assume panic: "hbi_open sha bytes = Panic"
  then obtain v n d hl de where h: "open_header bytes = Ok (v, n, d, hl, de)"
    by (cases "open_header bytes") (auto simp: hbi_open_def)
  note f = open_header_Ok [OF h]
  note lt = length_lt_usize [OF f(5)]
  have p0: "unat (of_nat de :: u64) = de" using lt f(4) by (intro u64_of_nat) simp
  have "open_entries sha bytes d 112 de [0..<unat n] \<noteq> Panic"
    using f directory_entries_fit [of "unat n" "length bytes"] by (intro open_entries_no_panic) auto
  with panic h f(2) obtain ss where ss: "open_entries sha bytes d 112 de [0..<unat n] = Ok ss"
    by (cases "open_entries sha bytes d 112 de [0..<unat n]") (auto simp: hbi_open_def)
  note b = open_entries_in_bounds [OF ss f(5,4)]
  then have b': "\<forall>s \<in> set (sort_key si_offset ss). in_bounds bytes de s" by simp
  note np = check_padding_no_panic [OF b', of "of_nat de"]
  have t: "unat q \<le> length bytes" if "check_padding bytes (of_nat de) (sort_key si_offset ss) = Ok q" for q
    using check_padding_Ok [OF that b' lt] p0 f(4) by (simp add: tiled_def)
  show False
  proof (cases "check_padding bytes (of_nat de) (sort_key si_offset ss)")
    case (Ok q)
    have "slice bytes (unat q) (length bytes) = (Ok (drop (unat q) bytes) :: (HbiError, byte list) res)"
      using t [OF Ok] by (simp add: slice_iffs)
    with panic show False
      by (simp add: hbi_open_def h f(2) ss Ok header_reads [OF f(7)] aggregate_sections_Ok [OF b lt]
          split: if_splits)
  qed (use panic np in \<open>simp_all add: hbi_open_def h f(2) ss\<close>)
qed

text \<open>The stream that the content checksum covers, from what the reader exposes.\<close>

definition section_bytes :: "HbiReader \<Rightarrow> HbiSectionInfo \<Rightarrow> byte list" where
  "section_bytes r s = take (unat (si_length s)) (drop (unat (si_offset s)) (rd_bytes r))"

definition hbi_stream :: "HbiReader \<Rightarrow> byte list" where
  "hbi_stream r =
     aggregate_header 1 112 (md_flags (rd_metadata r)) (of_nat (length (rd_sections r)))
       (md_total_len (rd_metadata r)) (md_schema_id (rd_metadata r)) (md_schema_fingerprint (rd_metadata r))
     @ concat (map (\<lambda>s. aggregate_section (si_kind s) (si_flags s) (si_offset s) (si_length s)
                          (section_bytes r s)) (rd_sections r))"

text \<open>What holds of every accepted container.\<close>

definition hbi_wf :: "(byte list \<Rightarrow> byte list) \<Rightarrow> HbiReader \<Rightarrow> bool" where
  "hbi_wf sha r \<longleftrightarrow>
     (let bytes = rd_bytes r; ss = rd_sections r; de = 112 + 56 * length ss in
      length bytes < usize_lim \<and> length ss \<le> 4096 \<and> de \<le> length bytes
      \<and> unat (md_total_len (rd_metadata r)) = length bytes
      \<and> md_schema_id (rd_metadata r) = take 16 (drop 32 bytes)
      \<and> md_schema_fingerprint (rd_metadata r) = take 32 (drop 48 bytes)
      \<and> (\<forall>s \<in> set ss. in_bounds bytes de s)
      \<and> (\<exists>q. tiled bytes de q (sort_key si_offset ss) \<and> (\<forall>k. q \<le> k \<and> k < length bytes \<longrightarrow> bytes ! k = 0))
      \<and> (\<forall>i < length ss. sha (section_bytes r (ss ! i)) = take 32 (drop (112 + i * 56 + 24) bytes))
      \<and> sha (hbi_stream r) = take 32 (drop 80 bytes))"

lemma hbi_open_wf:
  assumes "hbi_open sha bytes = Ok r"
  shows "hbi_wf sha r" and "rd_bytes r = bytes"
proof -
  from assms obtain v n d hl de where h: "open_header bytes = Ok (v, n, d, hl, de)"
    by (cases "open_header bytes") (auto simp: hbi_open_def)
  note f = open_header_Ok [OF h]
  note lt = length_lt_usize [OF f(5)]
  from assms h f(2) obtain ss where ss: "open_entries sha bytes d 112 de [0..<unat n] = Ok ss"
    by (cases "open_entries sha bytes d 112 de [0..<unat n]") (auto simp: hbi_open_def)
  note b = open_entries_in_bounds [OF ss f(5,4)]
  then have b': "\<forall>s \<in> set (sort_key si_offset ss). in_bounds bytes de s" by simp
  have len: "length ss = unat n" using ss by (auto simp: open_entries_Ok dest: list_all2_lengthD)
  have p0: "unat (of_nat de :: u64) = de" using lt f(4) by (intro u64_of_nat) simp
  from assms obtain q where q: "check_padding bytes (of_nat de) (sort_key si_offset ss) = Ok q"
    by (cases "check_padding bytes (of_nat de) (sort_key si_offset ss)")
       (simp_all add: hbi_open_def h f(2) ss)
  have t: "tiled bytes de (unat q) (sort_key si_offset ss)"
    using check_padding_Ok [OF q b' lt] p0 f(4) by simp
  then have sl: "slice bytes (unat q) (length bytes) = (Ok (drop (unat q) bytes) :: (HbiError, byte list) res)"
    by (simp add: slice_iffs tiled_def)
  from assms have z: "\<forall>x \<in> set (drop (unat q) bytes). x = 0"
    and md: "rd_metadata r = \<lparr>md_flags = from_le (take 4 (drop 16 bytes)), md_schema_id = take 16 (drop 32 bytes),
        md_schema_fingerprint = take 32 (drop 48 bytes), md_total_len = d\<rparr>"
    and sec: "rd_sections r = ss" and bytes: "rd_bytes r = bytes"
    and sum: "sha (aggregate_header v (of_nat hl) (from_le (take 4 (drop 16 bytes))) n d (take 16 (drop 32 bytes))
        (take 32 (drop 48 bytes)) @ concat (map (\<lambda>s. aggregate_section (si_kind s) (si_flags s) (si_offset s) (si_length s)
            (take (unat (si_length s)) (drop (unat (si_offset s)) bytes))) ss)) = take 32 (drop 80 bytes)"
    by (auto simp: hbi_open_def h f(2) ss q sl header_reads [OF f(7)] aggregate_sections_Ok [OF b lt]
        list_ex_iff split: if_splits)
  have zero: "bytes ! k = 0" if "unat q \<le> k" "k < length bytes" for k
  proof -
    from that have "bytes ! k = drop (unat q) bytes ! (k - unat q)" by simp
    moreover from that have "k - unat q < length (drop (unat q) bytes)" by simp
    ultimately show ?thesis using z nth_mem by metis
  qed
  have entry: "sha (take (unat (si_length (ss ! i))) (drop (unat (si_offset (ss ! i))) bytes))
      = take 32 (drop (112 + i * 56 + 24) bytes)" if "i < length ss" for i
  proof -
    have "open_entry sha bytes d 112 de i = Ok (ss ! i)"
      using ss that len by (auto simp: open_entries_Ok list_all2_conv_all_nth)
    from open_entry_Ok(6) [OF this f(5,4)] show ?thesis .
  qed
  have "hbi_stream r = aggregate_header v (of_nat hl) (from_le (take 4 (drop 16 bytes))) n d (take 16 (drop 32 bytes))
        (take 32 (drop 48 bytes)) @ concat (map (\<lambda>s. aggregate_section (si_kind s) (si_flags s) (si_offset s) (si_length s)
            (take (unat (si_length s)) (drop (unat (si_offset s)) bytes))) ss)"
    by (simp add: hbi_stream_def section_bytes_def bytes md sec len f(1,2))
  from bytes show "rd_bytes r = bytes" .
  from \<open>hbi_stream r = _\<close> show "hbi_wf sha r"
    using lt f b t zero entry sum
    by (auto simp: hbi_wf_def Let_def bytes md sec len section_bytes_def intro!: exI [of _ "unat q"])
qed

end
