(* ===== verification/Hbi_Layout.thy ===== *)
theory Hbi_Layout
  imports Hbi
begin

text \<open>
  The byte layout that the encoder of \<^verbatim>\<open>hbi.rs\<close> produces, written as a closed form, and what
  follows from it: an encoded container opens to what was encoded, and the content checksum of an
  accepted container fixes every byte of it.
\<close>

section \<open>The layout of an encoded container\<close>

definition align8 :: "nat \<Rightarrow> nat" where
  "align8 n = (if n mod 8 = 0 then n else n + (8 - n mod 8))"

lemma align8_ge: "n \<le> align8 n"
  by (auto simp: align8_def)

lemma align8_mod: "align8 n mod 8 = 0"
  by (auto simp: align8_def) presburger

lemma align_up_align8: "align8 n < usize_lim \<Longrightarrow> align_up n = Ok (align8 n)"
  by (cases "n mod 8 = 0")
     (simp_all add: align_up_def align8_def HBI_ALIGNMENT_def Let_def checked_add_def)

lemma align_up_Ok: "align_up n = Ok m \<Longrightarrow> n < usize_lim \<Longrightarrow> m = align8 n \<and> m < usize_lim"
  by (auto simp: align_up_def align8_def HBI_ALIGNMENT_def Let_def res_simps split: if_splits)

text \<open>The sections with their offsets, from a cursor on; the body they make; the directory.\<close>

fun place :: "nat \<Rightarrow> HbiSectionWithFlags list \<Rightarrow> (nat \<times> HbiSectionWithFlags) list" where
  "place c [] = []"
| "place c (s # ss) = (align8 c, s) # place (align8 c + length (wf_bytes s)) ss"

fun body_from :: "nat \<Rightarrow> HbiSectionWithFlags list \<Rightarrow> byte list" where
  "body_from c [] = []"
| "body_from c (s # ss) =
     replicate (align8 c - c) 0 @ wf_bytes s @ body_from (align8 c + length (wf_bytes s)) ss"

definition hbi_entry :: "u32 \<Rightarrow> u32 \<Rightarrow> nat \<Rightarrow> nat \<Rightarrow> byte list \<Rightarrow> byte list" where
  "hbi_entry kind flags offset len checksum =
     le32 kind @ le32 flags @ le64 (of_nat offset) @ le64 (of_nat len) @ checksum"

definition entry_of :: "(byte list \<Rightarrow> byte list) \<Rightarrow> nat \<times> HbiSectionWithFlags \<Rightarrow> byte list" where
  "entry_of sha = (\<lambda>(off, s). hbi_entry (wf_kind s) (wf_flags s) off (length (wf_bytes s)) (sha (wf_bytes s)))"

definition stream_of :: "nat \<times> HbiSectionWithFlags \<Rightarrow> byte list" where
  "stream_of = (\<lambda>(off, s). aggregate_section (wf_kind s) (wf_flags s) (of_nat off)
     (of_nat (length (wf_bytes s))) (wf_bytes s))"

definition info_of :: "nat \<times> HbiSectionWithFlags \<Rightarrow> HbiSectionInfo" where
  "info_of = (\<lambda>(off, s). \<lparr>si_kind = wf_kind s, si_flags = wf_flags s, si_offset = of_nat off,
     si_length = of_nat (length (wf_bytes s))\<rparr>)"

definition hbi_header :: "u32 \<Rightarrow> nat \<Rightarrow> nat \<Rightarrow> byte list \<Rightarrow> byte list \<Rightarrow> byte list \<Rightarrow> byte list" where
  "hbi_header flags n tot schema_id fingerprint checksum =
     HBI_MAGIC @ le16 1 @ le16 112 @ [1] @ [8] @ [0, 0] @ le32 flags @ le32 (of_nat n) @ le64 (of_nat tot)
       @ schema_id @ fingerprint @ checksum"

lemma length_HBI_MAGIC [simp]: "length HBI_MAGIC = 8"
  by (simp add: HBI_MAGIC_def)

lemma length_place [simp]: "length (place c ss) = length ss"
  by (induction ss arbitrary: c) auto

lemma map_snd_place [simp]: "map snd (place c ss) = ss"
  by (induction ss arbitrary: c) auto

lemma length_entry_of [simp]: "length (sha (wf_bytes (snd x))) = 32 \<Longrightarrow> length (entry_of sha x) = 56"
  by (cases x) (simp add: entry_of_def hbi_entry_def)

lemma place_bounds:
  "(off, s) \<in> set (place c ss) \<Longrightarrow>
     c \<le> off \<and> off mod 8 = 0 \<and> off + length (wf_bytes s) \<le> c + length (body_from c ss)
     \<and> take (length (wf_bytes s)) (drop (off - c) (body_from c ss)) = wf_bytes s"
proof (induction ss arbitrary: c)
  case (Cons t ss)
  let ?c = "align8 c + length (wf_bytes t)"
  show ?case
  proof (cases "(off, s) = (align8 c, t)")
    case True
    then show ?thesis by (simp add: align8_ge align8_mod)
  next
    case False
    with Cons.prems have "(off, s) \<in> set (place ?c ss)" by auto
    from Cons.IH [OF this] have ih: "?c \<le> off" "off mod 8 = 0"
        "off + length (wf_bytes s) \<le> ?c + length (body_from ?c ss)"
        "take (length (wf_bytes s)) (drop (off - ?c) (body_from ?c ss)) = wf_bytes s" by auto
    have "off - c - (align8 c - c) - length (wf_bytes t) = off - ?c"
      using ih(1) align8_ge [of c] by simp
    moreover have "align8 c - c \<le> off - c" "length (wf_bytes t) \<le> off - c - (align8 c - c)"
      using ih(1) align8_ge [of c] by simp_all
    ultimately show ?thesis
      using ih align8_ge [of c] by simp
  qed
qed simp

lemma total_len_loop_Ok:
  "total_len_loop c ss = Ok t \<Longrightarrow> c < usize_lim \<Longrightarrow>
     t = c + length (body_from c ss) \<and> t < usize_lim"
proof (induction ss arbitrary: c)
  case (Cons s ss)
  from Cons.prems obtain m where m: "align_up c = Ok m" "m + length (wf_bytes s) < usize_lim"
      "total_len_loop (m + length (wf_bytes s)) ss = Ok t"
    by (auto simp: res_simps)
  from align_up_Ok [OF m(1) Cons.prems(2)] have a: "m = align8 c" by simp
  from Cons.IH [OF m(3,2)] show ?case using a align8_ge [of c] by simp
qed simp

lemma encode_header_layout:
  assumes "length schema_id = 16" and "length fp = 32"
  shows "encode_header schema_id fp flags n (of_nat tot) (replicate 112 0 @ zs) =
           Ok (hbi_header flags n tot schema_id fp (replicate 32 0) @ zs)"
  using assms
  by (simp add: encode_header_def hbi_header_def hbi_consts HBI_MAGIC_def HBI_VERSION_def put_u16_def
      put_u32_def put_u64_def put_at_def HBI_ENDIAN_LITTLE_def numeral_2_eq_2)


lemma put_entry:
  assumes "length xs = e" and "length checksum = 32"
  shows "try_res (put_u32 (xs @ replicate 56 0 @ zs) e kind) (\<lambda>bytes.
     try_res (put_u32 bytes (e + 4) flags) (\<lambda>bytes.
     try_res (put_u64 bytes (e + 8) (of_nat offset)) (\<lambda>bytes.
     try_res (put_u64 bytes (e + 16) (of_nat len)) (\<lambda>bytes.
     try_res (put_at bytes (e + 24) checksum) f)))) = f (xs @ hbi_entry kind flags offset len checksum @ zs)"
  using assms by (simp add: hbi_entry_def put_u32_def put_u64_def put_at_def)

lemma u64_try_from_Ok: "n < usize_lim \<Longrightarrow> u64_try_from n = Ok (of_nat n)"
  by (simp add: u64_try_from_def usize_lim_def)

lemma encode_section_layout:
  assumes e: "length xs = 112 + idx * 56" and sha: "\<forall>x. length (sha x) = 32"
    and c: "cursor = length xs + 56 + length ys"
    and r: "(align8 cursor - cursor) + length (wf_bytes s) \<le> r"
    and lim: "align8 cursor + length (wf_bytes s) < usize_lim"
  shows "encode_section sha idx s (xs @ replicate 56 0 @ ys @ replicate r 0, agg, cursor) =
    Ok (xs @ entry_of sha (align8 cursor, s) @ ys @ replicate (align8 cursor - cursor) 0 @ wf_bytes s
          @ replicate (r - (align8 cursor - cursor) - length (wf_bytes s)) 0,
        agg @ stream_of (align8 cursor, s), align8 cursor + length (wf_bytes s))"
proof -
  let ?a = "align8 cursor" and ?n = "length (wf_bytes s)"
  let ?h = "xs @ entry_of sha (?a, s)"
  have rep: "replicate r (0::byte) = replicate (?a - cursor) 0 @ replicate ?n 0
      @ replicate (r - (?a - cursor) - ?n) 0"
    using r by (simp add: replicate_add [symmetric])
  have "put_at (?h @ ys @ replicate r 0) ?a (wf_bytes s) =
      (Ok ((?h @ ys @ replicate (?a - cursor) 0) @ wf_bytes s @ replicate (r - (?a - cursor) - ?n) 0)
        :: (HbiError, byte list) res)"
    unfolding rep using c e sha align8_ge [of cursor]
    by (subst put_at_mid [of _ "?h @ ys @ replicate (?a - cursor) 0" "replicate ?n 0", symmetric]) simp_all
  then have put: "put_at (xs @ hbi_entry (wf_kind s) (wf_flags s) ?a ?n (sha (wf_bytes s)) @ ys @ replicate r 0)
      ?a (wf_bytes s) = (Ok (xs @ entry_of sha (?a, s) @ ys @ replicate (?a - cursor) 0 @ wf_bytes s
        @ replicate (r - (?a - cursor) - ?n) 0) :: (HbiError, byte list) res)"
    by (simp add: entry_of_def)
  have lt: "?a < usize_lim" "?n < usize_lim" using lim by simp_all
  show ?thesis
    unfolding encode_section_def
    by (simp only: prod.case align_up_align8 [OF lt(1)] u64_try_from_Ok [OF lt(1)] u64_try_from_Ok [OF lt(2)]
        try_res.simps Let_def hbi_consts put_entry [OF e sha [rule_format]] put)
       (use lim in \<open>simp add: checked_add_def stream_of_def\<close>)
qed

lemma encode_sections_layout:
  assumes "length xs = 112 + idx * 56" and sha: "\<forall>x. length (sha x) = 32"
    and "cursor = length xs + 56 * length ss + length ys"
    and "length (body_from cursor ss) \<le> r"
    and "cursor + length (body_from cursor ss) < usize_lim"
  shows "encode_sections sha idx ss (xs @ replicate (56 * length ss) 0 @ ys @ replicate r 0, agg, cursor) =
    Ok (xs @ concat (map (entry_of sha) (place cursor ss)) @ ys @ body_from cursor ss
          @ replicate (r - length (body_from cursor ss)) 0,
        agg @ concat (map stream_of (place cursor ss)), cursor + length (body_from cursor ss))"
  using assms
proof (induction ss arbitrary: xs idx ys r agg cursor)
  case (Cons s ss)
  let ?a = "align8 cursor" and ?n = "length (wf_bytes s)"
  let ?xs = "xs @ entry_of sha (?a, s)" and ?ys = "ys @ replicate (?a - cursor) 0 @ wf_bytes s"
  let ?r = "r - (?a - cursor) - ?n"
  have st: "encode_section sha idx s
        (xs @ replicate 56 0 @ (replicate (56 * length ss) 0 @ ys) @ replicate r 0, agg, cursor) =
      Ok (xs @ entry_of sha (?a, s) @ (replicate (56 * length ss) 0 @ ys) @ replicate (?a - cursor) 0
          @ wf_bytes s @ replicate ?r 0, agg @ stream_of (?a, s), ?a + ?n)"
    using Cons.prems align8_ge [of cursor] by (intro encode_section_layout) auto
  have ih: "encode_sections sha (Suc idx) ss
        (?xs @ replicate (56 * length ss) 0 @ ?ys @ replicate ?r 0, agg @ stream_of (?a, s), ?a + ?n) =
      Ok (?xs @ concat (map (entry_of sha) (place (?a + ?n) ss)) @ ?ys @ body_from (?a + ?n) ss
          @ replicate (?r - length (body_from (?a + ?n) ss)) 0,
        (agg @ stream_of (?a, s)) @ concat (map stream_of (place (?a + ?n) ss)),
        ?a + ?n + length (body_from (?a + ?n) ss))"
    using Cons.prems align8_ge [of cursor] by (intro Cons.IH) auto
  have "replicate (56 * length (s # ss)) (0::byte) = replicate 56 0 @ replicate (56 * length ss) 0"
    by (simp add: replicate_add)
  then show ?case
    using st ih align8_ge [of cursor] by (simp del: replicate.simps)
qed simp

text \<open>The whole container: header, directory, body and the padding to a multiple of 8.\<close>

definition hbi_layout ::
  "(byte list \<Rightarrow> byte list) \<Rightarrow> byte list \<Rightarrow> byte list \<Rightarrow> u32 \<Rightarrow> HbiSectionWithFlags list \<Rightarrow> byte list" where
  "hbi_layout sha schema_id fp flags ss =
     (let c = 112 + 56 * length ss; e = c + length (body_from c ss); tot = align8 e in
      hbi_header flags (length ss) tot schema_id fp
        (sha (aggregate_header 1 112 flags (of_nat (length ss)) (of_nat tot) schema_id fp
                @ concat (map stream_of (place c ss))))
      @ concat (map (entry_of sha) (place c ss)) @ body_from c ss @ replicate (tot - e) 0)"

definition layout_total :: "HbiSectionWithFlags list \<Rightarrow> nat" where
  "layout_total ss = align8 (112 + 56 * length ss + length (body_from (112 + 56 * length ss) ss))"

lemma length_directory:
  assumes "\<forall>x. length (sha x) = 32"
  shows "length (concat (map (entry_of sha) ps)) = 56 * length ps"
  using assms by (induction ps) auto

lemma length_layout:
  assumes "\<forall>x. length (sha x) = 32" and "length schema_id = 16" and "length fp = 32"
  shows "length (hbi_layout sha schema_id fp flags ss) = layout_total ss"
  using assms align8_ge [of "112 + 56 * length ss + length (body_from (112 + 56 * length ss) ss)"]
  by (simp add: hbi_layout_def hbi_header_def layout_total_def Let_def length_directory)

lemma total_len_loop_eq:
  "c + length (body_from c ss) < usize_lim \<Longrightarrow> total_len_loop c ss = Ok (c + length (body_from c ss))"
proof (induction ss arbitrary: c)
  case (Cons s ss)
  then have "align_up c = Ok (align8 c)" using align8_ge [of c] by (intro align_up_align8) simp
  with Cons align8_ge [of c] show ?case by (simp add: checked_add_def)
qed simp

text \<open>The encoder succeeds on distinct kinds within the limits, and writes the layout.\<close>

lemma encode_hbi_Ok:
  assumes n: "length sections \<le> 4096" and dup: "duplicate_kind (sort_key wf_kind sections) = None"
    and lim: "layout_total (sort_key wf_kind sections) < 2 ^ 63"
    and sha: "\<forall>x. length (sha x) = 32" and id: "length schema_id = 16" and fp: "length fp = 32"
  shows "encode_hbi_with_identity sha schema_id fp flags sections =
           Ok (hbi_layout sha schema_id fp flags (sort_key wf_kind sections))"
proof -
  let ?ss = "sort_key wf_kind sections" and ?c = "112 + 56 * length sections"
  define e where "e = ?c + length (body_from ?c ?ss)"
  define tot where "tot = align8 e"
  have v: "tot < 2 ^ 63" using lim by (simp add: layout_total_def tot_def e_def)
  then have t: "tot < usize_lim" by (simp add: usize_lim_def)
  have ge: "e \<le> tot" using align8_ge [of e] by (simp add: tot_def)
  have loop1: "total_len_loop ?c ?ss = Ok e" using ge t by (simp add: total_len_loop_eq e_def)
  have al: "align_up e = Ok tot" using t by (simp add: align_up_align8 tot_def)
  have buf: "replicate tot (0::byte) = replicate 112 0 @ (replicate (56 * length sections) 0 @ [] @ replicate (tot - ?c) 0)"
    using ge by (simp add: e_def replicate_add [symmetric])
  let ?agg = "aggregate_header 1 112 flags (of_nat (length sections)) (of_nat tot) schema_id fp"
  let ?hdr = "hbi_header flags (length sections) tot schema_id fp"
  let ?dir = "concat (map (entry_of sha) (place ?c ?ss))"
  have loop: "encode_sections sha 0 ?ss (?hdr (replicate 32 0) @ replicate (56 * length sections) 0 @ []
        @ replicate (tot - ?c) 0, ?agg, ?c) =
      Ok (?hdr (replicate 32 0) @ ?dir @ body_from ?c ?ss @ replicate (tot - e) 0,
        ?agg @ concat (map stream_of (place ?c ?ss)), e)"
    using encode_sections_layout [of "?hdr (replicate 32 0)" 0 sha ?c ?ss "[]" "tot - ?c" ?agg] sha ge t id fp
    by (simp add: hbi_header_def e_def)
  have hdr: "encode_header schema_id fp flags (length sections) (of_nat tot) (replicate tot 0) =
      Ok (?hdr (replicate 32 0) @ replicate (56 * length sections) 0 @ [] @ replicate (tot - ?c) 0)"
    unfolding buf by (rule encode_header_layout [OF id fp])
  have "encode_hbi_with_identity sha schema_id fp flags sections =
      put_at (?hdr (replicate 32 0) @ ?dir @ body_from ?c ?ss @ replicate (tot - e) 0) 80
        (sha (?agg @ concat (map stream_of (place ?c ?ss))))"
    using n dup loop1 al v u64_try_from_Ok [OF t] loop hdr
    by (simp add: encode_hbi_with_identity_def HBI_MAX_SECTIONS_def hbi_consts Let_def zeroed_vec_def
        checked_add_def checked_mul_def usize_lim_def mult.commute HBI_VERSION_def)
  also have "\<dots> = Ok (hbi_layout sha schema_id fp flags ?ss)"
    using sha id fp by (simp add: hbi_layout_def put_at_def hbi_header_def Let_def tot_def e_def)
  finally show ?thesis .
qed

lemma encode_hbi_layout:
  assumes enc: "encode_hbi_with_identity sha schema_id fp flags sections = Ok bytes"
    and sha: "\<forall>x. length (sha x) = 32" and id: "length schema_id = 16" and fp: "length fp = 32"
  shows "bytes = hbi_layout sha schema_id fp flags (sort_key wf_kind sections)"
    and "length sections \<le> 4096"
    and "duplicate_kind (sort_key wf_kind sections) = None"
    and "layout_total (sort_key wf_kind sections) < 2 ^ 63"
proof -
  show n: "length sections \<le> 4096" and dup: "duplicate_kind (sort_key wf_kind sections) = None"
    using enc by (auto simp: encode_hbi_with_identity_def HBI_MAX_SECTIONS_def Let_def split: if_splits option.splits)
  let ?ss = "sort_key wf_kind sections" and ?c = "112 + 56 * length sections"
  have c: "?c < usize_lim" using n by (simp add: usize_lim_def)
  from enc n dup obtain e tot where e: "total_len_loop ?c ?ss = Ok e" and tot: "align_up e = Ok tot"
      and v: "tot < 2 ^ 63"
    by (auto simp: encode_hbi_with_identity_def HBI_MAX_SECTIONS_def hbi_consts Let_def res_simps zeroed_vec_def
        mult.commute split: if_splits option.splits)
  have e': "e = ?c + length (body_from ?c ?ss)" "e < usize_lim" using total_len_loop_Ok [OF e c] by auto
  have "tot = layout_total ?ss" using align_up_Ok [OF tot e'(2)] e'(1) by (simp add: layout_total_def)
  with v show lim: "layout_total ?ss < 2 ^ 63" by simp
  show "bytes = hbi_layout sha schema_id fp flags ?ss"
    using enc encode_hbi_Ok [OF n dup lim sha id fp] by simp
qed

section \<open>An encoded container opens to what was encoded\<close>

lemma open_header_layout:
  assumes "length schema_id = 16" and "length fp = 32" and "length checksum = 32"
    and "n \<le> 4096" and "tot = 112 + length rest" and "56 * n \<le> length rest" and "tot < usize_lim"
  shows "open_header (hbi_header flags n tot schema_id fp checksum @ rest) =
           Ok (1, of_nat n, of_nat tot, 112, 112 + 56 * n)"
proof -
  have n: "unat (of_nat n :: u32) = n" using assms(4) by (simp add: unat_of_nat)
  then have "\<not> HBI_MAX_SECTIONS < (of_nat n :: u32)"
    using assms(4) by (simp add: HBI_MAX_SECTIONS_def word_less_nat_alt)
  then show ?thesis
    using assms n u64_of_nat [OF assms(7)]
    by (simp add: open_header_def hbi_header_def hbi_consts HBI_MAGIC_def HBI_VERSION_def HBI_ENDIAN_LITTLE_def
        slice_def index_def get_u16_def get_u32_def get_u64_def get_slice_def Let_def
        checked_add_def checked_mul_def usize_lim_def nth_append)
qed

lemma open_entry_layout:
  assumes L: "L = xs @ hbi_entry kind flags off (length data) (sha data) @ zs"
    and len: "length (sha data) = 32" "length xs = 112 + i * 56" and d: "unat d = length L"
    and al: "off mod 8 = 0" "de \<le> off" and fit: "off + length data \<le> length L"
    and data: "take (length data) (drop off L) = data"
  shows "open_entry sha L d 112 de i =
           Ok \<lparr>si_kind = kind, si_flags = flags, si_offset = of_nat off, si_length = of_nat (length data)\<rparr>"
proof -
  note lt = length_lt_usize [OF d]
  have u: "unat (of_nat off :: u64) = off" "unat (of_nat (length data) :: u64) = length data"
      "unat (of_nat de :: u64) = de" "unat (of_nat off + of_nat (length data) :: u64) = off + length data"
    using lt fit al(2) u64_of_nat [of "off + length data"] by (simp_all add: u64_of_nat)
  have r: "get_u32 L (112 + i * 56) = Ok kind" "get_u32 L (112 + i * 56 + 4) = Ok flags"
      "get_u64 L (112 + i * 56 + 8) = Ok (of_nat off)" "get_u64 L (112 + i * 56 + 16) = Ok (of_nat (length data))"
      "slice L (112 + i * 56 + 24) (112 + i * 56 + 56) = (Ok (sha data) :: (HbiError, byte list) res)"
    using len by (simp_all add: L hbi_entry_def get_Ok_iffs slice_iffs)
  have s: "slice L off (off + length data) = (Ok data :: (HbiError, byte list) res)"
    using fit data by (simp add: slice_iffs)
  have "unat ((of_nat off :: u64) mod 8) = 0"
    using al(1) u(1) by (simp add: unat_mod_distrib)
  then have m: "(of_nat off :: u64) mod 8 = 0" by (simp only: unat_eq_zero)
  show ?thesis
    using al fit lt m
    by (simp add: open_entry_def hbi_consts Let_def r [simplified] s u d word_less_nat_alt usize_lim_def)
qed

lemma check_padding_layout:
  assumes "L = xs @ body_from c ss @ zs" and "length xs = c" and "length L < usize_lim"
  shows "check_padding L (of_nat c) (map info_of (place c ss)) = Ok (of_nat (c + length (body_from c ss)))"
  using assms
proof (induction ss arbitrary: xs c)
  case (Cons s ss)
  let ?a = "align8 c" and ?n = "length (wf_bytes s)"
  have fit: "c \<le> ?a" "?a + ?n \<le> length L" using Cons.prems align8_ge [of c] by simp_all
  have u: "unat (of_nat ?a :: u64) = ?a" "unat (of_nat ?n :: u64) = ?n" "unat (of_nat c :: u64) = c"
    using fit Cons.prems(3) by (simp_all add: u64_of_nat)
  have "slice L c ?a = (Ok (replicate (?a - c) 0) :: (HbiError, byte list) res)"
    using fit Cons.prems by (simp add: slice_iffs)
  moreover have "check_padding L (of_nat (?a + ?n)) (map info_of (place (?a + ?n) ss)) =
      Ok (of_nat (?a + ?n + length (body_from (?a + ?n) ss)))"
    using Cons.prems fit by (intro Cons.IH [of "xs @ replicate (?a - c) 0 @ wf_bytes s"]) simp_all
  ultimately show ?case
    using fit u Cons.prems(3)
    by (simp add: info_of_def word_less_nat_alt list_ex_iff usize_lim_def add.assoc [symmetric])
qed simp

lemma place_sorted:
  "c + length (body_from c ss) < usize_lim \<Longrightarrow> sorted (map si_offset (map info_of (place c ss)))"
proof (induction ss arbitrary: c)
  case (Cons s ss)
  let ?c = "align8 c + length (wf_bytes s)"
  have "si_offset (info_of (align8 c, s)) \<le> si_offset (info_of x)" if "x \<in> set (place ?c ss)" for x
  proof (cases x)
    case (Pair off t)
    with that place_bounds [of off t ?c ss] have "?c \<le> off" "off \<le> ?c + length (body_from ?c ss)" by auto
    with Cons.prems align8_ge [of c] show ?thesis
      by (simp add: Pair info_of_def word_le_nat_alt u64_of_nat)
  qed
  then show ?case using Cons align8_ge [of c] by simp
qed simp


text \<open>Entry \<open>i\<close> of the directory of a buffer that has the layout reads back section \<open>i\<close>.\<close>

lemma open_entries_layout:
  fixes ss :: "HbiSectionWithFlags list"
  defines "c \<equiv> 112 + 56 * length ss"
  assumes sha: "\<forall>x. length (sha x) = 32" and hdr: "length hdr = 112"
    and L: "L = hdr @ concat (map (entry_of sha) (place c ss)) @ body_from c ss @ zs"
    and d: "unat d = length L"
  shows "open_entries sha L d 112 c [0..<length ss] = Ok (map info_of (place c ss))"
    and "(off, s) \<in> set (place c ss) \<Longrightarrow> take (length (wf_bytes s)) (drop off L) = wf_bytes s"
proof -
  let ?ps = "place c ss" and ?body = "body_from c ss"
  have dir: "length (concat (map (entry_of sha) ?ps)) = 56 * length ss" by (simp add: length_directory [OF sha])
  have lenL: "c + length ?body \<le> length L" using hdr dir by (simp add: L c_def)
  show data: "take (length (wf_bytes s)) (drop off L) = wf_bytes s" if "(off, s) \<in> set ?ps" for off s
  proof -
    note b = place_bounds [OF that]
    then have "drop off L = drop (off - c) (?body @ zs)"
      using hdr dir by (auto simp: L c_def)
    with b show ?thesis by simp
  qed
  have entry: "open_entry sha L d 112 c i = Ok (map info_of ?ps ! i)" if "i < length ss" for i
  proof -
    obtain off s where ps: "?ps ! i = (off, s)" by fastforce
    with that have mem: "(off, s) \<in> set ?ps" by (metis length_place nth_mem)
    have split: "?ps = take i ?ps @ (off, s) # drop (Suc i) ?ps"
      using that ps by (metis id_take_nth_drop length_place)
    have "L = (hdr @ concat (map (entry_of sha) (take i ?ps)))
        @ hbi_entry (wf_kind s) (wf_flags s) off (length (wf_bytes s)) (sha (wf_bytes s))
        @ (concat (map (entry_of sha) (drop (Suc i) ?ps)) @ ?body @ zs)"
      unfolding L by (subst split) (simp add: entry_of_def)
    from open_entry_layout [where sha = sha and data = "wf_bytes s", OF this, of i d c] show ?thesis
      using that sha hdr d place_bounds [OF mem] data [OF mem] lenL ps
      by (simp add: length_directory [OF sha] info_of_def)
  qed
  then show "open_entries sha L d 112 c [0..<length ss] = Ok (map info_of ?ps)"
    by (simp add: open_entries_Ok list_all2_conv_all_nth)
qed

lemma hbi_open_layout:
  assumes sha: "\<forall>x. length (sha x) = 32" and id: "length schema_id = 16" and fp: "length fp = 32"
    and n: "length ss \<le> 4096" and lim: "layout_total ss < usize_lim"
  shows "hbi_open sha (hbi_layout sha schema_id fp flags ss) =
    Ok \<lparr>rd_bytes = hbi_layout sha schema_id fp flags ss,
        rd_metadata = \<lparr>md_flags = flags, md_schema_id = schema_id, md_schema_fingerprint = fp,
          md_total_len = of_nat (layout_total ss)\<rparr>,
        rd_sections = map info_of (place (112 + 56 * length ss) ss)\<rparr>"
proof -
  let ?c = "112 + 56 * length ss"
  let ?ps = "place ?c ss" and ?body = "body_from ?c ss" and ?tot = "layout_total ss"
  let ?dir = "concat (map (entry_of sha) ?ps)" and ?e = "?c + length ?body"
  let ?stream = "aggregate_header 1 112 flags (of_nat (length ss)) (of_nat ?tot) schema_id fp
                @ concat (map stream_of ?ps)"
  define hdr where "hdr = hbi_header flags (length ss) ?tot schema_id fp (sha ?stream)"
  define L where "L = hbi_layout sha schema_id fp flags ss"
  have L: "L = hdr @ ?dir @ ?body @ replicate (?tot - ?e) 0"
    by (simp add: L_def hdr_def hbi_layout_def layout_total_def Let_def)
  have lenL: "length L = ?tot" unfolding L_def by (rule length_layout [OF sha id fp])
  have hdr: "length hdr = 112" using sha id fp by (simp add: hdr_def hbi_header_def)
  have dir: "length ?dir = 56 * length ss" by (simp add: length_directory [OF sha])
  have te: "?e \<le> ?tot" using align8_ge by (simp add: layout_total_def)
  have utot: "unat (of_nat ?tot :: u64) = length L" using lim lenL by (simp add: u64_of_nat)
  have open_h: "open_header L = Ok (1, of_nat (length ss), of_nat ?tot, 112, ?c)"
    unfolding L hdr_def using sha id fp n lim dir te by (intro open_header_layout) auto
  note layout = open_entries_layout [OF sha hdr L utot]
  note entries = layout(1) and data = layout(2)
  have sorted: "sort_key si_offset (map info_of ?ps) = map info_of ?ps"
    using place_sorted [of ?c ss] te lim by (intro sort_key_id_if_sorted) simp
  have pad: "check_padding L (of_nat ?c) (map info_of ?ps) = Ok (of_nat ?e)"
    using check_padding_layout [of L "hdr @ ?dir" ?c ss] hdr dir lim lenL by (simp add: L)
  have ue: "unat (of_nat ?e :: u64) = ?e" using te lim by (intro u64_of_nat) simp
  have rest: "slice L ?e (length L) = (Ok (replicate (?tot - ?e) 0) :: (HbiError, byte list) res)"
    using te lenL hdr dir by (simp add: slice_iffs L)
  have un: "unat (of_nat (length ss) :: u32) = length ss" using n by (simp add: unat_of_nat)
  have lt: "length L < usize_lim" using lenL lim by simp
  have bounds: "\<forall>s \<in> set (map info_of ?ps). in_bounds L ?c s"
    using open_entries_in_bounds [OF entries utot] te lenL by simp
  have u: "unat (of_nat off :: u64) = off \<and> unat (of_nat (length (wf_bytes s)) :: u64) = length (wf_bytes s)"
    if "(off, s) \<in> set ?ps" for off s
    using place_bounds [OF that] te lim by (simp add: u64_of_nat)
  have "aggregate_sections L (map info_of ?ps) = Ok (concat (map stream_of ?ps))"
    unfolding aggregate_sections_Ok [OF bounds lt]
    by (auto simp: info_of_def stream_of_def u data intro!: arg_cong [of _ _ concat])
  moreover have "112 \<le> length L" using te lenL by simp
  note reads = header_reads [OF this]
  have "from_le (take 4 (drop 16 L)) = flags" "take 16 (drop 32 L) = schema_id" "take 32 (drop 48 L) = fp"
      "take 32 (drop 80 L) = sha ?stream"
    using id fp sha by (simp_all add: L hdr_def hbi_header_def)
  ultimately have "hbi_open sha L = Ok \<lparr>rd_bytes = L,
        rd_metadata = \<lparr>md_flags = flags, md_schema_id = schema_id, md_schema_fingerprint = fp,
          md_total_len = of_nat ?tot\<rparr>, rd_sections = map info_of ?ps\<rparr>"
    using entries open_h un sorted pad ue rest
    by (simp add: hbi_open_def reads list_ex_iff)
  then show ?thesis by (simp add: L_def)
qed

end
