(* ===== verification/Hbi_Integrity.thy ===== *)
theory Hbi_Integrity
  imports Hbi_Layout
begin

text \<open>
  Integrity of accepted HBI containers: the sections never overlap, and the 32-byte content
  checksum of the header fixes every byte of the file, up to a collision of the digest.
\<close>

section \<open>An accepted container is in canonical form\<close>

lemma le_from_le:
  "length bs = 2 \<Longrightarrow> le16 (from_le bs) = bs" "length bs = 4 \<Longrightarrow> le32 (from_le bs) = bs"
  "length bs = 8 \<Longrightarrow> le64 (from_le bs) = bs"
  by (simp_all add: le16_def le32_def le64_def unat_from_le)
     (metis nat_le_le_nat)+

lemma hbi_open_parts:
  assumes "hbi_open sha bytes = Ok r"
  obtains n d where "open_header bytes = Ok (1, n, d, 112, 112 + 56 * unat n)"
    and "open_entries sha bytes d 112 (112 + 56 * unat n) [0..<unat n] = Ok (rd_sections r)"
    and "md_flags (rd_metadata r) = from_le (take 4 (drop 16 bytes))" and "md_total_len (rd_metadata r) = d"
proof -
  from assms obtain v n d hl de where h: "open_header bytes = Ok (v, n, d, hl, de)"
    by (cases "open_header bytes") (auto simp: hbi_open_def)
  note f = open_header_Ok [OF h]
  have "open_entries sha bytes d 112 (112 + 56 * unat n) [0..<unat n] = Ok (rd_sections r)"
      "md_flags (rd_metadata r) = from_le (take 4 (drop 16 bytes))" "md_total_len (rd_metadata r) = d"
    using assms
    by (clarsimp simp: hbi_open_def h f(1-3) try_res_Ok_iff if_res_iffs header_reads [OF f(7)])+
  with h f(1-3) that show ?thesis by simp
qed

lemma take_drop_split:
  "m \<le> k \<Longrightarrow> take k (drop i xs) = take m (drop i xs) @ take (k - m) (drop (i + m) xs)"
  by (metis add.commute drop_drop le_add_diff_inverse take_add)

lemma open_header_canonical:
  assumes "open_header bytes = Ok (v, n, d, hl, de)"
  shows "take 112 bytes = hbi_header (from_le (take 4 (drop 16 bytes))) (unat n) (length bytes)
           (take 16 (drop 32 bytes)) (take 32 (drop 48 bytes)) (take 32 (drop 80 bytes))"
proof -
  note f = open_header_Ok [OF assms]
  note sp = take_drop_split [where xs = bytes]
  have parts: "take 112 bytes = take 8 bytes @ take 2 (drop 8 bytes) @ take 2 (drop 10 bytes) @ take 1 (drop 12 bytes)
      @ take 1 (drop 13 bytes) @ take 2 (drop 14 bytes) @ take 4 (drop 16 bytes) @ take 4 (drop 20 bytes)
      @ take 8 (drop 24 bytes) @ take 16 (drop 32 bytes) @ take 32 (drop 48 bytes) @ take 32 (drop 80 bytes)"
    using sp [of 8 112 0] sp [of 2 104 8] sp [of 2 102 10] sp [of 1 100 12] sp [of 1 99 13] sp [of 2 98 14]
      sp [of 4 96 16] sp [of 4 92 20] sp [of 8 88 24] sp [of 16 80 32] sp [of 32 64 48] by simp
  have sing: "take 1 (drop i bytes) = [bytes ! i]" if "i < length bytes" for i
    using that take_Suc_conv_app_nth [of 0 "drop i bytes"] by simp
  have two: "take 2 (drop 14 bytes) = [bytes ! 14, bytes ! 15]"
    using sp [of 1 2 14] sing [of 14] sing [of 15] f(7) by simp
  have fields: "take 8 bytes = HBI_MAGIC" "from_le (take 2 (drop 8 bytes)) = (1 :: u16)"
      "unat (from_le (take 2 (drop 10 bytes)) :: u16) = 112"
      "bytes ! 12 = 1" "unat (bytes ! 13) = 8" "bytes ! 14 = 0" "bytes ! 15 = 0"
    using assms by (auto simp: open_header_def Let_def hbi_consts HBI_VERSION_def HBI_ENDIAN_LITTLE_def res_simps
        split: if_splits)
  have "bytes ! 13 = 8"
    using fields(5) by (intro unsigned_word_eqI) simp
  moreover have "from_le (take 2 (drop 10 bytes)) = (112 :: u16)"
    using fields(3) by (intro unsigned_word_eqI) simp
  ultimately have le: "take 2 (drop 8 bytes) = le16 1" "take 2 (drop 10 bytes) = le16 112"
      "take 4 (drop 16 bytes) = le32 (from_le (take 4 (drop 16 bytes)))"
      "take 4 (drop 20 bytes) = le32 n" "take 8 (drop 24 bytes) = le64 d"
    using fields(2) f(7,8,9) le_from_le(1) [of "take 2 (drop 8 bytes)"] le_from_le(1) [of "take 2 (drop 10 bytes)"]
    by (simp_all add: le_from_le)
  have d: "d = of_nat (length bytes)" by (simp flip: f(5))
  show ?thesis
    unfolding hbi_header_def
    by (subst parts) (use f(7) le fields \<open>bytes ! 13 = 8\<close> sing [of 12] sing [of 13] two in \<open>simp add: d\<close>)
qed


lemma open_entry_canonical:
  assumes "open_entry sha bytes d 112 de i = Ok s" and "unat d = length bytes" and "de \<le> length bytes"
  shows "take 56 (drop (112 + i * 56) bytes) =
           hbi_entry (si_kind s) (si_flags s) (unat (si_offset s)) (unat (si_length s))
             (sha (take (unat (si_length s)) (drop (unat (si_offset s)) bytes)))"
proof -
  note f = open_entry_Ok [OF assms]
  note sp = take_drop_split [where xs = bytes]
  let ?e = "112 + i * 56"
  have "take 56 (drop ?e bytes) = take 4 (drop ?e bytes) @ take 4 (drop (?e + 4) bytes) @ take 8 (drop (?e + 8) bytes)
      @ take 8 (drop (?e + 16) bytes) @ take 32 (drop (?e + 24) bytes)"
    using sp [of 4 56 ?e] sp [of 4 52 "?e + 4"] sp [of 8 48 "?e + 8"] sp [of 8 40 "?e + 16"] by simp
  then show ?thesis
    unfolding f(6) hbi_entry_def using f(7) by (simp add: f(2-5) le_from_le)
qed

lemma directory_concat:
  assumes "\<forall>i < n. take 56 (drop (112 + i * 56) bytes) = ent i"
  shows "take (56 * n) (drop 112 bytes) = concat (map ent [0..<n])"
  using assms
proof (induction n)
  case (Suc n)
  have "take (56 * Suc n) (drop 112 bytes) = take (56 * n) (drop 112 bytes) @ take 56 (drop (112 + n * 56) bytes)"
    using take_drop_split [of "56 * n" "56 * Suc n" 112 bytes] by (simp add: mult.commute)
  with Suc show ?case by simp
qed simp

text \<open>The header and the directory are functions of what the reader exposes.\<close>

definition canonical_front :: "(byte list \<Rightarrow> byte list) \<Rightarrow> HbiReader \<Rightarrow> byte list" where
  "canonical_front sha r =
     hbi_header (md_flags (rd_metadata r)) (length (rd_sections r)) (unat (md_total_len (rd_metadata r)))
       (md_schema_id (rd_metadata r)) (md_schema_fingerprint (rd_metadata r)) (sha (hbi_stream r))
     @ concat (map (\<lambda>s. hbi_entry (si_kind s) (si_flags s) (unat (si_offset s)) (unat (si_length s))
                          (sha (section_bytes r s))) (rd_sections r))"

lemma hbi_open_front:
  assumes "hbi_open sha bytes = Ok r"
  shows "take (112 + 56 * length (rd_sections r)) bytes = canonical_front sha r"
proof -
  obtain n d where h: "open_header bytes = Ok (1, n, d, 112, 112 + 56 * unat n)"
    and e: "open_entries sha bytes d 112 (112 + 56 * unat n) [0..<unat n] = Ok (rd_sections r)"
    and md: "md_flags (rd_metadata r) = from_le (take 4 (drop 16 bytes))" "md_total_len (rd_metadata r) = d"
    using assms by (rule hbi_open_parts)
  note f = open_header_Ok [OF h]
  note wf = hbi_open_wf [OF assms]
  have len: "length (rd_sections r) = unat n" using e by (auto simp: open_entries_Ok dest: list_all2_lengthD)
  let ?ent = "\<lambda>s. hbi_entry (si_kind s) (si_flags s) (unat (si_offset s)) (unat (si_length s)) (sha (section_bytes r s))"
  have "take 56 (drop (112 + i * 56) bytes) = ?ent (rd_sections r ! i)" if "i < unat n" for i
  proof -
    have "open_entry sha bytes d 112 (112 + 56 * unat n) i = Ok (rd_sections r ! i)"
      using e that len by (auto simp: open_entries_Ok list_all2_conv_all_nth)
    from open_entry_canonical [OF this f(5,4)] show ?thesis by (simp add: section_bytes_def wf(2))
  qed
  then have "take (56 * unat n) (drop 112 bytes) = concat (map (\<lambda>i. ?ent (rd_sections r ! i)) [0..<unat n])"
    by (intro directory_concat) simp
  also have "map (\<lambda>i. ?ent (rd_sections r ! i)) [0..<unat n] = map ?ent (rd_sections r)"
    by (rule nth_equalityI) (simp_all add: len)
  finally show ?thesis
    using open_header_canonical [OF h] wf f(5)
    by (simp add: canonical_front_def take_add len md hbi_wf_def Let_def)
qed

lemma zero_outside_sections:
  assumes "hbi_wf sha r" and "rd_bytes r = bytes" and "k < length bytes" and "112 + 56 * length (rd_sections r) \<le> k"
    and "\<not> (\<exists>s \<in> set (rd_sections r). unat (si_offset s) \<le> k \<and> k < unat (si_offset s) + unat (si_length s))"
  shows "bytes ! k = 0"
proof -
  from assms(1,2) obtain q where q: "tiled bytes (112 + 56 * length (rd_sections r)) q (sort_key si_offset (rd_sections r))"
      "\<forall>k. q \<le> k \<and> k < length bytes \<longrightarrow> bytes ! k = 0"
    by (auto simp: hbi_wf_def Let_def)
  show ?thesis
  proof (cases "k < q")
    case True
    then show ?thesis using q(1) assms(4,5) by (fastforce simp: tiled_def)
  next
    case False
    then show ?thesis using q(2) assms(3) by simp
  qed
qed

lemma bytes_determined:
  assumes o: "hbi_open sha bytes = Ok r" "hbi_open sha bytes' = Ok r'"
    and eq: "rd_metadata r = rd_metadata r'" "rd_sections r = rd_sections r'"
      "\<forall>s \<in> set (rd_sections r). section_bytes r s = section_bytes r' s"
  shows "bytes = bytes'"
proof (rule nth_equalityI)
  note w = hbi_open_wf [OF o(1)] and w' = hbi_open_wf [OF o(2)]
  show len: "length bytes = length bytes'" using w w' eq by (simp add: hbi_wf_def Let_def)
  fix k assume k: "k < length bytes"
  let ?c = "112 + 56 * length (rd_sections r)"
  have front: "take ?c bytes = take ?c bytes'"
    using hbi_open_front [OF o(1)] hbi_open_front [OF o(2)] eq
    by (simp add: canonical_front_def hbi_stream_def cong: map_cong)
  show "bytes ! k = bytes' ! k"
  proof (cases "k < ?c")
    case True
    then show ?thesis using front by (metis nth_take)
  next
    case False
    show ?thesis
    proof (cases "\<exists>s \<in> set (rd_sections r). unat (si_offset s) \<le> k \<and> k < unat (si_offset s) + unat (si_length s)")
      case True
      then obtain s where s: "s \<in> set (rd_sections r)" "unat (si_offset s) \<le> k"
          "k < unat (si_offset s) + unat (si_length s)" by blast
      then have "section_bytes r s ! (k - unat (si_offset s)) = section_bytes r' s ! (k - unat (si_offset s))"
        using eq(3) by simp
      with s k len w(2) w'(2) show ?thesis by (simp add: section_bytes_def)
    next
      case gap: False
      then show ?thesis using zero_outside_sections [OF w k] zero_outside_sections [OF w'] False k len eq by simp
    qed
  qed
qed


section \<open>The checksum stream determines the container\<close>

lemma aggregate_sections_inject:
  fixes ss ss' :: "HbiSectionInfo list"
  assumes "length ss = length ss'"
    and "\<forall>s \<in> set ss. length (\<delta> s) = unat (si_length s)" and "\<forall>s \<in> set ss'. length (\<delta>' s) = unat (si_length s)"
    and "concat (map (\<lambda>s. aggregate_section (si_kind s) (si_flags s) (si_offset s) (si_length s) (\<delta> s)) ss) =
         concat (map (\<lambda>s. aggregate_section (si_kind s) (si_flags s) (si_offset s) (si_length s) (\<delta>' s)) ss')"
  shows "ss = ss' \<and> (\<forall>s \<in> set ss. \<delta> s = \<delta>' s)"
  using assms
proof (induction ss ss' rule: list_induct2)
  case (Cons s ss s' ss')
  from Cons.prems(3) have f: "si_kind s = si_kind s'" "si_flags s = si_flags s'" "si_offset s = si_offset s'"
      "si_length s = si_length s'" by (auto simp: aggregate_section_def)
  then have eq: "s = s'" by (intro HbiSectionInfo.equality) simp_all
  with Cons.prems have "\<delta> s = \<delta>' s'" by (auto simp: aggregate_section_def)
  with Cons eq show ?case by (auto simp: aggregate_section_def)
qed simp

lemma hbi_stream_inject:
  assumes "hbi_wf sha r" and "hbi_wf sha' r'" and "hbi_stream r = hbi_stream r'"
  shows "rd_metadata r = rd_metadata r' \<and> rd_sections r = rd_sections r'
    \<and> (\<forall>s \<in> set (rd_sections r). section_bytes r s = section_bytes r' s)"
proof -
  let ?m = "rd_metadata r" and ?m' = "rd_metadata r'"
  have len: "length (md_schema_id ?m) = 16" "length (md_schema_fingerprint ?m) = 32"
      "length (md_schema_id ?m') = 16" "length (md_schema_fingerprint ?m') = 32"
    using assms(1,2) by (auto simp: hbi_wf_def Let_def)
  have md: "?m = ?m'" and n: "(of_nat (length (rd_sections r)) :: u32) = of_nat (length (rd_sections r'))"
    and cc: "concat (map (\<lambda>s. aggregate_section (si_kind s) (si_flags s) (si_offset s) (si_length s)
                          (section_bytes r s)) (rd_sections r)) =
         concat (map (\<lambda>s. aggregate_section (si_kind s) (si_flags s) (si_offset s) (si_length s)
                          (section_bytes r' s)) (rd_sections r'))"
    using assms(3) len by (auto simp: hbi_stream_def aggregate_header_def)
  have "length (rd_sections r) = length (rd_sections r')"
    using assms(1,2) arg_cong [OF n, of unat] by (simp add: unat_of_nat hbi_wf_def Let_def)
  moreover have "\<forall>s \<in> set (rd_sections r). length (section_bytes r s) = unat (si_length s)"
      "\<forall>s \<in> set (rd_sections r'). length (section_bytes r' s) = unat (si_length s)"
    using assms(1,2) by (auto simp: hbi_wf_def Let_def section_bytes_def in_bounds_def)
  ultimately show ?thesis using md aggregate_sections_inject [OF _ _ _ cc] by blast
qed

section \<open>Sections of an accepted container are disjoint\<close>

definition disjoint_sections :: "HbiSectionInfo \<Rightarrow> HbiSectionInfo \<Rightarrow> bool" where
  "disjoint_sections s t \<longleftrightarrow>
     unat (si_offset s) + unat (si_length s) \<le> unat (si_offset t)
     \<or> unat (si_offset t) + unat (si_length t) \<le> unat (si_offset s)"

lemma sorted_wrt_mset:
  assumes "symp R" and "sorted_wrt R xs" and "mset xs = mset ys"
  shows "sorted_wrt R ys"
  using assms(2,3)
proof (induction ys arbitrary: xs)
  case (Cons y ys)
  then have "y \<in> set xs" by (metis list.set_intros(1) mset_eq_setD)
  then obtain as bs where xs: "xs = as @ y # bs" by (meson split_list)
  with Cons.prems have "sorted_wrt R (as @ bs)" "mset (as @ bs) = mset ys"
    by (auto simp: sorted_wrt_append)
  moreover from this(2) have "set (as @ bs) = set ys" by (rule mset_eq_setD)
  moreover from Cons.prems(1) xs assms(1) have "\<forall>z \<in> set (as @ bs). R y z"
    by (auto simp: sorted_wrt_append dest: sympD)
  ultimately show ?case using Cons.IH by auto
qed simp

lemma accepted_sections_disjoint:
  assumes "hbi_wf sha r"
  shows "sorted_wrt disjoint_sections (rd_sections r)"
proof -
  from assms obtain c q where "tiled (rd_bytes r) c q (sort_key si_offset (rd_sections r))"
    by (auto simp: hbi_wf_def Let_def)
  then have "sorted_wrt disjoint_sections (sort_key si_offset (rd_sections r))"
    unfolding tiled_def by (auto elim!: sorted_wrt_mono_rel [rotated] simp: disjoint_sections_def)
  then show ?thesis
    by (rule sorted_wrt_mset [rotated]) (auto simp: symp_def disjoint_sections_def)
qed

section \<open>Properties of the HBI container\<close>

text \<open>A digest and a container to apply the properties to.\<close>

definition flat_sha :: "byte list \<Rightarrow> byte list" where
  "flat_sha bs = replicate 31 7 @ [of_nat (length bs)]"

lemma flat_sha_length: "\<forall>x. length (flat_sha x) = 32"
  by (simp add: flat_sha_def)

definition toy_sections :: "HbiSectionWithFlags list" where
  "toy_sections = [\<lparr>wf_kind = 2, wf_flags = 0, wf_bytes = [1, 2, 3]\<rparr>, \<lparr>wf_kind = 1, wf_flags = 5, wf_bytes = [9]\<rparr>]"

lemma toy_sections_sorted:
  "sort_key wf_kind toy_sections =
     [\<lparr>wf_kind = 1, wf_flags = 5, wf_bytes = [9]\<rparr>, \<lparr>wf_kind = 2, wf_flags = 0, wf_bytes = [1, 2, 3]\<rparr>]"
  by (simp add: toy_sections_def word_le_nat_alt)

lemma toy_container:
  obtains bytes where "encode_hbi_with_identity flat_sha (replicate 16 3) (replicate 32 4) 1 toy_sections = Ok bytes"
proof -
  have "layout_total (sort_key wf_kind toy_sections) < 2 ^ 63"
    by (simp add: toy_sections_def layout_total_def align8_def)
  moreover have "duplicate_kind (sort_key wf_kind toy_sections) = None"
    by (simp add: toy_sections_def)
  ultimately show ?thesis
    using that encode_hbi_Ok [of toy_sections flat_sha "replicate 16 3" "replicate 32 4" 1] flat_sha_length
    by (simp add: toy_sections_def)
qed

lemma encode_open_hbi:
  assumes enc: "encode_hbi_with_identity sha schema_id fp flags sections = Ok bytes"
    and sha: "\<forall>x. length (sha x) = 32" and id: "length schema_id = 16" and fp: "length fp = 32"
  defines "ss \<equiv> sort_key wf_kind sections"
  shows "hbi_open sha bytes =
    Ok \<lparr>rd_bytes = bytes,
        rd_metadata = \<lparr>md_flags = flags, md_schema_id = schema_id, md_schema_fingerprint = fp,
          md_total_len = of_nat (length bytes)\<rparr>,
        rd_sections = map info_of (place (112 + 56 * length sections) ss)\<rparr>"
proof -
  note l = encode_hbi_layout [OF enc sha id fp, folded ss_def]
  have "length ss = length sections" "layout_total ss < usize_lim" using l(4) by (simp_all add: ss_def usize_lim_def)
  with hbi_open_layout [OF sha id fp, of ss flags] l length_layout [OF sha id fp, of flags ss]
  show ?thesis by simp
qed


lemma accepted_section_data:
  assumes "hbi_wf sha r" and "i < length (rd_sections r)"
  shows "hbi_section r i = Ok (Some (si_kind (rd_sections r ! i), section_bytes r (rd_sections r ! i)))"
proof -
  let ?s = "rd_sections r ! i"
  have "in_bounds (rd_bytes r) (112 + 56 * length (rd_sections r)) ?s" "length (rd_bytes r) < usize_lim"
    using assms by (auto simp: hbi_wf_def Let_def)
  then have "section_data (rd_bytes r) ?s = Ok (section_bytes r ?s)"
    by (simp add: section_data_Ok section_bytes_def)
  with assms(2) show ?thesis by (simp add: hbi_section_def Let_def)
qed

lemma layout_split:
  assumes "\<forall>x. length (sha x) = 32" and "length schema_id = 16" and "length fp = 32"
  obtains hdr zs where "length hdr = 112" and "hbi_layout sha schema_id fp flags ss =
    hdr @ concat (map (entry_of sha) (place (112 + 56 * length ss) ss)) @ body_from (112 + 56 * length ss) ss @ zs"
proof -
  have "length (hbi_header flags n tot schema_id fp (sha x)) = 112" for n tot x
    using assms by (simp add: hbi_header_def)
  then show ?thesis using that unfolding hbi_layout_def Let_def by blast
qed

lemma encoded_section:
  assumes enc: "encode_hbi_with_identity sha schema_id fp flags sections = Ok bytes"
    and sha: "\<forall>x. length (sha x) = 32" and id: "length schema_id = 16" and fp: "length fp = 32"
    and r: "hbi_open sha bytes = Ok r" and i: "i < length sections"
  shows "hbi_section r i = Ok (Some (wf_kind (sort_key wf_kind sections ! i), wf_bytes (sort_key wf_kind sections ! i)))"
    and "si_flags (rd_sections r ! i) = wf_flags (sort_key wf_kind sections ! i)"
proof -
  let ?ss = "sort_key wf_kind sections" and ?c = "112 + 56 * length sections"
  note l = encode_hbi_layout [OF enc sha id fp] and w = hbi_open_wf [OF r]
  have rd: "rd_sections r = map info_of (place ?c ?ss)"
    using encode_open_hbi [OF enc sha id fp] r by simp
  obtain off s where ps: "place ?c ?ss ! i = (off, s)" by fastforce
  with i have mem: "(off, s) \<in> set (place ?c ?ss)" by (metis length_place length_sort nth_mem)
  have s: "s = ?ss ! i" using ps i by (metis length_place length_sort map_snd_place nth_map snd_conv)
  have len: "length bytes = layout_total ?ss" unfolding l(1) by (rule length_layout [OF sha id fp])
  have lt: "length bytes < usize_lim" using l(4) len by (simp add: usize_lim_def)
  have d: "unat (of_nat (length bytes) :: u64) = length bytes" using lt by (rule u64_of_nat)
  obtain hdr zs where "length hdr = 112" "bytes = hdr @ concat (map (entry_of sha) (place ?c ?ss)) @ body_from ?c ?ss @ zs"
    using layout_split [OF sha id fp, of flags ?ss] by (metis l(1) length_sort)
  from open_entries_layout(2) [OF sha this(1), of bytes ?ss zs "of_nat (length bytes)" off s] this(2) mem d
  have data: "take (length (wf_bytes s)) (drop off bytes) = wf_bytes s" by simp
  have bd: "c \<le> align8 c" for c by (rule align8_ge)
  have "unat (of_nat off :: u64) = off" "unat (of_nat (length (wf_bytes s)) :: u64) = length (wf_bytes s)"
    using place_bounds [OF mem] lt len bd [of "?c + length (body_from ?c ?ss)"]
    by (simp_all add: layout_total_def u64_of_nat)
  with accepted_section_data [OF w(1), of i] data i ps
  show "hbi_section r i = Ok (Some (wf_kind (?ss ! i), wf_bytes (?ss ! i)))"
    by (simp add: rd info_of_def section_bytes_def w(2) s)
  from ps i show "si_flags (rd_sections r ! i) = wf_flags (?ss ! i)" by (simp add: rd info_of_def s)
qed

text \<open>
  C5: opening an encoded container gives back what was encoded: the flags, the schema identity, and
  for every index the kind, the flags and the bytes of that section, in ascending order of kind.
  The digest is any function with 32-byte results.
\<close>

theorem hbi_roundtrip:
  assumes "encode_hbi_with_identity sha schema_id fp flags sections = Ok bytes"
    and "\<forall>x. length (sha x) = 32" and "length schema_id = 16" and "length fp = 32"
  shows "\<exists>r. hbi_open sha bytes = Ok r \<and> section_count r = length sections
    \<and> rd_metadata r = \<lparr>md_flags = flags, md_schema_id = schema_id, md_schema_fingerprint = fp,
          md_total_len = of_nat (length bytes)\<rparr>
    \<and> (\<forall>i < length sections. let s = sort_key wf_kind sections ! i in
         hbi_section r i = Ok (Some (wf_kind s, wf_bytes s)) \<and> si_flags (rd_sections r ! i) = wf_flags s)"
  using encode_open_hbi [OF assms] encoded_section [OF assms encode_open_hbi [OF assms]]
  by (simp add: section_count_def Let_def)

theorem hbi_roundtrip_witness:
  "\<exists>bytes r. encode_hbi_with_identity flat_sha (replicate 16 3) (replicate 32 4) 1 toy_sections = Ok bytes
    \<and> hbi_open flat_sha bytes = Ok r \<and> hbi_section r 0 = Ok (Some (1, [9])) \<and> hbi_section r 1 = Ok (Some (2, [1, 2, 3]))"
proof -
  obtain bytes where b: "encode_hbi_with_identity flat_sha (replicate 16 3) (replicate 32 4) 1 toy_sections = Ok bytes"
    by (rule toy_container)
  from hbi_roundtrip [OF b flat_sha_length] obtain r where "hbi_open flat_sha bytes = Ok r"
      "\<forall>i < length toy_sections. hbi_section r i =
         Ok (Some (wf_kind (sort_key wf_kind toy_sections ! i), wf_bytes (sort_key wf_kind toy_sections ! i)))"
    by (auto simp: Let_def)
  moreover from this(2) have "hbi_section r 0 = Ok (Some (1, [9]))" "hbi_section r 1 = Ok (Some (2, [1, 2, 3]))"
    by (simp_all add: toy_sections_sorted) (simp_all add: toy_sections_def)
  ultimately show ?thesis using b by blast
qed

text \<open>
  C17: the reader is safe on hostile bytes: no input makes \<open>open\<close> slice or index out of range, and
  reading any section of an accepted container never does either.
\<close>

theorem hbi_open_is_safe:
  "hbi_open sha bytes \<noteq> Panic \<and> (hbi_open sha bytes = Ok r \<longrightarrow> hbi_section r i \<noteq> Panic)"
proof (intro conjI impI)
  show "hbi_open sha bytes \<noteq> Panic" by (rule hbi_open_never_panics)
  assume "hbi_open sha bytes = Ok r"
  then have "hbi_wf sha r" by (rule hbi_open_wf)
  then show "hbi_section r i \<noteq> Panic"
    using accepted_section_data by (cases "i < length (rd_sections r)") (auto simp: hbi_section_def)
qed

theorem hbi_open_is_safe_witness:
  "\<exists>bytes r. hbi_open flat_sha bytes = Ok r \<and> hbi_section r 1 \<noteq> Panic \<and> hbi_open flat_sha [] \<noteq> Panic"
proof -
  obtain bytes where "encode_hbi_with_identity flat_sha (replicate 16 3) (replicate 32 4) 1 toy_sections = Ok bytes"
    by (rule toy_container)
  from encode_open_hbi [OF this flat_sha_length] obtain r where "hbi_open flat_sha bytes = Ok r" by simp
  with hbi_open_is_safe [of flat_sha bytes r 1] hbi_open_is_safe [of flat_sha "[]" r 1] show ?thesis by blast
qed

text \<open>
  In an accepted container every section starts on a multiple of 8 after the directory and ends
  inside the file, no two sections overlap, and every byte outside the header, the directory and the
  sections is zero, so no data hides between them.
\<close>

theorem hbi_sections_tile:
  assumes "hbi_open sha bytes = Ok r"
  shows "(\<forall>s \<in> set (rd_sections r). unat (si_offset s) mod 8 = 0
            \<and> 112 + 56 * section_count r \<le> unat (si_offset s)
            \<and> unat (si_offset s) + unat (si_length s) \<le> length bytes)
    \<and> (\<forall>i j. i < j \<and> j < section_count r \<longrightarrow> disjoint_sections (rd_sections r ! i) (rd_sections r ! j))
    \<and> (\<forall>k < length bytes. 112 + 56 * section_count r \<le> k \<and> bytes ! k \<noteq> 0 \<longrightarrow>
         (\<exists>s \<in> set (rd_sections r). unat (si_offset s) \<le> k \<and> k < unat (si_offset s) + unat (si_length s)))"
proof (intro conjI)
  note w = hbi_open_wf [OF assms]
  show "\<forall>s \<in> set (rd_sections r). unat (si_offset s) mod 8 = 0
            \<and> 112 + 56 * section_count r \<le> unat (si_offset s)
            \<and> unat (si_offset s) + unat (si_length s) \<le> length bytes"
    using w by (auto simp: hbi_wf_def Let_def in_bounds_def section_count_def)
  show "\<forall>i j. i < j \<and> j < section_count r \<longrightarrow> disjoint_sections (rd_sections r ! i) (rd_sections r ! j)"
    using accepted_sections_disjoint [OF w(1)] by (auto simp: section_count_def sorted_wrt_iff_nth_less)
  show "\<forall>k < length bytes. 112 + 56 * section_count r \<le> k \<and> bytes ! k \<noteq> 0 \<longrightarrow>
         (\<exists>s \<in> set (rd_sections r). unat (si_offset s) \<le> k \<and> k < unat (si_offset s) + unat (si_length s))"
    using zero_outside_sections [OF w] by (auto simp: section_count_def)
qed

theorem hbi_sections_tile_witness:
  "\<exists>bytes r. hbi_open flat_sha bytes = Ok r \<and> section_count r = 2
     \<and> disjoint_sections (rd_sections r ! 0) (rd_sections r ! 1)"
proof -
  obtain bytes where "encode_hbi_with_identity flat_sha (replicate 16 3) (replicate 32 4) 1 toy_sections = Ok bytes"
    by (rule toy_container)
  from encode_open_hbi [OF this flat_sha_length] obtain r
    where r: "hbi_open flat_sha bytes = Ok r" "section_count r = 2"
    by (simp add: section_count_def toy_sections_def)
  then have "(0::nat) < 1 \<and> 1 < section_count r" by simp
  with hbi_sections_tile [OF r(1)] r show ?thesis by blast
qed

text \<open>
  The 32-byte content checksum in the header fixes the whole file. Two accepted containers with
  the same checksum are byte for byte equal, or the two streams the checksum covers are an explicit
  collision of the digest.
\<close>

theorem hbi_checksum_binds_file:
  assumes "hbi_open sha bytes = Ok r" and "hbi_open sha bytes' = Ok r'"
    and "take 32 (drop 80 bytes) = take 32 (drop 80 bytes')"
  shows "bytes = bytes' \<or> (hbi_stream r \<noteq> hbi_stream r' \<and> sha (hbi_stream r) = sha (hbi_stream r'))"
proof -
  note w = hbi_open_wf [OF assms(1)] and w' = hbi_open_wf [OF assms(2)]
  have "sha (hbi_stream r) = sha (hbi_stream r')" using w w' assms(3) by (simp add: hbi_wf_def Let_def)
  then show ?thesis
    using bytes_determined [OF assms(1,2)] hbi_stream_inject [OF w(1) w'(1)] by blast
qed

theorem hbi_checksum_binds_file_witness:
  "\<exists>bytes r. hbi_open flat_sha bytes = Ok r \<and> take 32 (drop 80 bytes) = take 32 (drop 80 bytes)
     \<and> (bytes = bytes \<or> (hbi_stream r \<noteq> hbi_stream r \<and> flat_sha (hbi_stream r) = flat_sha (hbi_stream r)))"
proof -
  obtain bytes where "encode_hbi_with_identity flat_sha (replicate 16 3) (replicate 32 4) 1 toy_sections = Ok bytes"
    by (rule toy_container)
  from encode_open_hbi [OF this flat_sha_length] obtain r where "hbi_open flat_sha bytes = Ok r" by simp
  with hbi_checksum_binds_file [OF this this] show ?thesis by blast
qed

end
