(* ===== verification/BTree_Map.thy ===== *)
theory BTree_Map
  imports Prelude
begin

text \<open>
  \<open>BTreeMap\<close> and \<open>BTreeSet\<close> of the Rust standard library. A map is the list of its entries in
  ascending order of the key, the order in which \<open>values()\<close> and \<open>iter()\<close> visit them. The locale
  \<open>ordered_map\<close> is what its clients rely on; the interpretation discharges it for the entry list.
\<close>

section \<open>Operations\<close>

type_synonym ('k, 'v) btree = "('k \<times> 'v) list"

fun bt_get :: "('k, 'v) btree \<Rightarrow> 'k \<Rightarrow> 'v option" where
  "bt_get [] k = None"
| "bt_get ((k', v) # m) k = (if k = k' then Some v else bt_get m k)"

fun bt_insert :: "'k::linorder \<Rightarrow> 'v \<Rightarrow> ('k, 'v) btree \<Rightarrow> ('k, 'v) btree" where
  "bt_insert k v [] = [(k, v)]"
| "bt_insert k v ((k', v') # m) =
     (if k < k' then (k, v) # (k', v') # m
      else if k = k' then (k, v) # m
      else (k', v') # bt_insert k v m)"

fun bt_remove :: "'k \<Rightarrow> ('k, 'v) btree \<Rightarrow> ('k, 'v) btree" where
  "bt_remove k [] = []"
| "bt_remove k ((k', v') # m) = (if k = k' then m else (k', v') # bt_remove k m)"

definition bt_contains_key :: "('k, 'v) btree \<Rightarrow> 'k \<Rightarrow> bool" where
  "bt_contains_key m k \<longleftrightarrow> bt_get m k \<noteq> None"

definition bt_values :: "('k, 'v) btree \<Rightarrow> 'v list" where
  "bt_values m = map snd m"

definition bt_inv :: "('k::linorder, 'v) btree \<Rightarrow> bool" where
  "bt_inv m \<longleftrightarrow> sorted_wrt (<) (map fst m)"

section \<open>The interface\<close>

locale ordered_map =
  fixes empty :: "'m" and get :: "'m \<Rightarrow> 'k \<Rightarrow> 'v option" and insert :: "'k \<Rightarrow> 'v \<Rightarrow> 'm \<Rightarrow> 'm"
    and remove :: "'k \<Rightarrow> 'm \<Rightarrow> 'm" and size' :: "'m \<Rightarrow> nat" and inv :: "'m \<Rightarrow> bool"
  assumes inv_empty: "inv empty"
    and inv_insert: "inv m \<Longrightarrow> inv (insert k v m)"
    and inv_remove: "inv m \<Longrightarrow> inv (remove k m)"
    and get_empty: "get empty k = None"
    and get_insert: "inv m \<Longrightarrow> get (insert k v m) k' = (if k' = k then Some v else get m k')"
    and get_remove: "inv m \<Longrightarrow> get (remove k m) k' = (if k' = k then None else get m k')"
    and size_empty: "size' empty = 0"
    and size_insert: "inv m \<Longrightarrow> size' (insert k v m) = (if get m k = None then Suc (size' m) else size' m)"
begin

text \<open>Overwriting the value of a present key, as through \<open>get_mut\<close>, keeps the size and the other keys.\<close>

lemma size_overwrite: "inv m \<Longrightarrow> get m k = Some v \<Longrightarrow> size' (insert k v' m) = size' m"
  by (simp add: size_insert)

lemma get_overwrite: "inv m \<Longrightarrow> k' \<noteq> k \<Longrightarrow> get (insert k v m) k' = get m k'"
  by (simp add: get_insert)

text \<open>A property of every entry survives an insertion of an entry that has it.\<close>

lemma all_insert:
  "inv m \<Longrightarrow> (\<And>k v. get m k = Some v \<Longrightarrow> P k v) \<Longrightarrow> P k v \<Longrightarrow> get (insert k v m) k' = Some v' \<Longrightarrow> P k' v'"
  by (simp add: get_insert split: if_splits)

lemma size_insert_le: "inv m \<Longrightarrow> size' (insert k v m) \<le> Suc (size' m)"
  by (simp add: size_insert)

lemma all_remove:
  "inv m \<Longrightarrow> (\<And>k v. get m k = Some v \<Longrightarrow> P k v) \<Longrightarrow> get (remove k m) k' = Some v' \<Longrightarrow> P k' v'"
  by (simp add: get_remove split: if_splits)

end

section \<open>The entry list satisfies the interface\<close>

lemma bt_get_None: "bt_get m k = None \<longleftrightarrow> k \<notin> fst ` set m"
  by (induction m k rule: bt_get.induct) auto

lemma bt_get_Some: "bt_inv m \<Longrightarrow> bt_get m k = Some v \<longleftrightarrow> (k, v) \<in> set m"
  by (induction m k rule: bt_get.induct) (force simp: bt_inv_def)+

lemma set_bt_insert_keys: "fst ` set (bt_insert k v m) = Set.insert k (fst ` set m)"
  by (induction k v m rule: bt_insert.induct) auto

lemma bt_inv_insert: "bt_inv m \<Longrightarrow> bt_inv (bt_insert k v m)"
proof (induction k v m rule: bt_insert.induct)
  case (2 k v k' v' m)
  have "\<forall>x \<in> fst ` set (bt_insert k v m). k' < x" if "k' < k"
    using that "2.prems" by (auto simp: set_bt_insert_keys bt_inv_def)
  with 2 show ?case by (auto simp: bt_inv_def)
qed (simp add: bt_inv_def)

lemma bt_inv_remove: "bt_inv m \<Longrightarrow> bt_inv (bt_remove k m)"
proof (induction k m rule: bt_remove.induct)
  case (2 k k' v' m)
  have "set (bt_remove k m) \<subseteq> set m" by (induction m) (auto split: if_splits)
  with 2 show ?case by (auto simp: bt_inv_def)
qed (simp add: bt_inv_def)

lemma bt_get_insert: "bt_get (bt_insert k v m) k' = (if k' = k then Some v else bt_get m k')"
  by (induction k v m rule: bt_insert.induct) auto

lemma bt_get_remove: "bt_inv m \<Longrightarrow> bt_get (bt_remove k m) k' = (if k' = k then None else bt_get m k')"
proof (induction k m rule: bt_remove.induct)
  case (2 k k2 v2 m)
  then have "bt_get m k2 = None" by (auto simp: bt_get_None bt_inv_def)
  with 2 show ?case by (auto simp: bt_inv_def)
qed simp

lemma length_bt_insert:
  "bt_inv m \<Longrightarrow> length (bt_insert k v m) = (if bt_get m k = None then Suc (length m) else length m)"
proof (induction k v m rule: bt_insert.induct)
  case (2 k v k' v' m)
  have "bt_get m k = None" if "k < k'" using that "2.prems" by (force simp: bt_get_None bt_inv_def)
  with 2 show ?case by (auto simp: bt_inv_def)
qed simp

interpretation bt: ordered_map "[]" bt_get bt_insert bt_remove length bt_inv
  by unfold_locales
     (simp_all add: bt_inv_insert bt_inv_remove bt_get_insert bt_get_remove length_bt_insert, simp add: bt_inv_def)

lemma bt_values_mem: "bt_inv m \<Longrightarrow> v \<in> set (bt_values m) \<longleftrightarrow> (\<exists>k. bt_get m k = Some v)"
  by (force simp: bt_values_def bt_get_Some)

text \<open>Inserting the greatest key appends, so inserting the entries in order rebuilds the map.\<close>

lemma bt_insert_append: "\<forall>x \<in> fst ` set m. x < k \<Longrightarrow> bt_insert k v m = m @ [(k, v)]"
  by (induction k v m rule: bt_insert.induct) auto

lemma bt_insert_overwrite_self: "bt_inv m \<Longrightarrow> bt_get m k = Some v \<Longrightarrow> bt_insert k v m = m"
proof (induction k v m rule: bt_insert.induct)
  case (2 k v k' v' m)
  then show ?case by (force simp: bt_inv_def bt_get_Some)
qed simp

end
