(* ===== verification/Rust_Text.thy ===== *)
theory Rust_Text
  imports Rust_Std "HOL-Library.Sublist"
begin

text \<open>
  The string operations of the Rust standard library that the session registry, the operational
  inbox and the repository map cache call. A string is the list of its UTF-8 bytes.
\<close>

definition is_ascii_alphanumeric :: "char \<Rightarrow> bool" where
  "is_ascii_alphanumeric c \<longleftrightarrow> (48 \<le> ord c \<and> ord c \<le> 57) \<or> (65 \<le> ord c \<and> ord c \<le> 90) \<or> (97 \<le> ord c \<and> ord c \<le> 122)"

definition ascii_lower :: "char \<Rightarrow> char" where
  "ascii_lower c = (if 65 \<le> ord c \<and> ord c \<le> 90 then char_of (ord c + 32) else c)"

definition to_ascii_lowercase :: "string \<Rightarrow> string" where
  "to_ascii_lowercase s = map ascii_lower s"

text \<open>\<open>str::find\<close> of a string pattern: the first byte index at which it occurs.\<close>

fun find_str :: "string \<Rightarrow> string \<Rightarrow> nat option" where
  "find_str [] p = (if p = [] then Some 0 else None)"
| "find_str (c # s) p = (if prefix p (c # s) then Some 0 else map_option Suc (find_str s p))"

definition contains :: "string \<Rightarrow> string \<Rightarrow> bool" where
  "contains s p \<longleftrightarrow> find_str s p \<noteq> None"

definition starts_with :: "string \<Rightarrow> string \<Rightarrow> bool" where
  "starts_with s p \<longleftrightarrow> prefix p s"

text \<open>
  \<open>chars().any(char::is_control)\<close>: U+0000 to U+001F and U+007F are one byte, U+0080 to U+009F are
  the byte C2 and a byte below A0.
\<close>

fun has_control :: "string \<Rightarrow> bool" where
  "has_control [] = False"
| "has_control (c # s) =
     (ord c < 32 \<or> ord c = 127 \<or> (ord c = 194 \<and> (case s of [] \<Rightarrow> False | d # _ \<Rightarrow> 128 \<le> ord d \<and> ord d < 160))
      \<or> has_control s)"

text \<open>\<open>str::chars\<close>: the characters of a UTF-8 string, each as its bytes.\<close>

function chars_of :: "string \<Rightarrow> string list" where
  "chars_of s = (case utf8_tail s of None \<Rightarrow> [] | Some r \<Rightarrow> take (length s - length r) s # chars_of r)"
  by pat_completeness auto
termination
  by (relation "measure length") (auto dest: utf8_tail_shorter)

declare chars_of.simps [simp del]

text \<open>
  \<open>str::find(char::is_whitespace)\<close>: byte index of the first character of the Unicode property
  White_Space, on its UTF-8 bytes.
\<close>

fun whitespace_at :: "string \<Rightarrow> bool" where
  "whitespace_at [] = False"
| "whitespace_at (a # s) =
     ((9 \<le> ord a \<and> ord a \<le> 13) \<or> ord a = 32
      \<or> (case s of [] \<Rightarrow> False | b # t \<Rightarrow>
           (ord a = 194 \<and> (ord b = 133 \<or> ord b = 160))
           \<or> (case t of [] \<Rightarrow> False | c # _ \<Rightarrow>
                (ord a = 225 \<and> ord b = 154 \<and> ord c = 128)
                \<or> (ord a = 226 \<and> ord b = 128 \<and> ((128 \<le> ord c \<and> ord c \<le> 138) \<or> ord c \<in> {168, 169, 175}))
                \<or> (ord a = 226 \<and> ord b = 129 \<and> ord c = 159)
                \<or> (ord a = 227 \<and> ord b = 128 \<and> ord c = 128))))"

fun find_whitespace :: "string \<Rightarrow> nat option" where
  "find_whitespace [] = None"
| "find_whitespace (c # s) = (if whitespace_at (c # s) then Some 0 else map_option Suc (find_whitespace s))"

text \<open>\<open>str::trim\<close>, on the characters of the string.\<close>

definition trim_str :: "string \<Rightarrow> string" where
  "trim_str s = concat (rev (dropWhile whitespace_at (rev (dropWhile whitespace_at (chars_of s)))))"

text \<open>\<open>s.trim().is_empty()\<close>, the test for a missing name.\<close>

definition is_blank :: "string \<Rightarrow> bool" where
  "is_blank s \<longleftrightarrow> trim_str s = []"

text \<open>
  \<open>str::parse\<close> of the unsigned integer types: an optional plus sign, at least one digit, and a value that fits.
\<close>

definition is_digit :: "char \<Rightarrow> bool" where
  "is_digit c \<longleftrightarrow> 48 \<le> ord c \<and> ord c \<le> 57"

definition parse_unsigned :: "nat \<Rightarrow> string \<Rightarrow> nat option" where
  "parse_unsigned bound s =
     (let ds = (case s of c # cs \<Rightarrow> if c = CHR ''+'' then cs else s | [] \<Rightarrow> s) in
      if ds \<noteq> [] \<and> list_all is_digit ds \<and> dec_value ds < bound then Some (dec_value ds) else None)"

lemma dec_string_digits: "c \<in> set (dec_string n) \<Longrightarrow> 48 \<le> ord c \<and> ord c \<le> 57"
proof (induction n rule: dec_string.induct)
  case (1 n)
  then show ?case
    by (cases "n < 10") (auto simp: dec_string.simps [of n])
qed

lemma parse_dec_string:
  assumes "n < bound"
  shows "parse_unsigned bound (dec_string n) = Some n"
proof -
  have digits: "list_all is_digit (dec_string n)" by (auto simp: list_all_iff is_digit_def dest: dec_string_digits)
  obtain c cs where cs: "dec_string n = c # cs"
    by (cases "dec_string n") (metis dec_string.simps append_is_Nil_conv list.distinct(1))+
  have "ord c \<ge> 48" using dec_string_digits [of c n] by (simp add: cs)
  then have "c \<noteq> CHR ''+''" by auto
  then have "(case dec_string n of c # cs \<Rightarrow> if c = CHR ''+'' then cs else dec_string n | [] \<Rightarrow> dec_string n) = dec_string n"
    by (simp add: cs)
  with digits assms show ?thesis unfolding parse_unsigned_def Let_def by (simp add: dec_value_dec_string cs [symmetric]) (simp add: cs)
qed

lemma ord_ascii_lower: "ord (ascii_lower c) = (if 65 \<le> ord c \<and> ord c \<le> 90 then ord c + 32 else ord c)"
  by (simp add: ascii_lower_def)

lemma to_ascii_lowercase_length [simp]: "length (to_ascii_lowercase s) = length s"
  by (simp add: to_ascii_lowercase_def)

lemma ascii_lower_idem: "ascii_lower (ascii_lower c) = ascii_lower c"
  by (simp add: ascii_lower_def)

lemma to_ascii_lowercase_idem [simp]: "to_ascii_lowercase (to_ascii_lowercase s) = to_ascii_lowercase s"
  by (simp add: to_ascii_lowercase_def ascii_lower_idem)

lemma find_str_Some:
  "find_str s p = Some i \<Longrightarrow> i + length p \<le> length s \<and> take (length p) (drop i s) = p"
proof (induction s arbitrary: i)
  case (Cons c s)
  show ?case
  proof (cases "prefix p (c # s)")
    case True
    with Cons.prems prefix_length_le [OF True] show ?thesis by (auto simp: prefix_def)
  next
    case False
    with Cons.prems obtain j where "i = Suc j" "find_str s p = Some j" by auto
    with Cons.IH show ?thesis by simp
  qed
qed (auto split: if_splits)

lemma contains_iff_sublist: "contains s p \<longleftrightarrow> sublist p s"
  unfolding contains_def
proof (induction s)
  case (Cons c s)
  then show ?case by (auto simp: sublist_Cons_right)
qed auto

lemma contains_split: "contains s p \<longleftrightarrow> (\<exists>a b. s = a @ p @ b)"
  by (simp add: contains_iff_sublist sublist_def)

end
