(* ===== verification/Session_Registry.thy ===== *)
theory Session_Registry
  imports BTree_Map Rust_Text
begin

text \<open>
  The canonical session index of \<^verbatim>\<open>simplicio-runtime-client/src/session_registry.rs\<close>: bounded
  session records keyed by session id, their lifecycle, the attached clients, the replay cursor and
  the notifications already emitted. A method that takes \<open>&mut self\<close> is a function from the
  registry to the registry and its \<open>Result\<close>, because an error may have changed the state.
\<close>

section \<open>Data\<close>

definition SESSION_REGISTRY_SCHEMA_V1 :: string where
  "SESSION_REGISTRY_SCHEMA_V1 = ''simplicio.session-registry/v1''"
definition SESSION_REGISTRY_SCHEMA_V0 :: string where
  "SESSION_REGISTRY_SCHEMA_V0 = ''simplicio.session-registry/v0''"
definition MAX_SESSIONS :: nat where "MAX_SESSIONS = 10000"
definition MAX_CLIENTS_PER_SESSION :: nat where "MAX_CLIENTS_PER_SESSION = 16"
definition MAX_REPLAY_EVENTS :: u64 where "MAX_REPLAY_EVENTS = 1024"
definition MAX_ID_BYTES :: nat where "MAX_ID_BYTES = 128"
definition MAX_LABEL_BYTES :: nat where "MAX_LABEL_BYTES = 256"

datatype RegistryError =
  RegInvalidPayload | RegUnknownSession | RegDuplicateSession | RegCapacityExceeded | RegInvalidTransition
| RegStaleCursor | RegFutureCursor | RegReplayTooLarge | RegHostInstanceMismatch | RegDelayedResponse

datatype SessionKind = Coordinator | Work

datatype SessionStatus =
  Active | Detached | Paused | Cancelling | Cancelled | Closed | WaitingApproval | Blocked | Failed | Done | Degraded

datatype NotificationKind = NkWaitingApproval | NkBlocked | NkFailed | NkDone | NkDegraded

datatype ResyncReason = HostRestart

datatype DegradedReason =
  DegInvalidPayload | DegUnknownSession | DegStaleCursor | DegFutureCursor | DegReplayTooLarge
| DegHostInstanceMismatch | DegDelayedResponse

text \<open>The derived \<open>Ord\<close>: the order of the variants.\<close>

fun notification_rank :: "NotificationKind \<Rightarrow> nat" where
  "notification_rank NkWaitingApproval = 0"
| "notification_rank NkBlocked = 1"
| "notification_rank NkFailed = 2"
| "notification_rank NkDone = 3"
| "notification_rank NkDegraded = 4"

lemma notification_rank_inject: "notification_rank a = notification_rank b \<Longrightarrow> a = b"
  by (cases a; cases b) auto

instantiation NotificationKind :: linorder
begin

definition less_eq_NotificationKind :: "NotificationKind \<Rightarrow> NotificationKind \<Rightarrow> bool" where
  "less_eq_NotificationKind a b \<longleftrightarrow> notification_rank a \<le> notification_rank b"

definition less_NotificationKind :: "NotificationKind \<Rightarrow> NotificationKind \<Rightarrow> bool" where
  "less_NotificationKind a b \<longleftrightarrow> notification_rank a < notification_rank b"

instance
  by standard
     (auto simp: less_eq_NotificationKind_def less_NotificationKind_def intro: notification_rank_inject)

end

fun terminal :: "SessionStatus \<Rightarrow> bool" where
  "terminal s = (s \<in> {Cancelled, Closed, Failed, Done})"

fun notification_kind :: "SessionStatus \<Rightarrow> NotificationKind option" where
  "notification_kind WaitingApproval = Some NkWaitingApproval"
| "notification_kind Blocked = Some NkBlocked"
| "notification_kind Failed = Some NkFailed"
| "notification_kind Done = Some NkDone"
| "notification_kind Degraded = Some NkDegraded"
| "notification_kind _ = None"

record SessionMetadata =
  mt_space_id :: string
  mt_project_id :: string
  mt_workspace_id :: string
  mt_agent_label :: string
  mt_goal_label :: string
  mt_branch_label :: "string option"
  mt_worktree_label :: "string option"

record SessionRecord =
  sr_session_id :: string
  sr_kind :: SessionKind
  sr_metadata :: SessionMetadata
  sr_status :: SessionStatus
  sr_blocked :: bool
  sr_last_activity_ms :: u64
  sr_external_handle_id :: string
  sr_host_instance_id :: string
  sr_cursor :: u64
  sr_response_sequence :: u64
  sr_attached_clients :: "string list"
  sr_emitted_notifications :: "NotificationKind list"
  sr_resync_reason :: "ResyncReason option"
  sr_degraded_reason :: "DegradedReason option"

record RegistrySnapshot =
  snap_schema :: string
  snap_sessions :: "SessionRecord list"

record SessionQuery =
  q_space_id :: "string option"
  q_project_id :: "string option"
  q_workspace_id :: "string option"
  q_status :: "SessionStatus option"
  q_goal :: "string option"

record Notification =
  nt_session_id :: string
  nt_kind :: NotificationKind
  nt_steals_focus :: bool

datatype ReconnectOutcome = Replay u64 u64 | Resync u64 ResyncReason

record SessionRegistry =
  reg_sessions :: "(string, SessionRecord) btree"

section \<open>Validation\<close>

definition id_byte :: "char \<Rightarrow> bool" where
  "id_byte b \<longleftrightarrow> is_ascii_alphanumeric b \<or> b \<in> {CHR ''-'', CHR ''_'', CHR ''.'', CHR '':''}"

definition validate_id :: "string \<Rightarrow> (RegistryError, unit) res" where
  "validate_id value =
     (if value = [] \<or> length value > MAX_ID_BYTES \<or> \<not> list_all id_byte value
      then Err RegInvalidPayload else Ok ())"

definition looks_secret :: "string \<Rightarrow> bool" where
  "looks_secret value \<longleftrightarrow>
     list_ex (contains (to_ascii_lowercase value))
       [''bearer '', ''api_key'', ''apikey'', ''password'', ''secret='', ''token='']"

definition looks_absolute_path :: "string \<Rightarrow> bool" where
  "looks_absolute_path value \<longleftrightarrow>
     starts_with value ''/'' \<or> starts_with value [CHR 92, CHR 92] \<or> (1 < length value \<and> value ! 1 = CHR '':'')"

definition validate_label :: "string \<Rightarrow> (RegistryError, unit) res" where
  "validate_label value =
     (if value = [] \<or> length value > MAX_LABEL_BYTES \<or> has_control value \<or> looks_secret value
         \<or> looks_absolute_path value
      then Err RegInvalidPayload else Ok ())"

fun validate_opt_label :: "string option \<Rightarrow> (RegistryError, unit) res" where
  "validate_opt_label None = Ok ()"
| "validate_opt_label (Some value) = validate_label value"

definition validate_metadata :: "SessionMetadata \<Rightarrow> (RegistryError, unit) res" where
  "validate_metadata m =
     try_res (validate_id (mt_space_id m)) (\<lambda>_.
     try_res (validate_id (mt_project_id m)) (\<lambda>_.
     try_res (validate_id (mt_workspace_id m)) (\<lambda>_.
     try_res (validate_label (mt_agent_label m)) (\<lambda>_.
     try_res (validate_label (mt_goal_label m)) (\<lambda>_.
     try_res (validate_opt_label (mt_branch_label m)) (\<lambda>_.
     validate_opt_label (mt_worktree_label m)))))))"

fun validate_ids :: "string list \<Rightarrow> (RegistryError, unit) res" where
  "validate_ids [] = Ok ()"
| "validate_ids (c # cs) = try_res (validate_id c) (\<lambda>_. validate_ids cs)"

definition validate_record :: "SessionRecord \<Rightarrow> (RegistryError, unit) res" where
  "validate_record r =
     try_res (validate_id (sr_session_id r)) (\<lambda>_.
     try_res (validate_metadata (sr_metadata r)) (\<lambda>_.
     try_res (validate_id (sr_external_handle_id r)) (\<lambda>_.
     try_res (validate_id (sr_host_instance_id r)) (\<lambda>_.
     if length (sr_attached_clients r) > MAX_CLIENTS_PER_SESSION then Err RegCapacityExceeded
     else validate_ids (sr_attached_clients r)))))"

section \<open>The registry\<close>

definition new_registry :: SessionRegistry where
  "new_registry = \<lparr>reg_sessions = []\<rparr>"

text \<open>The loop of \<open>restore\<close>: the map is filled before the duplicate is reported.\<close>

fun restore_loop ::
  "(string, SessionRecord) btree \<Rightarrow> SessionRecord list \<Rightarrow> (RegistryError, (string, SessionRecord) btree) res" where
  "restore_loop sessions [] = Ok sessions"
| "restore_loop sessions (r # rs) =
     try_res (validate_record r) (\<lambda>_.
     if bt_get sessions (sr_session_id r) \<noteq> None then Err RegDuplicateSession
     else restore_loop (bt_insert (sr_session_id r) r sessions) rs)"

definition restore :: "RegistrySnapshot \<Rightarrow> (RegistryError, SessionRegistry) res" where
  "restore snapshot =
     (if snap_schema snapshot \<noteq> SESSION_REGISTRY_SCHEMA_V1 \<and> snap_schema snapshot \<noteq> SESSION_REGISTRY_SCHEMA_V0
      then Err RegInvalidPayload
      else if length (snap_sessions snapshot) > MAX_SESSIONS then Err RegCapacityExceeded
      else try_res (restore_loop [] (snap_sessions snapshot)) (\<lambda>sessions. Ok \<lparr>reg_sessions = sessions\<rparr>))"

definition snapshot :: "SessionRegistry \<Rightarrow> RegistrySnapshot" where
  "snapshot reg = \<lparr>snap_schema = SESSION_REGISTRY_SCHEMA_V1, snap_sessions = bt_values (reg_sessions reg)\<rparr>"

text \<open>\<open>record_mut\<close> reads the record; a write through the reference it returns is \<open>put_record\<close>.\<close>

definition record_mut :: "SessionRegistry \<Rightarrow> string \<Rightarrow> (RegistryError, SessionRecord) res" where
  "record_mut reg session_id = ok_or RegUnknownSession (bt_get (reg_sessions reg) session_id)"

definition put_record :: "string \<Rightarrow> SessionRecord \<Rightarrow> SessionRegistry \<Rightarrow> SessionRegistry" where
  "put_record session_id r reg = reg\<lparr>reg_sessions := bt_insert session_id r (reg_sessions reg)\<rparr>"

definition get_session :: "SessionRegistry \<Rightarrow> string \<Rightarrow> (RegistryError, SessionRecord) res" where
  "get_session reg session_id = ok_or RegUnknownSession (bt_get (reg_sessions reg) session_id)"

definition new_record ::
  "string \<Rightarrow> SessionKind \<Rightarrow> SessionMetadata \<Rightarrow> string \<Rightarrow> string \<Rightarrow> u64 \<Rightarrow> SessionRecord" where
  "new_record session_id kind metadata external_handle_id host_instance_id now_ms =
     \<lparr>sr_session_id = session_id, sr_kind = kind, sr_metadata = metadata, sr_status = Detached,
      sr_blocked = False, sr_last_activity_ms = now_ms, sr_external_handle_id = external_handle_id,
      sr_host_instance_id = host_instance_id, sr_cursor = 0, sr_response_sequence = 0,
      sr_attached_clients = [], sr_emitted_notifications = [], sr_resync_reason = None,
      sr_degraded_reason = None\<rparr>"

definition create_session ::
  "string \<Rightarrow> SessionKind \<Rightarrow> SessionMetadata \<Rightarrow> string \<Rightarrow> string \<Rightarrow> u64 \<Rightarrow> SessionRegistry \<Rightarrow>
   SessionRegistry \<times> (RegistryError, SessionRecord) res" where
  "create_session session_id kind metadata external_handle_id host_instance_id now_ms reg =
     (if length (reg_sessions reg) \<ge> MAX_SESSIONS then (reg, Err RegCapacityExceeded)
      else
        st_try reg (validate_id session_id) (\<lambda>_.
        st_try reg (validate_metadata metadata) (\<lambda>_.
        st_try reg (validate_id external_handle_id) (\<lambda>_.
        st_try reg (validate_id host_instance_id) (\<lambda>_.
        if bt_contains_key (reg_sessions reg) session_id then (reg, Err RegDuplicateSession)
        else
          let r = new_record session_id kind metadata external_handle_id host_instance_id now_ms;
              reg = put_record session_id r reg
          in (reg, case bt_get (reg_sessions reg) session_id of Some r \<Rightarrow> Ok r | None \<Rightarrow> Panic))))))"

definition is_none_or :: "'a option \<Rightarrow> ('a \<Rightarrow> bool) \<Rightarrow> bool" where
  "is_none_or m p = (case m of None \<Rightarrow> True | Some v \<Rightarrow> p v)"

definition query_matches :: "SessionQuery \<Rightarrow> SessionRecord \<Rightarrow> bool" where
  "query_matches query r \<longleftrightarrow>
     is_none_or (q_space_id query) (\<lambda>v. mt_space_id (sr_metadata r) = v)
     \<and> is_none_or (q_project_id query) (\<lambda>v. mt_project_id (sr_metadata r) = v)
     \<and> is_none_or (q_workspace_id query) (\<lambda>v. mt_workspace_id (sr_metadata r) = v)
     \<and> is_none_or (q_status query) (\<lambda>v. sr_status r = v)
     \<and> is_none_or (map_option to_ascii_lowercase (q_goal query))
         (\<lambda>v. contains (to_ascii_lowercase (mt_goal_label (sr_metadata r))) v)"

definition list_sessions :: "SessionRegistry \<Rightarrow> SessionQuery \<Rightarrow> SessionRecord list" where
  "list_sessions reg query = filter (query_matches query) (bt_values (reg_sessions reg))"

definition touch :: "u64 \<Rightarrow> SessionRecord \<Rightarrow> SessionRecord" where
  "touch now_ms r = r\<lparr>sr_last_activity_ms := max (sr_last_activity_ms r) now_ms\<rparr>"

definition attach ::
  "string \<Rightarrow> string \<Rightarrow> u64 \<Rightarrow> SessionRegistry \<Rightarrow> SessionRegistry \<times> (RegistryError, string) res" where
  "attach session_id client_id now_ms reg =
     st_try reg (validate_id client_id) (\<lambda>_.
     st_try reg (record_mut reg session_id) (\<lambda>r.
     if terminal (sr_status r) \<or> sr_status r = Cancelling then (reg, Err RegInvalidTransition)
     else if client_id \<notin> set (sr_attached_clients r)
             \<and> length (sr_attached_clients r) \<ge> MAX_CLIENTS_PER_SESSION then (reg, Err RegCapacityExceeded)
     else
       (put_record session_id (touch now_ms
          (r\<lparr>sr_attached_clients := insort_insert client_id (sr_attached_clients r), sr_status := Active\<rparr>)) reg,
        Ok (sr_external_handle_id r))))"

definition detach ::
  "string \<Rightarrow> string \<Rightarrow> u64 \<Rightarrow> SessionRegistry \<Rightarrow> SessionRegistry \<times> (RegistryError, unit) res" where
  "detach session_id client_id now_ms reg =
     st_try reg (record_mut reg session_id) (\<lambda>r.
     let r = r\<lparr>sr_attached_clients := remove1 client_id (sr_attached_clients r)\<rparr>;
         r = (if sr_attached_clients r = [] \<and> sr_status r = Active then r\<lparr>sr_status := Detached\<rparr> else r)
     in (put_record session_id (touch now_ms r) reg, Ok ()))"

definition transition ::
  "string \<Rightarrow> u64 \<Rightarrow> SessionStatus list \<Rightarrow> SessionStatus \<Rightarrow> SessionRegistry \<Rightarrow>
   SessionRegistry \<times> (RegistryError, unit) res" where
  "transition session_id now_ms allowed target reg =
     st_try reg (record_mut reg session_id) (\<lambda>r.
     if sr_status r = target then (reg, Ok ())
     else if sr_status r \<notin> set allowed then (reg, Err RegInvalidTransition)
     else
       let r = touch now_ms (r\<lparr>sr_status := target\<rparr>);
           r = (if target = Closed then r\<lparr>sr_attached_clients := []\<rparr> else r)
       in (put_record session_id r reg, Ok ()))"

definition pause :: "string \<Rightarrow> u64 \<Rightarrow> SessionRegistry \<Rightarrow> SessionRegistry \<times> (RegistryError, unit) res" where
  "pause session_id now_ms = transition session_id now_ms [Active, Detached] Paused"

definition resume :: "string \<Rightarrow> u64 \<Rightarrow> SessionRegistry \<Rightarrow> SessionRegistry \<times> (RegistryError, unit) res" where
  "resume session_id now_ms reg =
     st_try reg (record_mut reg session_id) (\<lambda>r.
     if sr_status r \<noteq> Paused then (reg, Err RegInvalidTransition)
     else
       let r = r\<lparr>sr_status := (if sr_attached_clients r = [] then Detached else Active)\<rparr>
       in (put_record session_id (touch now_ms r) reg, Ok ()))"

definition cancel :: "string \<Rightarrow> u64 \<Rightarrow> SessionRegistry \<Rightarrow> SessionRegistry \<times> (RegistryError, unit) res" where
  "cancel session_id now_ms reg =
     st_try reg (get_session reg session_id) (\<lambda>r.
     if sr_status r = Cancelled \<or> sr_status r = Cancelling then (reg, Ok ())
     else transition session_id now_ms [Active, Detached, Paused, WaitingApproval, Blocked, Degraded] Cancelling reg)"

definition close :: "string \<Rightarrow> u64 \<Rightarrow> SessionRegistry \<Rightarrow> SessionRegistry \<times> (RegistryError, unit) res" where
  "close session_id now_ms reg =
     st_try reg (get_session reg session_id) (\<lambda>r.
     if sr_status r = Closed then (reg, Ok ())
     else transition session_id now_ms [Cancelled, Failed, Done] Closed reg)"

definition apply_status ::
  "string \<Rightarrow> SessionStatus \<Rightarrow> bool \<Rightarrow> u64 \<Rightarrow> SessionRegistry \<Rightarrow>
   SessionRegistry \<times> (RegistryError, Notification option) res" where
  "apply_status session_id status blocked now_ms reg =
     st_try reg (record_mut reg session_id) (\<lambda>r.
     if sr_status r = Closed then (reg, Err RegInvalidTransition)
     else if terminal (sr_status r) \<and> status \<noteq> sr_status r then (reg, Err RegInvalidTransition)
     else
       let r = (touch now_ms (r\<lparr>sr_status := status, sr_blocked := (blocked \<or> status = Blocked)\<rparr>))
                 \<lparr>sr_degraded_reason := None\<rparr>
       in case notification_kind status of
            None \<Rightarrow> (put_record session_id r reg, Ok None)
          | Some kind \<Rightarrow>
              if kind \<in> set (sr_emitted_notifications r) then (put_record session_id r reg, Ok None)
              else
                (put_record session_id
                   (r\<lparr>sr_emitted_notifications := insort_insert kind (sr_emitted_notifications r)\<rparr>) reg,
                 Ok (Some \<lparr>nt_session_id = session_id, nt_kind = kind, nt_steals_focus = False\<rparr>)))"

definition degrade ::
  "string \<Rightarrow> DegradedReason \<Rightarrow> RegistryError \<Rightarrow> SessionRegistry \<Rightarrow> SessionRegistry \<times> (RegistryError, 'a) res" where
  "degrade session_id reason error reg =
     (case record_mut reg session_id of
        Ok r \<Rightarrow> (put_record session_id (r\<lparr>sr_status := Degraded, sr_degraded_reason := Some reason\<rparr>) reg, Err error)
      | _ \<Rightarrow> (reg, Err error))"

definition reconnect ::
  "string \<Rightarrow> string \<Rightarrow> u64 \<Rightarrow> u64 \<Rightarrow> SessionRegistry \<Rightarrow> SessionRegistry \<times> (RegistryError, ReconnectOutcome) res" where
  "reconnect session_id discovered_host_instance_id requested_after_cursor replay_limit reg =
     st_try reg (validate_id discovered_host_instance_id) (\<lambda>_.
     if replay_limit = 0 \<or> replay_limit > MAX_REPLAY_EVENTS
     then degrade session_id DegReplayTooLarge RegReplayTooLarge reg
     else
       st_try reg (record_mut reg session_id) (\<lambda>r.
       if sr_host_instance_id r \<noteq> discovered_host_instance_id then
         (put_record session_id
            (r\<lparr>sr_host_instance_id := discovered_host_instance_id, sr_cursor := 0, sr_response_sequence := 0,
               sr_resync_reason := Some HostRestart, sr_degraded_reason := None\<rparr>) reg,
          Ok (Resync 0 HostRestart))
       else if requested_after_cursor < sr_cursor r then degrade session_id DegStaleCursor RegStaleCursor reg
       else if requested_after_cursor > sr_cursor r then degrade session_id DegFutureCursor RegFutureCursor reg
       else (reg, Ok (Replay (sr_cursor r) replay_limit))))"

definition checked_sub64 :: "u64 \<Rightarrow> u64 \<Rightarrow> u64 option" where
  "checked_sub64 a b = (if b \<le> a then Some (a - b) else None)"

definition apply_replay ::
  "string \<Rightarrow> string \<Rightarrow> u64 \<Rightarrow> u64 \<Rightarrow> u64 \<Rightarrow> SessionRegistry \<Rightarrow> SessionRegistry \<times> (RegistryError, unit) res" where
  "apply_replay session_id host_instance_id response_sequence from_cursor to_cursor reg =
     st_try reg (record_mut reg session_id) (\<lambda>r.
     if sr_host_instance_id r \<noteq> host_instance_id
     then degrade session_id DegHostInstanceMismatch RegHostInstanceMismatch reg
     else if response_sequence = sr_response_sequence r then
       (if to_cursor = sr_cursor r then (reg, Ok ())
        else degrade session_id DegDelayedResponse RegDelayedResponse reg)
     else if response_sequence < sr_response_sequence r
     then degrade session_id DegDelayedResponse RegDelayedResponse reg
     else if from_cursor \<noteq> sr_cursor r then
       (let (reason, error) = (if from_cursor < sr_cursor r then (DegStaleCursor, RegStaleCursor)
                               else (DegFutureCursor, RegFutureCursor))
        in degrade session_id reason error reg)
     else
       st_try reg (ok_or RegStaleCursor (checked_sub64 to_cursor from_cursor)) (\<lambda>count.
       if count > MAX_REPLAY_EVENTS then degrade session_id DegReplayTooLarge RegReplayTooLarge reg
       else
         (put_record session_id
            (r\<lparr>sr_cursor := to_cursor, sr_response_sequence := response_sequence,
               sr_resync_reason := None, sr_degraded_reason := None\<rparr>) reg,
          Ok ())))"

end
