(* ===== verification/Registry_Invariants.thy ===== *)
theory Registry_Invariants
  imports Session_Registry
begin

text \<open>
  What the session registry keeps under every sequence of calls: its invariant, the snapshot round
  trip, the replay cursor, the notifications and the lifecycle.
\<close>

section \<open>Calls and runs\<close>

datatype RegistryOp =
  OpCreate string SessionKind SessionMetadata string string u64
| OpAttach string string u64
| OpDetach string string u64
| OpPause string u64
| OpResume string u64
| OpCancel string u64
| OpClose string u64
| OpApplyStatus string SessionStatus bool u64
| OpReconnect string string u64 u64
| OpApplyReplay string string u64 u64 u64

datatype RegistryOut =
  OutErr RegistryError | OutPanic | OutRecord SessionRecord | OutHandle string | OutUnit
| OutNotification "Notification option" | OutReconnect ReconnectOutcome

fun out_of :: "('a \<Rightarrow> RegistryOut) \<Rightarrow> SessionRegistry \<times> (RegistryError, 'a) res \<Rightarrow> SessionRegistry \<times> RegistryOut" where
  "out_of f (reg, Ok x) = (reg, f x)"
| "out_of f (reg, Err e) = (reg, OutErr e)"
| "out_of f (reg, Panic) = (reg, OutPanic)"

fun exec :: "RegistryOp \<Rightarrow> SessionRegistry \<Rightarrow> SessionRegistry \<times> RegistryOut" where
  "exec (OpCreate sid kind md handle host now) reg = out_of OutRecord (create_session sid kind md handle host now reg)"
| "exec (OpAttach sid client now) reg = out_of OutHandle (attach sid client now reg)"
| "exec (OpDetach sid client now) reg = out_of (\<lambda>_. OutUnit) (detach sid client now reg)"
| "exec (OpPause sid now) reg = out_of (\<lambda>_. OutUnit) (pause sid now reg)"
| "exec (OpResume sid now) reg = out_of (\<lambda>_. OutUnit) (resume sid now reg)"
| "exec (OpCancel sid now) reg = out_of (\<lambda>_. OutUnit) (cancel sid now reg)"
| "exec (OpClose sid now) reg = out_of (\<lambda>_. OutUnit) (close sid now reg)"
| "exec (OpApplyStatus sid st b now) reg = out_of OutNotification (apply_status sid st b now reg)"
| "exec (OpReconnect sid host cur lim) reg = out_of OutReconnect (reconnect sid host cur lim reg)"
| "exec (OpApplyReplay sid host sq a b) reg = out_of (\<lambda>_. OutUnit) (apply_replay sid host sq a b reg)"

fun op_target :: "RegistryOp \<Rightarrow> string" where
  "op_target (OpCreate sid kind md handle host now) = sid"
| "op_target (OpAttach sid client now) = sid"
| "op_target (OpDetach sid client now) = sid"
| "op_target (OpPause sid now) = sid"
| "op_target (OpResume sid now) = sid"
| "op_target (OpCancel sid now) = sid"
| "op_target (OpClose sid now) = sid"
| "op_target (OpApplyStatus sid st b now) = sid"
| "op_target (OpReconnect sid host cur lim) = sid"
| "op_target (OpApplyReplay sid host sq a b) = sid"

fun run :: "RegistryOp list \<Rightarrow> SessionRegistry \<Rightarrow> SessionRegistry" where
  "run [] reg = reg"
| "run (op # ops) reg = run ops (fst (exec op reg))"

definition session_of :: "SessionRegistry \<Rightarrow> string \<Rightarrow> SessionRecord option" where
  "session_of reg sid = bt_get (reg_sessions reg) sid"

section \<open>How one call changes one record\<close>

definition record_ok :: "SessionRecord \<Rightarrow> bool" where
  "record_ok r \<longleftrightarrow> validate_record r = Ok ()
     \<and> sorted (sr_attached_clients r) \<and> distinct (sr_attached_clients r)
     \<and> sorted (sr_emitted_notifications r) \<and> distinct (sr_emitted_notifications r)"

definition same_session :: "SessionRecord \<Rightarrow> SessionRecord \<Rightarrow> bool" where
  "same_session r r' \<longleftrightarrow> sr_session_id r' = sr_session_id r \<and> sr_kind r' = sr_kind r
     \<and> sr_metadata r' = sr_metadata r \<and> sr_external_handle_id r' = sr_external_handle_id r"

definition cursor_advances :: "SessionRecord \<Rightarrow> SessionRecord \<Rightarrow> bool" where
  "cursor_advances r r' \<longleftrightarrow>
     (if sr_host_instance_id r' = sr_host_instance_id r
      then sr_cursor r \<le> sr_cursor r' \<and> unat (sr_cursor r') \<le> unat (sr_cursor r) + 1024
           \<and> sr_response_sequence r \<le> sr_response_sequence r'
           \<and> (sr_response_sequence r' = sr_response_sequence r \<longrightarrow> sr_cursor r' = sr_cursor r)
      else sr_cursor r' = 0 \<and> sr_response_sequence r' = 0)"

definition evolves :: "SessionRecord \<Rightarrow> SessionRecord \<Rightarrow> bool" where
  "evolves r r' \<longleftrightarrow> same_session r r' \<and> cursor_advances r r'
     \<and> sr_last_activity_ms r \<le> sr_last_activity_ms r'
     \<and> set (sr_emitted_notifications r) \<subseteq> set (sr_emitted_notifications r')
     \<and> (record_ok r \<longrightarrow> record_ok r')"

lemmas evolves_defs = evolves_def same_session_def cursor_advances_def touch_def

lemma evolves_refl [simp]: "evolves r r"
  by (simp add: evolves_defs)

lemma validate_ids_Ok: "validate_ids cs = Ok () \<longleftrightarrow> (\<forall>c \<in> set cs. validate_id c = Ok ())"
  by (induction cs) (auto simp: res_simps)

lemma validate_record_Ok:
  "validate_record r = Ok () \<longleftrightarrow>
     validate_id (sr_session_id r) = Ok () \<and> validate_metadata (sr_metadata r) = Ok ()
     \<and> validate_id (sr_external_handle_id r) = Ok () \<and> validate_id (sr_host_instance_id r) = Ok ()
     \<and> length (sr_attached_clients r) \<le> MAX_CLIENTS_PER_SESSION
     \<and> (\<forall>c \<in> set (sr_attached_clients r). validate_id c = Ok ())"
  by (auto simp: validate_record_def res_simps validate_ids_Ok)

lemmas record_ok_defs = record_ok_def validate_record_Ok

definition effect :: "string \<Rightarrow> SessionRegistry \<Rightarrow> SessionRegistry \<Rightarrow> bool" where
  "effect sid reg reg' \<longleftrightarrow>
     reg' = reg
     \<or> (\<exists>r r'. session_of reg sid = Some r \<and> evolves r r' \<and> reg' = put_record sid r' reg)
     \<or> (\<exists>r. session_of reg sid = None \<and> length (reg_sessions reg) < MAX_SESSIONS \<and> record_ok r
          \<and> sr_session_id r = sid \<and> sr_cursor r = 0 \<and> sr_emitted_notifications r = []
          \<and> reg' = put_record sid r reg)"

lemma effectI:
  "effect sid reg reg"
  "session_of reg sid = Some r \<Longrightarrow> evolves r r' \<Longrightarrow> effect sid reg (put_record sid r' reg)"
  by (auto simp: effect_def)

lemma record_mut_cases:
  "(\<And>r. session_of reg sid = Some r \<Longrightarrow> record_mut reg sid = Ok r \<Longrightarrow> P) \<Longrightarrow>
   (session_of reg sid = None \<Longrightarrow> record_mut reg sid = Err RegUnknownSession \<Longrightarrow> P) \<Longrightarrow> P"
  by (cases "session_of reg sid") (auto simp: record_mut_def session_of_def)

lemma validate_id_cases: "validate_id x = Ok () \<or> validate_id x = Err RegInvalidPayload"
  by (simp add: validate_id_def)

lemma snd_degrade [simp]: "snd (degrade sid reason err reg) = Err err"
  by (simp add: degrade_def split: res.split)

lemma degrade_effect: "effect sid reg (fst (degrade sid reason err reg))"
  by (rule record_mut_cases [of reg sid])
     (auto simp: degrade_def evolves_defs record_ok_defs intro!: effectI)

lemma transition_effect: "effect sid reg (fst (transition sid now allowed target reg))"
  by (rule record_mut_cases [of reg sid])
     (auto simp: transition_def Let_def evolves_defs record_ok_defs intro!: effectI)

lemma attach_effect: "effect sid reg (fst (attach sid client now reg))"
proof (cases "validate_id client = Ok ()")
  case True
  have len: "length (insort_insert client cs) \<le> MAX_CLIENTS_PER_SESSION"
    if "\<not> (client \<notin> set cs \<and> MAX_CLIENTS_PER_SESSION \<le> length cs)" "length cs \<le> MAX_CLIENTS_PER_SESSION"
    for cs :: "string list"
    using that by (auto simp: insort_insert_key_def)
  from True show ?thesis
    by (rule_tac record_mut_cases [of reg sid])
       (auto simp: attach_def evolves_defs record_ok_defs set_insort_insert sorted_insort_insert
          distinct_insort_insert len intro!: effectI)
next
  case False
  with validate_id_cases [of client] show ?thesis by (auto simp: attach_def intro: effectI)
qed


lemma detach_effect: "effect sid reg (fst (detach sid client now reg))"
  by (rule record_mut_cases [of reg sid])
     (auto simp: detach_def Let_def evolves_defs record_ok_defs length_remove1 sorted_remove1
        dest: set_remove1_subset [THEN subsetD] intro!: effectI)

lemma resume_effect: "effect sid reg (fst (resume sid now reg))"
  by (rule record_mut_cases [of reg sid])
     (auto simp: resume_def Let_def evolves_defs record_ok_defs intro!: effectI)

lemma apply_status_effect: "effect sid reg (fst (apply_status sid st b now reg))"
  by (rule record_mut_cases [of reg sid])
     (auto simp: apply_status_def Let_def evolves_defs record_ok_defs set_insort_insert sorted_insort_insert
        distinct_insort_insert intro!: effectI split: option.split)

lemma cancel_effect: "effect sid reg (fst (cancel sid now reg))"
  by (cases "get_session reg sid") (auto simp: cancel_def intro: effectI transition_effect)

lemma close_effect: "effect sid reg (fst (close sid now reg))"
  by (cases "get_session reg sid") (auto simp: close_def intro: effectI transition_effect)

lemma reconnect_effect: "effect sid reg (fst (reconnect sid host cur lim reg))"
proof (cases "validate_id host = Ok ()")
  case True
  then show ?thesis
    by (rule_tac record_mut_cases [of reg sid])
       (auto simp: reconnect_def evolves_defs record_ok_defs intro!: effectI degrade_effect)
next
  case False
  with validate_id_cases [of host] show ?thesis by (auto simp: reconnect_def intro: effectI)
qed

lemma replay_window:
  assumes "checked_sub64 b a = Some n" and "\<not> n > MAX_REPLAY_EVENTS"
  shows "a \<le> b" and "unat b \<le> unat a + 1024"
proof -
  from assms(1) show le: "a \<le> b" by (auto simp: checked_sub64_def split: if_splits)
  from assms le have "unat b - unat a \<le> 1024"
    by (auto simp: checked_sub64_def MAX_REPLAY_EVENTS_def word_less_nat_alt unat_sub split: if_splits)
  then show "unat b \<le> unat a + 1024" by simp
qed

lemma apply_replay_evolves:
  assumes "checked_sub64 b (sr_cursor r) = Some n" and "\<not> n > MAX_REPLAY_EVENTS"
    and "sq \<noteq> sr_response_sequence r" and "\<not> sq < sr_response_sequence r"
  shows "evolves r (r\<lparr>sr_cursor := b, sr_response_sequence := sq, sr_resync_reason := None, sr_degraded_reason := None\<rparr>)"
  using replay_window [OF assms(1,2)] assms(3,4)
  by (simp add: evolves_defs record_ok_defs)

lemma apply_replay_effect: "effect sid reg (fst (apply_replay sid host sq a b reg))"
proof (rule record_mut_cases [of reg sid])
  fix r assume r: "session_of reg sid = Some r" "record_mut reg sid = Ok r"
  show ?thesis
  proof (cases "checked_sub64 b a")
    case (Some n)
    then have "effect sid reg (put_record sid (r\<lparr>sr_cursor := b, sr_response_sequence := sq,
        sr_resync_reason := None, sr_degraded_reason := None\<rparr>) reg)"
      if "a = sr_cursor r" "\<not> n > MAX_REPLAY_EVENTS" "sq \<noteq> sr_response_sequence r" "\<not> sq < sr_response_sequence r"
      using that by (intro effectI(2) [OF r(1)] apply_replay_evolves) simp_all
    with r Some show ?thesis
      by (cases "a = sr_cursor r") (simp_all add: apply_replay_def effectI(1) degrade_effect)
  qed (use r in \<open>auto simp: apply_replay_def intro!: effectI degrade_effect\<close>)
qed (auto simp: apply_replay_def intro: effectI)

lemma effect_st_try: "(\<And>y. x = Ok y \<Longrightarrow> effect sid reg (fst (k y))) \<Longrightarrow> effect sid reg (fst (st_try reg x k))"
  by (cases x) (auto intro: effectI)

lemma create_effect: "effect sid reg (fst (create_session sid kind md handle host now reg))"
proof (cases "length (reg_sessions reg) \<ge> MAX_SESSIONS \<or> bt_contains_key (reg_sessions reg) sid")
  case True
  then show ?thesis
    by (auto simp: create_session_def intro!: effect_st_try intro: effectI)
next
  case False
  then have "effect sid reg (put_record sid (new_record sid kind md handle host now) reg)"
    if "validate_id sid = Ok ()" "validate_metadata md = Ok ()" "validate_id handle = Ok ()" "validate_id host = Ok ()"
    unfolding effect_def using that
    by (intro disjI2 exI [of _ "new_record sid kind md handle host now"])
       (auto simp: record_ok_defs new_record_def bt_contains_key_def session_of_def)
  with False show ?thesis
    by (auto simp: create_session_def Let_def intro!: effect_st_try)
qed

lemma fst_out_of [simp]: "fst (out_of f x) = fst x"
  by (cases "(f, x)" rule: out_of.cases) auto

lemma exec_effect: "effect (op_target op) reg (fst (exec op reg))"
  by (cases op)
     (simp_all add: pause_def create_effect attach_effect detach_effect transition_effect resume_effect cancel_effect
        close_effect apply_status_effect reconnect_effect apply_replay_effect)

section \<open>The invariant\<close>

definition registry_inv :: "SessionRegistry \<Rightarrow> bool" where
  "registry_inv reg \<longleftrightarrow> bt_inv (reg_sessions reg) \<and> length (reg_sessions reg) \<le> MAX_SESSIONS
     \<and> (\<forall>sid r. session_of reg sid = Some r \<longrightarrow> sr_session_id r = sid \<and> record_ok r)"

lemma session_of_put:
  "session_of (put_record sid r reg) sid' = (if sid' = sid then Some r else session_of reg sid')"
  by (simp add: session_of_def put_record_def bt_get_insert)

lemma registry_inv_new: "registry_inv new_registry"
  by (simp add: registry_inv_def new_registry_def session_of_def bt_inv_def)

lemma registry_inv_effect:
  assumes "registry_inv reg" and "effect sid reg reg'"
  shows "registry_inv reg'"
proof -
  have keep: "registry_inv (put_record sid r' reg)"
    if "sr_session_id r' = sid" "record_ok r'" "session_of reg sid \<noteq> None \<or> length (reg_sessions reg) < MAX_SESSIONS" for r'
    using assms(1) that bt.size_insert [of "reg_sessions reg" sid r']
    by (auto simp: registry_inv_def session_of_put) (auto simp: put_record_def session_of_def bt_inv_insert)
  from assms(2) consider "reg' = reg" | r r' where "session_of reg sid = Some r" "evolves r r'" "reg' = put_record sid r' reg"
    | r where "length (reg_sessions reg) < MAX_SESSIONS" "record_ok r" "sr_session_id r = sid" "reg' = put_record sid r reg"
    unfolding effect_def by blast
  then show ?thesis
  proof cases
    case 2
    with assms(1) have "sr_session_id r' = sid" "record_ok r'"
      by (auto simp: registry_inv_def evolves_def same_session_def)
    with keep 2 show ?thesis by simp
  qed (use assms(1) keep in auto)
qed

lemma restore_loop_inv:
  assumes "restore_loop m rs = Ok m'" and "registry_inv \<lparr>reg_sessions = m\<rparr>" and "length m + length rs \<le> MAX_SESSIONS"
    and "\<forall>r \<in> set rs. sorted (sr_attached_clients r) \<and> distinct (sr_attached_clients r)
           \<and> sorted (sr_emitted_notifications r) \<and> distinct (sr_emitted_notifications r)"
  shows "registry_inv \<lparr>reg_sessions = m'\<rparr>"
  using assms
proof (induction m rs rule: restore_loop.induct)
  case (2 m r rs)
  let ?m = "bt_insert (sr_session_id r) r m"
  from "2.prems"(1) have v: "validate_record r = Ok ()" "bt_get m (sr_session_id r) = None" "restore_loop ?m rs = Ok m'"
    by (auto simp: res_simps)
  have "registry_inv \<lparr>reg_sessions = ?m\<rparr>"
    using "2.prems" v bt.size_insert [of m "sr_session_id r" r]
    by (auto simp: registry_inv_def session_of_def bt_get_insert bt_inv_insert record_ok_def)
  moreover have "length ?m = Suc (length m)"
    using "2.prems"(2) v bt.size_insert [of m "sr_session_id r" r] by (simp add: registry_inv_def)
  ultimately show ?case using "2.IH" v "2.prems" by simp
qed simp

text \<open>
  A snapshot as serde builds it: the client and notification sets of a record are \<open>BTreeSet\<close>s, so
  they are sorted and without repetition whatever was in the file.
\<close>

definition well_typed :: "RegistrySnapshot \<Rightarrow> bool" where
  "well_typed snap \<longleftrightarrow> (\<forall>r \<in> set (snap_sessions snap). sorted (sr_attached_clients r) \<and> distinct (sr_attached_clients r)
           \<and> sorted (sr_emitted_notifications r) \<and> distinct (sr_emitted_notifications r))"

definition registry_init :: "SessionRegistry \<Rightarrow> bool" where
  "registry_init reg \<longleftrightarrow> reg = new_registry \<or> (\<exists>snap. well_typed snap \<and> restore snap = Ok reg)"

definition registry_step :: "SessionRegistry \<Rightarrow> SessionRegistry \<Rightarrow> bool" where
  "registry_step reg reg' \<longleftrightarrow> (\<exists>op. reg' = fst (exec op reg))"

lemma registry_inv_restore:
  assumes "restore snap = Ok reg" and "well_typed snap"
  shows "registry_inv reg"
proof -
  from assms(1) obtain m where m: "restore_loop [] (snap_sessions snap) = Ok m" "reg = \<lparr>reg_sessions = m\<rparr>"
      "length (snap_sessions snap) \<le> MAX_SESSIONS"
    by (auto simp: restore_def res_simps split: if_splits)
  with restore_loop_inv [OF m(1)] registry_inv_new assms(2) show ?thesis
    by (simp add: well_typed_def new_registry_def)
qed

interpretation registry: invariant_system registry_init registry_step registry_inv
  by unfold_locales
     (auto simp: registry_init_def registry_step_def registry_inv_new intro: registry_inv_restore
        registry_inv_effect exec_effect)

lemma run_steps: "registry_step\<^sup>*\<^sup>* reg (run ops reg)"
proof (induction ops arbitrary: reg)
  case (Cons op ops)
  have "registry_step reg (fst (exec op reg))" by (auto simp: registry_step_def)
  with Cons show ?case by (auto intro: converse_rtranclp_into_rtranclp)
qed simp

lemma run_inv: "registry_inv reg \<Longrightarrow> registry_inv (run ops reg)"
  by (rule registry.steps_inv [OF run_steps])


section \<open>Sessions persist and keep their identity\<close>

lemma effect_session:
  assumes "effect sid' reg reg'" and "session_of reg sid = Some r"
  shows "\<exists>r'. session_of reg' sid = Some r' \<and> evolves r r'"
  using assms by (auto simp: effect_def session_of_put)

lemma exec_session:
  "session_of reg sid = Some r \<Longrightarrow> \<exists>r'. session_of (fst (exec op reg)) sid = Some r' \<and> evolves r r'"
  by (rule effect_session [OF exec_effect])

lemma run_session:
  "session_of reg sid = Some r \<Longrightarrow>
     \<exists>r'. session_of (run ops reg) sid = Some r' \<and> same_session r r'
       \<and> sr_last_activity_ms r \<le> sr_last_activity_ms r'"
proof (induction ops arbitrary: reg r)
  case (Cons op ops)
  obtain r1 where r1: "session_of (fst (exec op reg)) sid = Some r1" "evolves r r1"
    using exec_session [OF Cons.prems] by blast
  obtain r2 where "session_of (run ops (fst (exec op reg))) sid = Some r2" "same_session r1 r2"
      "sr_last_activity_ms r1 \<le> sr_last_activity_ms r2"
    using Cons.IH [OF r1(1)] by blast
  with r1(2) show ?case by (auto simp: evolves_def same_session_def)
qed (simp add: same_session_def)

section \<open>Replay windows\<close>

text \<open>
  The windows of events that \<open>apply_replay\<close> newly accepted for a session since the last change of
  its host, and windows that follow one another from one cursor to another.
\<close>

definition log_step ::
  "string \<Rightarrow> RegistryOp \<Rightarrow> SessionRegistry \<Rightarrow> (u64 \<times> u64) list \<Rightarrow> (u64 \<times> u64) list" where
  "log_step sid op reg log =
     (case (op, session_of reg sid) of
        (OpApplyReplay s h q a b, Some r) \<Rightarrow>
          (if s = sid \<and> snd (exec op reg) = OutUnit \<and> q \<noteq> sr_response_sequence r then log @ [(a, b)] else log)
      | (OpReconnect s h c l, Some r) \<Rightarrow>
          (if s = sid \<and> snd (exec op reg) = OutReconnect (Resync 0 HostRestart) then [] else log)
      | _ \<Rightarrow> log)"

fun run_log :: "string \<Rightarrow> RegistryOp list \<Rightarrow> SessionRegistry \<Rightarrow> (u64 \<times> u64) list \<Rightarrow> (u64 \<times> u64) list" where
  "run_log sid [] reg log = log"
| "run_log sid (op # ops) reg log = run_log sid ops (fst (exec op reg)) (log_step sid op reg log)"

fun chained :: "u64 \<Rightarrow> (u64 \<times> u64) list \<Rightarrow> u64 \<Rightarrow> bool" where
  "chained c [] c' = (c = c')"
| "chained c ((a, b) # ws) c' = (a = c \<and> a \<le> b \<and> unat b \<le> unat a + 1024 \<and> chained b ws c')"

lemma chained_append:
  "chained c (ws @ [(a, b)]) c' \<longleftrightarrow> chained c ws a \<and> a \<le> b \<and> unat b \<le> unat a + 1024 \<and> b = c'"
  by (induction c ws a rule: chained.induct) auto

definition cursor_of :: "SessionRegistry \<Rightarrow> string \<Rightarrow> u64 option" where
  "cursor_of reg sid = map_option sr_cursor (session_of reg sid)"

lemma cursor_of_put: "cursor_of (put_record s r reg) sid = (if sid = s then Some (sr_cursor r) else cursor_of reg sid)"
  by (simp add: cursor_of_def session_of_put)

lemma record_mut_Ok: "record_mut reg sid = Ok r \<longleftrightarrow> session_of reg sid = Some r"
  by (simp add: record_mut_def session_of_def res_simps)

lemma cursor_of_session: "session_of reg sid = Some r \<Longrightarrow> cursor_of reg sid = Some (sr_cursor r)"
  by (simp add: cursor_of_def)

lemma keeps_cursor:
  "cursor_of (fst (degrade s reason err reg)) sid = cursor_of reg sid"
  "cursor_of (fst (transition s now allowed target reg)) sid = cursor_of reg sid"
  "cursor_of (fst (attach s client now reg)) sid = cursor_of reg sid"
  "cursor_of (fst (detach s client now reg)) sid = cursor_of reg sid"
  "cursor_of (fst (resume s now reg)) sid = cursor_of reg sid"
  "cursor_of (fst (apply_status s st b now reg)) sid = cursor_of reg sid"
  by (rule record_mut_cases [of reg s];
      auto simp: degrade_def transition_def attach_def detach_def resume_def apply_status_def Let_def
        cursor_of_put cursor_of_session touch_def validate_id_def split: option.split)+

lemma keeps_cursor_cancel:
  "cursor_of (fst (cancel s now reg)) sid = cursor_of reg sid"
  "cursor_of (fst (close s now reg)) sid = cursor_of reg sid"
  by (cases "get_session reg s"; simp add: cancel_def close_def keeps_cursor)+

lemma create_result:
  "fst (create_session s kind md handle host now reg) = reg
   \<or> session_of reg s = None
     \<and> fst (create_session s kind md handle host now reg) = put_record s (new_record s kind md handle host now) reg"
  by (cases "validate_id s"; cases "validate_metadata md"; cases "validate_id handle"; cases "validate_id host";
      simp add: create_session_def Let_def bt_contains_key_def session_of_def)

lemma reconnect_log:
  assumes "session_of reg sid = Some r" and "chained 0 log (sr_cursor r)"
  shows "\<exists>r'. session_of (fst (exec (OpReconnect s h c l) reg)) sid = Some r'
           \<and> chained 0 (log_step sid (OpReconnect s h c l) reg log) (sr_cursor r')"
proof -
  let ?op = "OpReconnect s h c l"
  obtain r' where r': "session_of (fst (exec ?op reg)) sid = Some r'" using exec_session [OF assms(1)] by blast
  consider (keep) "cursor_of (fst (exec ?op reg)) sid = cursor_of reg sid" "log_step sid ?op reg log = log"
    | (reset) "cursor_of (fst (exec ?op reg)) sid = Some 0" "log_step sid ?op reg log = []"
  proof (rule record_mut_cases [of reg s])
    fix q assume "session_of reg s = Some q" "record_mut reg s = Ok q"
    then show thesis using that assms(1) validate_id_cases [of h]
      by (cases "s = sid"; cases "validate_id h = Ok ()"; cases "l = 0 \<or> l > MAX_REPLAY_EVENTS";
          cases "sr_host_instance_id q = h"; cases "c < sr_cursor q"; cases "c > sr_cursor q")
         (auto simp: reconnect_def log_step_def keeps_cursor cursor_of_put degrade_def cursor_of_session)
  next
    assume "session_of reg s = None" "record_mut reg s = Err RegUnknownSession"
    then show thesis using that assms(1) validate_id_cases [of h]
      by (auto simp: reconnect_def log_step_def keeps_cursor degrade_def)
  qed
  then show ?thesis using r' assms by cases (auto simp: cursor_of_def)
qed


lemma apply_replay_accepts:
  assumes "session_of reg sid = Some r" and "snd (apply_replay sid host sq a b reg) = Ok ()"
  shows "sr_host_instance_id r = host
    \<and> (sq = sr_response_sequence r \<and> b = sr_cursor r \<and> fst (apply_replay sid host sq a b reg) = reg
       \<or> sr_response_sequence r < sq \<and> a = sr_cursor r \<and> a \<le> b \<and> unat b \<le> unat a + 1024
         \<and> fst (apply_replay sid host sq a b reg) = put_record sid (r\<lparr>sr_cursor := b, sr_response_sequence := sq,
              sr_resync_reason := None, sr_degraded_reason := None\<rparr>) reg)"
proof -
  have r: "record_mut reg sid = Ok r" using assms(1) by (simp add: record_mut_Ok)
  show ?thesis
  proof (cases "checked_sub64 b a")
    case (Some n)
    with assms(2) r replay_window [OF Some] show ?thesis
      by (auto simp: apply_replay_def split: if_splits)
  qed (use assms(2) r in \<open>auto simp: apply_replay_def split: if_splits\<close>)
qed

lemma apply_replay_rejects:
  assumes "snd (apply_replay s host sq a b reg) \<noteq> Ok ()"
  shows "cursor_of (fst (apply_replay s host sq a b reg)) sid = cursor_of reg sid"
proof (rule record_mut_cases [of reg s])
  fix r assume r: "session_of reg s = Some r" "record_mut reg s = Ok r"
  then show ?thesis
    using assms by (cases "checked_sub64 b a") (auto simp: apply_replay_def keeps_cursor split: if_splits)
qed (auto simp: apply_replay_def)

lemma apply_replay_log:
  assumes "session_of reg sid = Some r" and "chained 0 log (sr_cursor r)"
  shows "\<exists>r'. session_of (fst (exec (OpApplyReplay s h q a b) reg)) sid = Some r'
           \<and> chained 0 (log_step sid (OpApplyReplay s h q a b) reg log) (sr_cursor r')"
proof -
  let ?op = "OpApplyReplay s h q a b" and ?res = "apply_replay s h q a b reg"
  obtain r' where r': "session_of (fst (exec ?op reg)) sid = Some r'" using exec_session [OF assms(1)] by blast
  have out: "snd (exec ?op reg) = OutUnit \<longleftrightarrow> snd ?res = Ok ()"
    by (cases ?res; cases "snd ?res") auto
  show ?thesis
  proof (cases "snd ?res = Ok () \<and> s = sid")
    case True
    with apply_replay_accepts [OF assms(1), of h q a b] assms r' out show ?thesis
      by (auto simp: log_step_def session_of_put chained_append)
  next
    case False
    have "cursor_of (fst ?res) sid = cursor_of reg sid"
    proof (cases "snd ?res = Ok ()")
      case True
      with False have "s \<noteq> sid" by simp
      with apply_replay_effect [of s reg h q a b] show ?thesis
        by (auto simp: effect_def cursor_of_put)
    qed (rule apply_replay_rejects)
    with False out r' assms show ?thesis by (auto simp: log_step_def cursor_of_def)
  qed
qed

lemma exec_log:
  assumes "session_of reg sid = Some r" and "chained 0 log (sr_cursor r)"
  shows "\<exists>r'. session_of (fst (exec op reg)) sid = Some r' \<and> chained 0 (log_step sid op reg log) (sr_cursor r')"
proof -
  obtain r' where r': "session_of (fst (exec op reg)) sid = Some r'" using exec_session [OF assms(1)] by blast
  have keep: "?thesis" if "cursor_of (fst (exec op reg)) sid = cursor_of reg sid" "log_step sid op reg log = log"
    using that r' assms by (auto simp: cursor_of_def)
  show ?thesis
  proof (cases op)
    case (OpCreate s kind md handle host now)
    have "cursor_of (fst (exec op reg)) sid = cursor_of reg sid"
      using create_result [of s kind md handle host now reg] assms(1)
      by (auto simp: OpCreate cursor_of_put)
    then show ?thesis by (rule keep) (simp add: OpCreate log_step_def)
  next
    case (OpReconnect s h c l)
    then show ?thesis using reconnect_log [OF assms] by simp
  next
    case (OpApplyReplay s h q a b)
    then show ?thesis using apply_replay_log [OF assms] by simp
  qed (rule keep; simp add: log_step_def keeps_cursor keeps_cursor_cancel pause_def)+
qed

lemma exec_creates:
  assumes "session_of reg sid = None" and "session_of (fst (exec op reg)) sid = Some r"
  shows "sr_cursor r = 0"
  using exec_effect [of op reg] assms by (auto simp: effect_def session_of_put split: if_splits)

lemma run_chained:
  assumes "case session_of reg sid of None \<Rightarrow> log = [] | Some r \<Rightarrow> chained 0 log (sr_cursor r)"
    and "session_of (run ops reg) sid = Some r"
  shows "chained 0 (run_log sid ops reg log) (sr_cursor r)"
  using assms
proof (induction ops arbitrary: reg log)
  case (Cons op ops)
  let ?reg = "fst (exec op reg)"
  have "case session_of ?reg sid of None \<Rightarrow> log_step sid op reg log = []
      | Some r \<Rightarrow> chained 0 (log_step sid op reg log) (sr_cursor r)"
  proof (cases "session_of reg sid")
    case None
    then have "log_step sid op reg log = []" using Cons.prems(1) by (simp add: log_step_def split: RegistryOp.split)
    then show ?thesis using exec_creates [OF None, of op] by (auto split: option.split)
  next
    case (Some q)
    with Cons.prems(1) exec_log [OF Some, of log op] show ?thesis by auto
  qed
  with Cons show ?case by simp
qed simp


section \<open>Notifications\<close>

fun notified :: "RegistryOp list \<Rightarrow> SessionRegistry \<Rightarrow> Notification list" where
  "notified [] reg = []"
| "notified (op # ops) reg =
     (case exec op reg of
        (reg', OutNotification (Some n)) \<Rightarrow> n # notified ops reg'
      | (reg', _) \<Rightarrow> notified ops reg')"

definition emitted :: "SessionRegistry \<Rightarrow> string \<Rightarrow> NotificationKind \<Rightarrow> bool" where
  "emitted reg sid kind \<longleftrightarrow> (\<exists>r. session_of reg sid = Some r \<and> kind \<in> set (sr_emitted_notifications r))"

lemma emitted_exec: "emitted reg sid kind \<Longrightarrow> emitted (fst (exec op reg)) sid kind"
  using exec_session by (fastforce simp: emitted_def evolves_def)

lemma out_of_notification:
  "exec op reg = (reg', OutNotification (Some n)) \<Longrightarrow>
     \<exists>s st b now. op = OpApplyStatus s st b now \<and> apply_status s st b now reg = (reg', Ok (Some n))"
proof (cases op)
  case (OpApplyStatus s st b now)
  assume "exec op reg = (reg', OutNotification (Some n))"
  with OpApplyStatus show ?thesis
    by (cases "apply_status s st b now reg"; cases "snd (apply_status s st b now reg)") auto
qed (auto elim: out_of.elims)

lemma notification_fresh:
  assumes "exec op reg = (reg', OutNotification (Some n))"
  shows "\<not> emitted reg (nt_session_id n) (nt_kind n)" and "emitted reg' (nt_session_id n) (nt_kind n)"
    and "\<not> nt_steals_focus n"
proof -
  from out_of_notification [OF assms] obtain s st b now where
    a: "apply_status s st b now reg = (reg', Ok (Some n))" by blast
  show "\<not> emitted reg (nt_session_id n) (nt_kind n)" "emitted reg' (nt_session_id n) (nt_kind n)" "\<not> nt_steals_focus n"
    by (rule record_mut_cases [of reg s];
        use a in \<open>auto simp: apply_status_def Let_def emitted_def session_of_put set_insort_insert touch_def
          split: if_splits option.splits\<close>)+
qed

lemma emitted_not_again:
  "emitted reg sid kind \<Longrightarrow> (sid, kind) \<notin> set (map (\<lambda>n. (nt_session_id n, nt_kind n)) (notified ops reg))"
proof (induction ops arbitrary: reg)
  case (Cons op ops)
  obtain reg' out where e: "exec op reg = (reg', out)" by fastforce
  have em: "emitted reg' sid kind" using emitted_exec [OF Cons.prems, of op] e by simp
  then show ?case
    using Cons.IH [OF em] notification_fresh(1) [of op reg reg'] Cons.prems e
    by (auto split: RegistryOut.splits option.splits)
qed simp

lemma notified_distinct: "distinct (map (\<lambda>n. (nt_session_id n, nt_kind n)) (notified ops reg))"
proof (induction ops arbitrary: reg)
  case (Cons op ops)
  obtain reg' out where e: "exec op reg = (reg', out)" by fastforce
  then show ?case
    using Cons [of reg'] notification_fresh(2) [of op reg reg'] emitted_not_again [of reg']
    by (auto split: RegistryOut.split option.split)
qed simp

lemma notified_passive: "list_all (\<lambda>n. \<not> nt_steals_focus n) (notified ops reg)"
proof (induction ops arbitrary: reg)
  case (Cons op ops)
  obtain reg' out where e: "exec op reg = (reg', out)" by fastforce
  then show ?case
    using Cons [of reg'] notification_fresh(3) [of op reg reg'] by (auto split: RegistryOut.split option.split)
qed simp


section \<open>Snapshots\<close>

lemma restore_loop_entries:
  assumes "bt_inv (m @ es)" and "\<forall>(k, r) \<in> set es. sr_session_id r = k \<and> validate_record r = Ok ()"
  shows "restore_loop m (map snd es) = Ok (m @ es)"
  using assms
proof (induction es arbitrary: m)
  case (Cons e es)
  obtain k r where e: "e = (k, r)" by fastforce
  have fresh: "\<forall>x \<in> fst ` set m. x < k" "k \<notin> fst ` set m"
    using Cons.prems(1) by (auto simp: e bt_inv_def sorted_wrt_append)
  then have "bt_get m k = None" "bt_insert k r m = m @ [(k, r)]"
    by (simp_all add: bt_get_None bt_insert_append)
  with Cons e show ?case by simp
qed simp

lemma restore_snapshot:
  assumes "registry_inv reg"
  shows "restore (snapshot reg) = Ok reg"
proof -
  have "\<forall>(k, r) \<in> set (reg_sessions reg). sr_session_id r = k \<and> validate_record r = Ok ()"
    using assms by (auto simp: registry_inv_def session_of_def bt_get_Some record_ok_def)
  with restore_loop_entries [of "[]" "reg_sessions reg"] assms show ?thesis
    by (simp add: restore_def snapshot_def registry_inv_def bt_values_def)
qed

section \<open>Terminal sessions\<close>

definition terminal_in :: "SessionRegistry \<Rightarrow> string \<Rightarrow> bool" where
  "terminal_in reg sid \<longleftrightarrow> (\<exists>r. session_of reg sid = Some r \<and> terminal (sr_status r))"

fun reattaches :: "RegistryOp \<Rightarrow> bool" where
  "reattaches (OpReconnect s h c l) = True"
| "reattaches (OpApplyReplay s h q a b) = True"
| "reattaches _ = False"

lemma terminal_in_put:
  "terminal_in (put_record s r reg) sid \<longleftrightarrow> (if sid = s then terminal (sr_status r) else terminal_in reg sid)"
  by (simp add: terminal_in_def session_of_put)

lemma terminal_transition:
  assumes "terminal_in reg sid" and "\<forall>st \<in> set allowed. \<not> terminal st \<or> terminal target"
  shows "terminal_in (fst (transition s now allowed target reg)) sid"
  by (rule record_mut_cases [of reg s])
     (use assms in \<open>auto simp: transition_def Let_def terminal_in_put touch_def terminal_in_def session_of_put simp del: terminal.simps\<close>)

lemma terminal_kept:
  assumes "terminal_in reg sid" and "\<not> reattaches op"
  shows "terminal_in (fst (exec op reg)) sid"
proof (cases op)
  case (OpCreate s kind md handle host now)
  then show ?thesis using create_result [of s kind md handle host now reg] assms(1)
    by (auto simp: terminal_in_put terminal_in_def session_of_put)
next
  case (OpAttach s c now)
  then show ?thesis using assms(1)
    by (rule_tac record_mut_cases [of reg s])
       (auto simp: attach_def terminal_in_def session_of_put touch_def validate_id_def)
next
  case (OpDetach s c now)
  then show ?thesis using assms(1)
    by (rule_tac record_mut_cases [of reg s])
       (auto simp: detach_def Let_def terminal_in_def session_of_put touch_def)
next
  case (OpResume s now)
  then show ?thesis using assms(1)
    by (rule_tac record_mut_cases [of reg s])
       (auto simp: resume_def Let_def terminal_in_def session_of_put touch_def)
next
  case (OpApplyStatus s st b now)
  then show ?thesis using assms(1)
    by (rule_tac record_mut_cases [of reg s])
       (auto simp: apply_status_def Let_def terminal_in_def session_of_put touch_def split: option.split)
next
  case (OpPause s now)
  then show ?thesis using assms(1) by (simp add: pause_def terminal_transition)
next
  case (OpCancel s now)
  then show ?thesis using assms(1) by (cases "get_session reg s") (simp_all add: cancel_def terminal_transition)
next
  case (OpClose s now)
  then show ?thesis using assms(1) by (cases "get_session reg s") (simp_all add: close_def terminal_transition)
qed (use assms(2) in simp_all)


section \<open>Properties of the session registry\<close>

text \<open>A run to apply the properties to: a session is created, attached, replayed and reported done.\<close>

definition toy_metadata :: SessionMetadata where
  "toy_metadata = \<lparr>mt_space_id = ''sp'', mt_project_id = ''p'', mt_workspace_id = ''w'', mt_agent_label = ''agent'',
     mt_goal_label = ''goal'', mt_branch_label = Some ''b'', mt_worktree_label = None\<rparr>"

definition toy_ops :: "RegistryOp list" where
  "toy_ops = [OpCreate ''s1'' Work toy_metadata ''h'' ''host'' 1, OpAttach ''s1'' ''tui'' 2,
     OpApplyReplay ''s1'' ''host'' 1 0 5, OpApplyReplay ''s1'' ''host'' 1 0 5, OpApplyReplay ''s1'' ''host'' 2 5 9,
     OpApplyStatus ''s1'' Done False 3, OpApplyStatus ''s1'' Done False 4]"

lemma toy_run:
  "\<exists>r. session_of (run toy_ops new_registry) ''s1'' = Some r \<and> sr_cursor r = 9 \<and> sr_status r = Done
     \<and> sr_external_handle_id r = ''h''"
proof -
  have "(case session_of (run toy_ops new_registry) ''s1'' of None \<Rightarrow> False
      | Some r \<Rightarrow> sr_cursor r = 9 \<and> sr_status r = Done \<and> sr_external_handle_id r = ''h'')"
    by code_simp
  then show ?thesis by (auto split: option.splits)
qed

text \<open>
  C7: in every registry that calls can produce, from an empty one or from a restored snapshot, there
  are at most 10000 sessions, each under its own id, and each passes the validation of ids, labels
  and of the 16-client bound.
\<close>

theorem registry_always_valid:
  assumes "reach registry_init registry_step reg"
  shows "length (reg_sessions reg) \<le> MAX_SESSIONS \<and> bt_inv (reg_sessions reg)
    \<and> (\<forall>sid r. session_of reg sid = Some r \<longrightarrow>
         sr_session_id r = sid \<and> validate_record r = Ok () \<and> distinct (sr_attached_clients r))"
  using registry.reach_inv [OF assms] by (auto simp: registry_inv_def record_ok_def)

theorem registry_always_valid_witness:
  "reach registry_init registry_step (run toy_ops new_registry)
   \<and> length (reg_sessions (run toy_ops new_registry)) \<le> MAX_SESSIONS"
proof -
  have "registry_init new_registry" by (simp add: registry_init_def)
  then have "reach registry_init registry_step (run toy_ops new_registry)"
    using registry.reach_steps [OF reach_init run_steps] by blast
  with registry_always_valid [OF this] show ?thesis by blast
qed

text \<open>
  C24: persistence loses nothing: restoring the snapshot of any registry that calls can produce
  succeeds and gives the same registry back.
\<close>

theorem registry_snapshot_roundtrip:
  assumes "reach registry_init registry_step reg"
  shows "restore (snapshot reg) = Ok reg"
  using registry.reach_inv [OF assms] by (rule restore_snapshot)

theorem registry_snapshot_roundtrip_witness:
  "reach registry_init registry_step (run toy_ops new_registry)
   \<and> restore (snapshot (run toy_ops new_registry)) = Ok (run toy_ops new_registry)"
proof -
  have "registry_init new_registry" by (simp add: registry_init_def)
  then have r: "reach registry_init registry_step (run toy_ops new_registry)"
    using registry.reach_steps [OF reach_init run_steps] by blast
  with registry_snapshot_roundtrip [OF r] show ?thesis by blast
qed

text \<open>
  Events are replayed exactly once and in order. Whatever calls were made, the windows of events
  newly accepted for a session since its host last changed follow one another from 0 to its cursor,
  with no gap and no overlap, each of at most 1024 events.
\<close>

theorem replay_is_gapless:
  assumes "session_of (run ops new_registry) sid = Some r"
  shows "chained 0 (run_log sid ops new_registry []) (sr_cursor r)"
  using assms by (rule run_chained [rotated]) (simp add: session_of_def new_registry_def)

theorem replay_is_gapless_witness:
  "\<exists>r. session_of (run toy_ops new_registry) ''s1'' = Some r \<and> sr_cursor r = 9
     \<and> chained 0 (run_log ''s1'' toy_ops new_registry []) 9"
  using toy_run replay_is_gapless [of toy_ops "''s1''"] by fastforce

text \<open>
  A replay is accepted exactly when it comes from the current host and is either a repetition of
  the last response or the next one, starting at the cursor and spanning at most 1024 events; a
  rejected one moves no cursor of any session.
\<close>

theorem apply_replay_fails_closed:
  assumes "session_of reg sid = Some r"
  shows "(snd (apply_replay sid host sq a b reg) = Ok () \<longleftrightarrow>
            sr_host_instance_id r = host \<and>
            (sq = sr_response_sequence r \<and> b = sr_cursor r
             \<or> sr_response_sequence r < sq \<and> a = sr_cursor r \<and> a \<le> b \<and> b - a \<le> 1024))
       \<and> (snd (apply_replay sid host sq a b reg) \<noteq> Ok () \<longrightarrow>
            cursor_of (fst (apply_replay sid host sq a b reg)) sid' = cursor_of reg sid')"
proof (intro conjI impI)
  have "record_mut reg sid = Ok r" using assms by (simp add: record_mut_Ok)
  then show "snd (apply_replay sid host sq a b reg) = Ok () \<longleftrightarrow>
            sr_host_instance_id r = host \<and>
            (sq = sr_response_sequence r \<and> b = sr_cursor r
             \<or> sr_response_sequence r < sq \<and> a = sr_cursor r \<and> a \<le> b \<and> b - a \<le> 1024)"
    by (auto simp: apply_replay_def checked_sub64_def MAX_REPLAY_EVENTS_def not_less)
qed (rule apply_replay_rejects)

theorem apply_replay_fails_closed_witness:
  "\<exists>r. session_of (run toy_ops new_registry) ''s1'' = Some r \<and>
     (snd (apply_replay ''s1'' ''old'' 3 9 10 (run toy_ops new_registry)) = Ok () \<longleftrightarrow>
        sr_host_instance_id r = ''old'' \<and>
        (3 = sr_response_sequence r \<and> 10 = sr_cursor r
         \<or> sr_response_sequence r < 3 \<and> 9 = sr_cursor r \<and> (9::u64) \<le> 10 \<and> (10::u64) - 9 \<le> 1024))"
  using toy_run apply_replay_fails_closed [of "run toy_ops new_registry" "''s1''" _ "''old''" 3 9 10] by blast

text \<open>
  A session notifies at most once for each kind of notification, over any sequence of calls, and
  no notification steals the focus.
\<close>

theorem notifications_at_most_once:
  "distinct (map (\<lambda>n. (nt_session_id n, nt_kind n)) (notified ops reg))
   \<and> list_all (\<lambda>n. \<not> nt_steals_focus n) (notified ops reg)"
  by (simp add: notified_distinct notified_passive)

text \<open>
  All surfaces share one external handle. After any further calls a session is still there with
  the same id, kind, metadata and handle, and attaching to it returns that handle or fails.
\<close>

theorem attach_shares_handle:
  assumes "session_of reg sid = Some r"
  shows "\<exists>r'. session_of (run ops reg) sid = Some r' \<and> same_session r r' \<and>
    (\<forall>client now. case snd (attach sid client now (run ops reg)) of
       Ok handle \<Rightarrow> handle = sr_external_handle_id r | Err _ \<Rightarrow> True | Panic \<Rightarrow> False)"
proof -
  obtain r' where r': "session_of (run ops reg) sid = Some r'" "same_session r r'"
    using run_session [OF assms] by blast
  have "case snd (attach sid client now (run ops reg)) of
       Ok handle \<Rightarrow> handle = sr_external_handle_id r | Err _ \<Rightarrow> True | Panic \<Rightarrow> False" for client now
    by (rule record_mut_cases [of "run ops reg" sid])
       (use r' in \<open>auto simp: attach_def validate_id_def same_session_def\<close>)
  with r' show ?thesis by blast
qed

theorem attach_shares_handle_witness:
  "\<exists>r. session_of (run toy_ops new_registry) ''s1'' = Some r \<and>
     (\<exists>r'. session_of (run [OpPause ''s1'' 9] (run toy_ops new_registry)) ''s1'' = Some r' \<and> same_session r r')"
  using toy_run attach_shares_handle [of "run toy_ops new_registry" "''s1''" _ "[OpPause ''s1'' 9]"] by blast

text \<open>
  A cancelled, closed, failed or done session stays in one of these states under every call other
  than \<open>reconnect\<close> and \<open>apply_replay\<close>.
\<close>

theorem terminal_sessions_stay:
  assumes "terminal_in reg sid" and "list_all (\<lambda>op. \<not> reattaches op) ops"
  shows "terminal_in (run ops reg) sid"
  using assms by (induction ops arbitrary: reg) (simp_all add: terminal_kept)

theorem terminal_sessions_stay_witness:
  "terminal_in (run toy_ops new_registry) ''s1''
   \<and> terminal_in (run [OpClose ''s1'' 5, OpAttach ''s1'' ''acp'' 6] (run toy_ops new_registry)) ''s1''"
proof -
  have "terminal_in (run toy_ops new_registry) ''s1''" using toy_run by (auto simp: terminal_in_def)
  with terminal_sessions_stay [OF this, of "[OpClose ''s1'' 5, OpAttach ''s1'' ''acp'' 6]"] show ?thesis by simp
qed

text \<open>
  \<open>reconnect\<close> is the exception: on a closed session a request with an invalid replay limit
  fails, but marks the session degraded, and the next attach makes it active again.
\<close>

theorem failed_reconnect_reopens_closed:
  "\<exists>reg r. session_of reg ''s1'' = Some r \<and> sr_status r = Closed
     \<and> snd (exec (OpAttach ''s1'' ''tui'' 6) reg) = OutErr RegInvalidTransition
     \<and> snd (exec (OpReconnect ''s1'' ''host'' 9 0) reg) = OutErr RegReplayTooLarge
     \<and> (\<exists>r'. session_of (run [OpReconnect ''s1'' ''host'' 9 0, OpAttach ''s1'' ''tui'' 6] reg) ''s1'' = Some r'
           \<and> sr_status r' = Active)"
proof -
  let ?reg = "run (toy_ops @ [OpClose ''s1'' 5]) new_registry"
  have "(case session_of ?reg ''s1'' of None \<Rightarrow> False | Some r \<Rightarrow> sr_status r = Closed)"
      "snd (exec (OpAttach ''s1'' ''tui'' 6) ?reg) = OutErr RegInvalidTransition"
      "snd (exec (OpReconnect ''s1'' ''host'' 9 0) ?reg) = OutErr RegReplayTooLarge"
      "(case session_of (run [OpReconnect ''s1'' ''host'' 9 0, OpAttach ''s1'' ''tui'' 6] ?reg) ''s1'' of
         None \<Rightarrow> False | Some r \<Rightarrow> sr_status r = Active)"
    by code_simp+
  then show ?thesis by (intro exI [of _ ?reg]) (auto split: option.splits)
qed

end
