(* ===== verification/Operational_Inbox.thy ===== *)
theory Operational_Inbox
  imports BTree_Map Rust_Text "HOL-Library.Product_Lexorder"
begin

text \<open>
  The operator inbox of \<^verbatim>\<open>simplicio-agent-client/src/operational_inbox.rs\<close>: a reducer from
  canonical events to inbox items, and the gate that releases a dispatch request only after a
  matching authorization and, where the risk asks for it, a confirmation.
\<close>

section \<open>Data\<close>

definition MAX_TEXT_BYTES :: nat where "MAX_TEXT_BYTES = 512"

datatype Risk = Low | Medium | High | Critical

fun risk_rank :: "Risk \<Rightarrow> nat" where
  "risk_rank Low = 0"
| "risk_rank Medium = 1"
| "risk_rank High = 2"
| "risk_rank Critical = 3"

lemma risk_rank_inject: "risk_rank a = risk_rank b \<Longrightarrow> a = b"
  by (cases a; cases b) auto

instantiation Risk :: linorder
begin

definition less_eq_Risk :: "Risk \<Rightarrow> Risk \<Rightarrow> bool" where
  "less_eq_Risk a b \<longleftrightarrow> risk_rank a \<le> risk_rank b"

definition less_Risk :: "Risk \<Rightarrow> Risk \<Rightarrow> bool" where
  "less_Risk a b \<longleftrightarrow> risk_rank a < risk_rank b"

instance
  by standard (auto simp: less_eq_Risk_def less_Risk_def intro: risk_rank_inject)

end

datatype OperatorAction =
  ActApprove | ActReject | ActPause | ActResume | ActRedirect | ActCancel | ActRetryAfterReconcile | ActCompare
| ActRequestReview

datatype ItemStatus =
  NeedsDecision | AwaitingAuthorization | AwaitingConfirmation | ReadyToDispatch | AwaitingReceipt | ItemApplied
| ItemRejected | FailedClosed

record InboxItem =
  it_session_id :: string
  it_target :: string
  it_summary :: string
  it_risk :: Risk
  it_blocked :: bool
  it_approval_required :: bool
  it_interactive :: bool
  it_sequence :: u64
  it_status :: ItemStatus
  it_intent_id :: "string option"
  it_receipt_id :: "string option"
  it_evidence_refs :: "string list"

record ActionIntent =
  in_intent_id :: string
  in_session_id :: string
  in_target :: string
  in_action :: OperatorAction
  in_explicitly_idempotent :: bool
  in_idempotency_key :: string
  in_policy_revision :: u64

record Authorization =
  au_intent_id :: string
  au_decision_id :: string
  au_actor :: string
  au_target :: string
  au_policy_revision :: u64
  au_approved :: bool

record DispatchRequest =
  dr_intent :: ActionIntent
  dr_decision_id :: string

text \<open>
  \<open>Attention\<close>: event id, session, target, summary, risk, blocked, approval required, interactive,
  sequence, evidence. \<open>Receipt\<close>: event id, intent, decision, receipt, target, revision, applied.
\<close>

datatype CanonicalEvent =
  Attention string string string string Risk bool bool bool u64 "string list"
| AuthorizationEvent string Authorization
| Receipt string string string string string u64 bool

fun event_id :: "CanonicalEvent \<Rightarrow> string" where
  "event_id (Attention eid _ _ _ _ _ _ _ _ _) = eid"
| "event_id (AuthorizationEvent eid _) = eid"
| "event_id (Receipt eid _ _ _ _ _ _) = eid"

datatype ApplyOutcome = Applied | Duplicate

datatype InboxError =
  InvalidField string | StaleEvent | UnknownIntent | ForgedAuthorization | ConfirmationRequired | ForgedReceipt
| UnsafeBatch

record Decision =
  de_intent :: ActionIntent
  de_authorization :: "Authorization option"
  de_confirmed :: bool
  de_dispatched :: bool

record OperationalInbox =
  ib_items :: "(string, InboxItem) btree"
  ib_decisions :: "(string, Decision) btree"
  ib_seen_events :: "(string, CanonicalEvent) btree"

definition default_inbox :: OperationalInbox where
  "default_inbox = \<lparr>ib_items = [], ib_decisions = [], ib_seen_events = []\<rparr>"

section \<open>Validation and text\<close>

definition is_ascii_control :: "char \<Rightarrow> bool" where
  "is_ascii_control c \<longleftrightarrow> ord c < 32 \<or> ord c = 127"

definition validate_token :: "string \<Rightarrow> string \<Rightarrow> (InboxError, unit) res" where
  "validate_token name value =
     (if value = [] \<or> length value > MAX_TEXT_BYTES \<or> list_ex is_ascii_control value
      then Err (InvalidField name) else Ok ())"

fun validate_tokens :: "(string \<times> string) list \<Rightarrow> (InboxError, unit) res" where
  "validate_tokens [] = Ok ()"
| "validate_tokens ((name, value) # rest) = try_res (validate_token name value) (\<lambda>_. validate_tokens rest)"

definition validate_intent :: "ActionIntent \<Rightarrow> (InboxError, unit) res" where
  "validate_intent i = validate_tokens
     [(''intent_id'', in_intent_id i), (''session_id'', in_session_id i), (''target'', in_target i),
      (''idempotency_key'', in_idempotency_key i)]"

definition validate_authorization :: "Authorization \<Rightarrow> (InboxError, unit) res" where
  "validate_authorization a = validate_tokens
     [(''intent_id'', au_intent_id a), (''decision_id'', au_decision_id a), (''actor'', au_actor a),
      (''target'', au_target a)]"

definition needs_confirmation :: "Risk \<Rightarrow> OperatorAction \<Rightarrow> bool" where
  "needs_confirmation risk action \<longleftrightarrow> risk \<ge> High \<or> action \<in> {ActCancel, ActRedirect}"

text \<open>\<open>char::is_control\<close> of one character; the escape character is one of them.\<close>

definition control_char :: "string \<Rightarrow> bool" where
  "control_char c \<longleftrightarrow> has_control c"

definition REDACTED :: string where "REDACTED = ''[REDACTED]''"

text \<open>One turn of the loop over the markers: the value after the first occurrence is replaced.\<close>

definition redact_marker :: "string \<Rightarrow> string \<Rightarrow> string" where
  "redact_marker redacted marker =
     (case find_str (to_ascii_lowercase redacted) (to_ascii_lowercase marker) of
        None \<Rightarrow> redacted
      | Some start \<Rightarrow>
          let value_start = start + length marker;
              value_end = (case find_whitespace (drop value_start redacted) of
                             None \<Rightarrow> length redacted | Some offset \<Rightarrow> value_start + offset)
          in take value_start redacted @ REDACTED @ drop value_end redacted)"

definition redact_sensitive :: "string \<Rightarrow> string" where
  "redact_sensitive value = foldl redact_marker value
     [''Bearer '', ''api_key='', ''apikey='', ''password='', ''secret='', ''token='']"

definition sanitize_text :: "string \<Rightarrow> (InboxError, string) res" where
  "sanitize_text value =
     (if length value > MAX_TEXT_BYTES then Err (InvalidField ''summary'')
      else Ok (redact_sensitive (concat (filter (\<lambda>c. \<not> control_char c) (chars_of value)))))"

section \<open>The reducer\<close>

definition get_item :: "OperationalInbox \<Rightarrow> string \<Rightarrow> InboxItem option" where
  "get_item inbox session_id = bt_get (ib_items inbox) session_id"

definition put_item :: "string \<Rightarrow> InboxItem \<Rightarrow> OperationalInbox \<Rightarrow> OperationalInbox" where
  "put_item session_id item inbox = inbox\<lparr>ib_items := bt_insert session_id item (ib_items inbox)\<rparr>"

definition get_decision :: "OperationalInbox \<Rightarrow> string \<Rightarrow> Decision option" where
  "get_decision inbox intent_id = bt_get (ib_decisions inbox) intent_id"

definition put_decision :: "string \<Rightarrow> Decision \<Rightarrow> OperationalInbox \<Rightarrow> OperationalInbox" where
  "put_decision intent_id decision inbox = inbox\<lparr>ib_decisions := bt_insert intent_id decision (ib_decisions inbox)\<rparr>"

definition item_key :: "InboxItem \<Rightarrow> int \<times> int \<times> int \<times> int \<times> u64 \<times> string" where
  "item_key item =
     (- int (risk_rank (it_risk item)), - of_bool (it_blocked item), - of_bool (it_approval_required item),
      - of_bool (it_interactive item), it_sequence item, it_session_id item)"

definition ordered_items :: "OperationalInbox \<Rightarrow> InboxItem list" where
  "ordered_items inbox = sort_key item_key (bt_values (ib_items inbox))"

definition apply_attention ::
  "string \<Rightarrow> string \<Rightarrow> string \<Rightarrow> Risk \<Rightarrow> bool \<Rightarrow> bool \<Rightarrow> bool \<Rightarrow> u64 \<Rightarrow> string list \<Rightarrow> OperationalInbox \<Rightarrow>
   OperationalInbox \<times> (InboxError, unit) res" where
  "apply_attention session_id target summary risk blocked approval_required interactive sequence evidence_refs inbox =
     st_try inbox (validate_token ''session_id'' session_id) (\<lambda>_.
     st_try inbox (validate_token ''target'' target) (\<lambda>_.
     st_try inbox (sanitize_text summary) (\<lambda>summary.
     st_try inbox (validate_tokens (map (\<lambda>v. (''evidence_ref'', v)) evidence_refs)) (\<lambda>_.
     if evidence_refs = [] then (inbox, Err (InvalidField ''evidence_refs''))
     else if (case get_item inbox session_id of None \<Rightarrow> False | Some old \<Rightarrow> sequence \<le> it_sequence old)
     then (inbox, Err StaleEvent)
     else
       (put_item session_id
          \<lparr>it_session_id = session_id, it_target = target, it_summary = summary, it_risk = risk,
           it_blocked = blocked, it_approval_required = approval_required, it_interactive = interactive,
           it_sequence = sequence, it_status = NeedsDecision, it_intent_id = None, it_receipt_id = None,
           it_evidence_refs = evidence_refs\<rparr> inbox,
        Ok ())))))"

definition apply_authorization ::
  "Authorization \<Rightarrow> OperationalInbox \<Rightarrow> OperationalInbox \<times> (InboxError, unit) res" where
  "apply_authorization authorization inbox =
     st_try inbox (validate_authorization authorization) (\<lambda>_.
     st_try inbox (ok_or UnknownIntent (get_decision inbox (au_intent_id authorization))) (\<lambda>decision.
     if au_target authorization \<noteq> in_target (de_intent decision)
        \<or> au_policy_revision authorization \<noteq> in_policy_revision (de_intent decision)
     then (inbox, Err ForgedAuthorization)
     else
       st_try inbox (ok_or UnknownIntent (get_item inbox (in_session_id (de_intent decision)))) (\<lambda>item.
       if it_intent_id item \<noteq> Some (au_intent_id authorization) then (inbox, Err StaleEvent)
       else if de_authorization decision \<noteq> None then (inbox, Err StaleEvent)
       else
         let inbox = put_decision (au_intent_id authorization)
                       (decision\<lparr>de_authorization := Some authorization\<rparr>) inbox;
             status = (if au_approved authorization
                       then (if needs_confirmation (it_risk item) (in_action (de_intent decision))
                             then AwaitingConfirmation else ReadyToDispatch)
                       else ItemRejected)
         in (put_item (in_session_id (de_intent decision)) (item\<lparr>it_status := status\<rparr>) inbox, Ok ()))))"

definition apply_receipt ::
  "string \<Rightarrow> string \<Rightarrow> string \<Rightarrow> string \<Rightarrow> u64 \<Rightarrow> bool \<Rightarrow> OperationalInbox \<Rightarrow>
   OperationalInbox \<times> (InboxError, unit) res" where
  "apply_receipt intent_id decision_id receipt_id target policy_revision applied inbox =
     st_try inbox (validate_token ''receipt_id'' receipt_id) (\<lambda>_.
     st_try inbox (ok_or UnknownIntent (get_decision inbox intent_id)) (\<lambda>decision.
     st_try inbox (ok_or ForgedReceipt (de_authorization decision)) (\<lambda>authorization.
     if \<not> de_dispatched decision \<or> au_decision_id authorization \<noteq> decision_id
        \<or> in_target (de_intent decision) \<noteq> target
        \<or> in_policy_revision (de_intent decision) \<noteq> policy_revision
     then (inbox, Err ForgedReceipt)
     else
       st_try inbox (ok_or UnknownIntent (get_item inbox (in_session_id (de_intent decision)))) (\<lambda>item.
       if it_intent_id item \<noteq> Some intent_id \<or> it_receipt_id item \<noteq> None then (inbox, Err StaleEvent)
       else
         (put_item (in_session_id (de_intent decision))
            (item\<lparr>it_receipt_id := Some receipt_id,
                  it_status := (if applied then ItemApplied else FailedClosed)\<rparr>) inbox,
          Ok ())))))"

fun apply_body :: "CanonicalEvent \<Rightarrow> OperationalInbox \<Rightarrow> OperationalInbox \<times> (InboxError, unit) res" where
  "apply_body (Attention eid session_id target summary risk blocked approval interactive sequence evidence) inbox =
     apply_attention session_id target summary risk blocked approval interactive sequence evidence inbox"
| "apply_body (AuthorizationEvent eid authorization) inbox = apply_authorization authorization inbox"
| "apply_body (Receipt eid intent_id decision_id receipt_id target policy_revision applied) inbox =
     apply_receipt intent_id decision_id receipt_id target policy_revision applied inbox"

definition apply_event ::
  "CanonicalEvent \<Rightarrow> OperationalInbox \<Rightarrow> OperationalInbox \<times> (InboxError, ApplyOutcome) res" where
  "apply_event event inbox =
     st_try inbox (validate_token ''event_id'' (event_id event)) (\<lambda>_.
     case bt_get (ib_seen_events inbox) (event_id event) of
       Some previous \<Rightarrow> (inbox, if previous = event then Ok Duplicate else Err StaleEvent)
     | None \<Rightarrow>
         let (inbox, r) = apply_body event inbox in
         st_try inbox r (\<lambda>_.
           (inbox\<lparr>ib_seen_events := bt_insert (event_id event) event (ib_seen_events inbox)\<rparr>, Ok Applied)))"

definition record_intent :: "ActionIntent \<Rightarrow> OperationalInbox \<Rightarrow> OperationalInbox \<times> (InboxError, unit) res" where
  "record_intent intent inbox =
     st_try inbox (validate_intent intent) (\<lambda>_.
     if get_decision inbox (in_intent_id intent) \<noteq> None then (inbox, Err StaleEvent)
     else
       st_try inbox (ok_or UnknownIntent (get_item inbox (in_session_id intent))) (\<lambda>item.
       if it_target item \<noteq> in_target intent \<or> it_status item \<noteq> NeedsDecision then (inbox, Err StaleEvent)
       else
         let inbox = put_item (in_session_id intent)
               (item\<lparr>it_intent_id := Some (in_intent_id intent), it_status := AwaitingAuthorization\<rparr>) inbox
         in (put_decision (in_intent_id intent)
               \<lparr>de_intent = intent, de_authorization = None, de_confirmed = False, de_dispatched = False\<rparr> inbox,
             Ok ())))"

definition confirm :: "string \<Rightarrow> OperationalInbox \<Rightarrow> OperationalInbox \<times> (InboxError, unit) res" where
  "confirm intent_id inbox =
     st_try inbox (ok_or UnknownIntent (get_decision inbox intent_id)) (\<lambda>decision.
     if \<not> (case de_authorization decision of None \<Rightarrow> False | Some a \<Rightarrow> au_approved a)
     then (inbox, Err ForgedAuthorization)
     else
       let inbox = put_decision intent_id (decision\<lparr>de_confirmed := True\<rparr>) inbox in
       st_try inbox (ok_or UnknownIntent (get_item inbox (in_session_id (de_intent decision)))) (\<lambda>item.
       (put_item (in_session_id (de_intent decision)) (item\<lparr>it_status := ReadyToDispatch\<rparr>) inbox, Ok ())))"

definition take_dispatch ::
  "string \<Rightarrow> OperationalInbox \<Rightarrow> OperationalInbox \<times> (InboxError, DispatchRequest) res" where
  "take_dispatch intent_id inbox =
     st_try inbox (ok_or UnknownIntent (get_decision inbox intent_id)) (\<lambda>decision.
     st_try inbox (case de_authorization decision of
                     Some a \<Rightarrow> (if au_approved a then Ok a else Err ForgedAuthorization)
                   | None \<Rightarrow> Err ForgedAuthorization) (\<lambda>authorization.
     st_try inbox (ok_or UnknownIntent (get_item inbox (in_session_id (de_intent decision)))) (\<lambda>item.
     if needs_confirmation (it_risk item) (in_action (de_intent decision)) \<and> \<not> de_confirmed decision
     then (inbox, Err ConfirmationRequired)
     else if de_dispatched decision \<or> it_status item \<noteq> ReadyToDispatch then (inbox, Err StaleEvent)
     else
       let inbox = put_decision intent_id (decision\<lparr>de_dispatched := True\<rparr>) inbox;
           inbox = put_item (in_session_id (de_intent decision)) (item\<lparr>it_status := AwaitingReceipt\<rparr>) inbox
       in (inbox, Ok \<lparr>dr_intent = de_intent decision, dr_decision_id = au_decision_id authorization\<rparr>))))"

fun repeated_key :: "string list \<Rightarrow> ActionIntent list \<Rightarrow> bool" where
  "repeated_key keys [] = False"
| "repeated_key keys (i # is) =
     (in_idempotency_key i \<in> set keys \<or> repeated_key (in_idempotency_key i # keys) is)"

fun validate_intents :: "ActionIntent list \<Rightarrow> (InboxError, unit) res" where
  "validate_intents [] = Ok ()"
| "validate_intents (i # is) = try_res (validate_intent i) (\<lambda>_. validate_intents is)"

definition validate_batch :: "ActionIntent list \<Rightarrow> (InboxError, unit) res" where
  "validate_batch intents =
     (if list_ex (\<lambda>i. \<not> in_explicitly_idempotent i) intents then Err UnsafeBatch
      else if repeated_key [] intents then Err UnsafeBatch
      else validate_intents intents)"

end
