(* ===== verification/Inbox_Invariants.thy ===== *)
theory Inbox_Invariants
  imports Operational_Inbox
begin

text \<open>
  What the operator inbox keeps under every sequence of calls: the gate in front of a dispatch, at
  most one dispatch per intent, idempotent events, receipts as the only authority for effects, and
  text without control characters.
\<close>

section \<open>Calls and runs\<close>

datatype InboxOp = DoApply CanonicalEvent | DoIntent ActionIntent | DoConfirm string | DoDispatch string

datatype InboxOut =
  OkApply ApplyOutcome | OkUnit | OkDispatch DispatchRequest | Failed InboxError | Panicked

fun inbox_out :: "('a \<Rightarrow> InboxOut) \<Rightarrow> (InboxError, 'a) res \<Rightarrow> InboxOut" where
  "inbox_out f (Ok x) = f x"
| "inbox_out f (Err e) = Failed e"
| "inbox_out f Panic = Panicked"

fun inbox_exec :: "InboxOp \<Rightarrow> OperationalInbox \<Rightarrow> OperationalInbox \<times> InboxOut" where
  "inbox_exec (DoApply e) inbox = map_prod id (inbox_out OkApply) (apply_event e inbox)"
| "inbox_exec (DoIntent i) inbox = map_prod id (inbox_out (\<lambda>_. OkUnit)) (record_intent i inbox)"
| "inbox_exec (DoConfirm i) inbox = map_prod id (inbox_out (\<lambda>_. OkUnit)) (confirm i inbox)"
| "inbox_exec (DoDispatch i) inbox = map_prod id (inbox_out OkDispatch) (take_dispatch i inbox)"

type_synonym inbox_history = "(InboxOp \<times> InboxOut) list"

fun inbox_run :: "InboxOp list \<Rightarrow> OperationalInbox \<times> inbox_history \<Rightarrow> OperationalInbox \<times> inbox_history" where
  "inbox_run [] st = st"
| "inbox_run (op # ops) (inbox, h) =
     (let (inbox', out) = inbox_exec op inbox in inbox_run ops (inbox', h @ [(op, out)]))"

section \<open>What each call does\<close>

lemmas item_maps = get_item_def put_item_def get_decision_def put_decision_def

lemma get_put_item [simp]:
  "get_item (put_item s it inbox) s' = (if s' = s then Some it else get_item inbox s')"
  "get_item (put_decision i d inbox) s' = get_item inbox s'"
  "get_decision (put_decision i d inbox) i' = (if i' = i then Some d else get_decision inbox i')"
  "get_decision (put_item s it inbox) i' = get_decision inbox i'"
  "ib_seen_events (put_item s it inbox) = ib_seen_events inbox"
  "ib_seen_events (put_decision i d inbox) = ib_seen_events inbox"
  by (simp_all add: item_maps bt_get_insert)

definition new_item :: "string \<Rightarrow> string \<Rightarrow> string \<Rightarrow> Risk \<Rightarrow> bool \<Rightarrow> bool \<Rightarrow> bool \<Rightarrow> u64 \<Rightarrow> string list \<Rightarrow> InboxItem" where
  "new_item s t sm rk b ap i q ev = \<lparr>it_session_id = s, it_target = t, it_summary = sm, it_risk = rk, it_blocked = b,
     it_approval_required = ap, it_interactive = i, it_sequence = q, it_status = NeedsDecision, it_intent_id = None,
     it_receipt_id = None, it_evidence_refs = ev\<rparr>"

lemma apply_attention_cases:
  assumes "apply_attention s t sm rk b ap i q ev inbox = (inbox', x)"
  shows "inbox' = inbox \<and> x \<noteq> Ok () \<or>
    x = Ok () \<and> (\<exists>sm'. sanitize_text sm = Ok sm' \<and> inbox' = put_item s (new_item s t sm' rk b ap i q ev) inbox)
      \<and> (\<forall>old. get_item inbox s = Some old \<longrightarrow> it_sequence old < q)"
  using assms
  by (auto simp: apply_attention_def st_try_eq new_item_def split: if_splits option.splits)

lemma apply_authorization_cases:
  assumes "apply_authorization a inbox = (inbox', x)"
  shows "inbox' = inbox \<and> x \<noteq> Ok () \<or>
    x = Ok () \<and> (\<exists>d it st. get_decision inbox (au_intent_id a) = Some d \<and> au_target a = in_target (de_intent d)
      \<and> au_policy_revision a = in_policy_revision (de_intent d)
      \<and> get_item inbox (in_session_id (de_intent d)) = Some it \<and> it_intent_id it = Some (au_intent_id a)
      \<and> de_authorization d = None
      \<and> st \<in> {AwaitingConfirmation, ReadyToDispatch, ItemRejected}
      \<and> inbox' = put_item (in_session_id (de_intent d)) (it\<lparr>it_status := st\<rparr>)
           (put_decision (au_intent_id a) (d\<lparr>de_authorization := Some a\<rparr>) inbox))"
  using assms
  by (auto simp: apply_authorization_def st_try_eq ok_or_iffs Let_def split: if_splits)

lemma apply_receipt_cases:
  assumes "apply_receipt i di ri t pr ap inbox = (inbox', x)"
  shows "inbox' = inbox \<and> x \<noteq> Ok () \<or>
    x = Ok () \<and> (\<exists>d a it. get_decision inbox i = Some d \<and> de_authorization d = Some a \<and> de_dispatched d
      \<and> au_decision_id a = di \<and> in_target (de_intent d) = t \<and> in_policy_revision (de_intent d) = pr
      \<and> get_item inbox (in_session_id (de_intent d)) = Some it \<and> it_intent_id it = Some i \<and> it_receipt_id it = None
      \<and> inbox' = put_item (in_session_id (de_intent d))
          (it\<lparr>it_receipt_id := Some ri, it_status := (if ap then ItemApplied else FailedClosed)\<rparr>) inbox)"
  using assms
  by (auto simp: apply_receipt_def st_try_eq ok_or_iffs split: if_splits)

lemma record_intent_cases:
  assumes "record_intent i inbox = (inbox', x)"
  shows "inbox' = inbox \<and> x \<noteq> Ok () \<or>
    x = Ok () \<and> (\<exists>it. get_decision inbox (in_intent_id i) = None \<and> get_item inbox (in_session_id i) = Some it
      \<and> it_target it = in_target i \<and> it_status it = NeedsDecision
      \<and> inbox' = put_decision (in_intent_id i)
           \<lparr>de_intent = i, de_authorization = None, de_confirmed = False, de_dispatched = False\<rparr>
           (put_item (in_session_id i)
             (it\<lparr>it_intent_id := Some (in_intent_id i), it_status := AwaitingAuthorization\<rparr>) inbox))"
  using assms
  by (auto simp: record_intent_def st_try_eq ok_or_iffs Let_def split: if_splits)

lemma confirm_cases:
  assumes "confirm i inbox = (inbox', x)"
  shows "inbox' = inbox \<and> x \<noteq> Ok () \<or>
    (\<exists>d a. get_decision inbox i = Some d \<and> de_authorization d = Some a \<and> au_approved a \<and>
      (case get_item inbox (in_session_id (de_intent d)) of
         None \<Rightarrow> x \<noteq> Ok () \<and> inbox' = put_decision i (d\<lparr>de_confirmed := True\<rparr>) inbox
       | Some it \<Rightarrow> x = Ok () \<and> inbox' = put_item (in_session_id (de_intent d)) (it\<lparr>it_status := ReadyToDispatch\<rparr>)
            (put_decision i (d\<lparr>de_confirmed := True\<rparr>) inbox)))"
  using assms
  by (auto simp: confirm_def st_try_eq ok_or_iffs Let_def split: if_splits option.splits)

lemma take_dispatch_cases:
  assumes "take_dispatch i inbox = (inbox', x)"
  shows "inbox' = inbox \<and> (\<forall>req. x \<noteq> Ok req) \<or>
    (\<exists>d a it. get_decision inbox i = Some d \<and> de_authorization d = Some a \<and> au_approved a
      \<and> get_item inbox (in_session_id (de_intent d)) = Some it
      \<and> (needs_confirmation (it_risk it) (in_action (de_intent d)) \<longrightarrow> de_confirmed d)
      \<and> \<not> de_dispatched d \<and> it_status it = ReadyToDispatch
      \<and> x = Ok \<lparr>dr_intent = de_intent d, dr_decision_id = au_decision_id a\<rparr>
      \<and> inbox' = put_item (in_session_id (de_intent d)) (it\<lparr>it_status := AwaitingReceipt\<rparr>)
            (put_decision i (d\<lparr>de_dispatched := True\<rparr>) inbox))"
  using assms
  by (auto simp: take_dispatch_def st_try_eq ok_or_iffs Let_def split: if_splits option.splits)

definition mark_seen :: "CanonicalEvent \<Rightarrow> OperationalInbox \<Rightarrow> OperationalInbox" where
  "mark_seen e inbox = inbox\<lparr>ib_seen_events := bt_insert (event_id e) e (ib_seen_events inbox)\<rparr>"

lemma mark_seen_simps [simp]:
  "get_item (mark_seen e inbox) s = get_item inbox s"
  "get_decision (mark_seen e inbox) i = get_decision inbox i"
  "bt_get (ib_seen_events (mark_seen e inbox)) = (bt_get (ib_seen_events inbox))(event_id e \<mapsto> e)"
  by (simp_all add: mark_seen_def item_maps bt_get_insert fun_eq_iff)

lemma apply_body_fail: "apply_body e inbox = (inbox', x) \<Longrightarrow> x \<noteq> Ok () \<Longrightarrow> inbox' = inbox"
  by (cases e) (auto dest: apply_attention_cases apply_authorization_cases apply_receipt_cases)

lemma apply_event_cases:
  assumes "apply_event e inbox = (inbox', x)"
  shows "inbox' = inbox \<and> (\<forall>o'. x = Ok o' \<longrightarrow> o' = Duplicate \<and> bt_get (ib_seen_events inbox) (event_id e) = Some e) \<or>
    x = Ok Applied \<and> bt_get (ib_seen_events inbox) (event_id e) = None
      \<and> (\<exists>inbox1. apply_body e inbox = (inbox1, Ok ()) \<and> inbox' = mark_seen e inbox1)"
  using assms apply_body_fail [of e inbox]
  by (auto simp: apply_event_def st_try_eq Let_def mark_seen_def split: option.splits prod.splits if_splits)


section \<open>The invariant\<close>

definition item_ok :: "OperationalInbox \<Rightarrow> string \<Rightarrow> InboxItem \<Rightarrow> bool" where
  "item_ok inbox s it \<longleftrightarrow> it_session_id it = s
     \<and> (it_status it = NeedsDecision \<longrightarrow> it_intent_id it = None \<and> it_receipt_id it = None)
     \<and> (it_status it \<in> {ItemApplied, FailedClosed} \<longrightarrow> it_receipt_id it \<noteq> None)
     \<and> (it_receipt_id it \<noteq> None \<longrightarrow>
          (\<exists>i d. it_intent_id it = Some i \<and> get_decision inbox i = Some d \<and> de_dispatched d))"

definition decision_ok :: "OperationalInbox \<Rightarrow> string \<Rightarrow> Decision \<Rightarrow> bool" where
  "decision_ok inbox i d \<longleftrightarrow> in_intent_id (de_intent d) = i
     \<and> get_item inbox (in_session_id (de_intent d)) \<noteq> None
     \<and> (\<forall>a. de_authorization d = Some a \<longrightarrow> au_intent_id a = i \<and> au_target a = in_target (de_intent d)
          \<and> au_policy_revision a = in_policy_revision (de_intent d))"

definition decision_history :: "inbox_history \<Rightarrow> string \<Rightarrow> Decision \<Rightarrow> bool" where
  "decision_history h i d \<longleftrightarrow> (DoIntent (de_intent d), OkUnit) \<in> set h
     \<and> (\<forall>a. de_authorization d = Some a \<longrightarrow> (\<exists>eid. (DoApply (AuthorizationEvent eid a), OkApply Applied) \<in> set h))
     \<and> (de_confirmed d \<longrightarrow> (DoConfirm i, OkUnit) \<in> set h)
     \<and> ((\<exists>req. (DoDispatch i, OkDispatch req) \<in> set h) \<longleftrightarrow> de_dispatched d)"

definition inbox_inv :: "OperationalInbox \<times> inbox_history \<Rightarrow> bool" where
  "inbox_inv = (\<lambda>(inbox, h).
     (\<forall>s it. get_item inbox s = Some it \<longrightarrow> item_ok inbox s it)
     \<and> (\<forall>i d. get_decision inbox i = Some d \<longrightarrow> decision_ok inbox i d \<and> decision_history h i d)
     \<and> (\<forall>i req. (DoDispatch i, OkDispatch req) \<in> set h \<longrightarrow> get_decision inbox i \<noteq> None)
     \<and> (\<forall>k e. bt_get (ib_seen_events inbox) k = Some e \<longrightarrow> event_id e = k)
     \<and> (\<forall>e. (DoApply e, OkApply Applied) \<in> set h \<longrightarrow> bt_get (ib_seen_events inbox) (event_id e) = Some e))"

inductive inbox_step :: "OperationalInbox \<times> inbox_history \<Rightarrow> OperationalInbox \<times> inbox_history \<Rightarrow> bool" where
  inbox_stepI: "inbox_exec op inbox = (inbox', out) \<Longrightarrow> inbox_step (inbox, h) (inbox', h @ [(op, out)])"

inductive_cases inbox_stepE: "inbox_step (inbox, h) st'"

lemma inbox_out_unit [simp]:
  "inbox_out (\<lambda>_. OkUnit) x = OkUnit \<longleftrightarrow> (\<exists>y. x = Ok y)"
  "inbox_out (\<lambda>_. OkUnit) x \<noteq> OkDispatch req" "inbox_out (\<lambda>_. OkUnit) x \<noteq> OkApply oc"
  by (cases x; simp)+

lemma inbox_out_apply [simp]:
  "inbox_out OkApply x = OkApply oc \<longleftrightarrow> x = Ok oc" "inbox_out OkApply x \<noteq> OkUnit"
  "inbox_out OkApply x \<noteq> OkDispatch req"
  by (cases x; simp)+

lemma inbox_out_dispatch [simp]:
  "inbox_out OkDispatch x = OkDispatch req \<longleftrightarrow> x = Ok req" "inbox_out OkDispatch x \<noteq> OkUnit"
  "inbox_out OkDispatch x \<noteq> OkApply oc"
  by (cases x; simp)+

lemma decision_history_snoc:
  "decision_history h i d \<Longrightarrow> \<not> (\<exists>req. x = (DoDispatch i, OkDispatch req)) \<Longrightarrow> decision_history (h @ [x]) i d"
  unfolding decision_history_def by auto

text \<open>A call that changes nothing and is none of the successes that the history records.\<close>

lemma inbox_inv_idle:
  assumes "inbox_inv (inbox, h)" and "\<not> (\<exists>i req. op = DoDispatch i \<and> out = OkDispatch req)"
    and "\<not> (\<exists>e. op = DoApply e \<and> out = OkApply Applied)"
  shows "inbox_inv (inbox, h @ [(op, out)])"
proof -
  have "decision_history (h @ [(op, out)]) i d" if "decision_history h i d" for i d
    using that assms(2) by (intro decision_history_snoc) auto
  with assms show ?thesis unfolding inbox_inv_def by simp blast
qed


lemma inbox_invD:
  assumes "inbox_inv (inbox, h)"
  shows "get_item inbox s = Some it \<Longrightarrow> item_ok inbox s it"
    and "get_decision inbox i = Some d \<Longrightarrow> decision_ok inbox i d"
    and "get_decision inbox i = Some d \<Longrightarrow> decision_history h i d"
    and "(DoDispatch i, OkDispatch req) \<in> set h \<Longrightarrow> get_decision inbox i \<noteq> None"
    and "bt_get (ib_seen_events inbox) k = Some e \<Longrightarrow> event_id e = k"
    and "(DoApply e, OkApply Applied) \<in> set h \<Longrightarrow> bt_get (ib_seen_events inbox) (event_id e) = Some e"
  using assms by (auto simp: inbox_inv_def)

lemma inbox_invI:
  assumes "\<And>s it. get_item inbox s = Some it \<Longrightarrow> item_ok inbox s it"
    and "\<And>i d. get_decision inbox i = Some d \<Longrightarrow> decision_ok inbox i d"
    and "\<And>i d. get_decision inbox i = Some d \<Longrightarrow> decision_history h i d"
    and "\<And>i req. (DoDispatch i, OkDispatch req) \<in> set h \<Longrightarrow> get_decision inbox i \<noteq> None"
    and "\<And>k e. bt_get (ib_seen_events inbox) k = Some e \<Longrightarrow> event_id e = k"
    and "\<And>e. (DoApply e, OkApply Applied) \<in> set h \<Longrightarrow> bt_get (ib_seen_events inbox) (event_id e) = Some e"
  shows "inbox_inv (inbox, h)"
  unfolding inbox_inv_def using assms by (simp, blast)

lemma item_ok_mono:
  assumes "item_ok inbox s it"
    and "\<And>i d. get_decision inbox i = Some d \<Longrightarrow> \<exists>d'. get_decision inbox' i = Some d' \<and> (de_dispatched d \<longrightarrow> de_dispatched d')"
  shows "item_ok inbox' s it"
  using assms unfolding item_ok_def by blast

lemma decision_ok_mono:
  assumes "decision_ok inbox i d" and "\<And>s. get_item inbox s \<noteq> None \<Longrightarrow> get_item inbox' s \<noteq> None"
  shows "decision_ok inbox' i d"
  using assms unfolding decision_ok_def by blast

text \<open>
  A successful call changes one item and at most one decision; the rest of the invariant carries over.
\<close>

lemma inbox_inv_change:
  assumes inv: "inbox_inv (inbox, h)"
    and items: "\<And>s it. get_item inbox' s = Some it \<Longrightarrow> get_item inbox s = Some it \<or> item_ok inbox' s it"
      "\<And>s. get_item inbox s \<noteq> None \<Longrightarrow> get_item inbox' s \<noteq> None"
    and decisions: "\<And>k d. get_decision inbox' k = Some d \<Longrightarrow>
        (get_decision inbox k = Some d \<and> \<not> (\<exists>req. x = (DoDispatch k, OkDispatch req)))
        \<or> (decision_ok inbox' k d \<and> decision_history (h @ [x]) k d)"
      "\<And>k d. get_decision inbox k = Some d \<Longrightarrow> \<exists>d'. get_decision inbox' k = Some d' \<and> (de_dispatched d \<longrightarrow> de_dispatched d')"
    and dispatch: "\<And>k req. x = (DoDispatch k, OkDispatch req) \<Longrightarrow> get_decision inbox' k \<noteq> None"
    and seen: "\<And>k e. bt_get (ib_seen_events inbox') k = Some e \<Longrightarrow> bt_get (ib_seen_events inbox) k = Some e \<or> event_id e = k"
      "\<And>e. x = (DoApply e, OkApply Applied) \<or> bt_get (ib_seen_events inbox) (event_id e) = Some e \<Longrightarrow>
         bt_get (ib_seen_events inbox') (event_id e) = Some e"
  shows "inbox_inv (inbox', h @ [x])"
proof (rule inbox_invI)
  note D = inbox_invD [OF inv]
  fix s it assume "get_item inbox' s = Some it"
  then show "item_ok inbox' s it" using items(1) item_ok_mono [OF D(1) decisions(2)] by blast
next
  note D = inbox_invD [OF inv]
  fix k d assume g: "get_decision inbox' k = Some d"
  show "decision_ok inbox' k d" using decisions(1) [OF g] decision_ok_mono [OF D(2) items(2)] by blast
next
  note D = inbox_invD [OF inv]
  fix k d assume g: "get_decision inbox' k = Some d"
  show "decision_history (h @ [x]) k d" using decisions(1) [OF g] decision_history_snoc [OF D(3)] by blast
next
  fix k req assume "(DoDispatch k, OkDispatch req) \<in> set (h @ [x])"
  then show "get_decision inbox' k \<noteq> None" using dispatch inbox_invD(4) [OF inv] decisions(2) by fastforce
next
  fix k e assume "bt_get (ib_seen_events inbox') k = Some e"
  then show "event_id e = k" using seen(1) inbox_invD(5) [OF inv] by blast
next
  fix e assume "(DoApply e, OkApply Applied) \<in> set (h @ [x])"
  then show "bt_get (ib_seen_events inbox') (event_id e) = Some e"
    using seen(2) inbox_invD(6) [OF inv] by auto
qed

lemma inbox_inv_intent:
  assumes inv: "inbox_inv (inbox, h)" and op: "record_intent i inbox = (inbox', Ok ())"
  shows "inbox_inv (inbox', h @ [(DoIntent i, OkUnit)])"
proof -
  from record_intent_cases [OF op] obtain it where new: "get_decision inbox (in_intent_id i) = None"
      and it: "get_item inbox (in_session_id i) = Some it" "it_target it = in_target i" "it_status it = NeedsDecision"
      and inbox': "inbox' = put_decision (in_intent_id i)
           \<lparr>de_intent = i, de_authorization = None, de_confirmed = False, de_dispatched = False\<rparr>
           (put_item (in_session_id i)
             (it\<lparr>it_intent_id := Some (in_intent_id i), it_status := AwaitingAuthorization\<rparr>) inbox)"
    by auto
  note D = inbox_invD [OF inv]
  have none: "(DoDispatch (in_intent_id i), OkDispatch req) \<notin> set h" for req using D(4) new by blast
  show ?thesis
    using inv
    by (rule inbox_inv_change)
       (use new it none D(1) [OF it(1)] in
         \<open>auto simp: inbox' item_ok_def decision_ok_def decision_history_def split: if_splits\<close>)
qed

text \<open>What a call does to the seen events: nothing, or it records the event it applied.\<close>

definition seen_effect :: "InboxOp \<times> InboxOut \<Rightarrow> OperationalInbox \<Rightarrow> OperationalInbox \<Rightarrow> bool" where
  "seen_effect x inbox inbox' \<longleftrightarrow>
     (ib_seen_events inbox' = ib_seen_events inbox \<and> (\<forall>e. x \<noteq> (DoApply e, OkApply Applied)))
     \<or> (\<exists>e. x = (DoApply e, OkApply Applied) \<and> bt_get (ib_seen_events inbox) (event_id e) = None
          \<and> bt_get (ib_seen_events inbox') = (bt_get (ib_seen_events inbox))(event_id e \<mapsto> e))"

lemma seen_effectD:
  assumes "seen_effect x inbox inbox'"
  shows "bt_get (ib_seen_events inbox') k = Some e \<Longrightarrow> bt_get (ib_seen_events inbox) k = Some e \<or> event_id e = k"
    and "x = (DoApply e, OkApply Applied) \<or> bt_get (ib_seen_events inbox) (event_id e) = Some e \<Longrightarrow>
         bt_get (ib_seen_events inbox') (event_id e) = Some e"
  using assms by (auto simp: seen_effect_def split: if_splits)

text \<open>A call that overwrites a known decision and the item of its session.\<close>

lemma inbox_inv_overwrite:
  assumes inv: "inbox_inv (inbox, h)" and d: "get_decision inbox i = Some d"
    and it: "get_item inbox (in_session_id (de_intent d)) = Some it"
    and items: "\<And>s. get_item inbox' s = (if s = in_session_id (de_intent d) then Some it' else get_item inbox s)"
    and decisions: "\<And>k. get_decision inbox' k = (if k = i then Some d' else get_decision inbox k)"
    and ok: "item_ok inbox (in_session_id (de_intent d)) it' \<or> item_ok inbox' (in_session_id (de_intent d)) it'"
      "decision_ok inbox i d'" "decision_history (h @ [x]) i d'"
    and disp: "de_dispatched d \<longrightarrow> de_dispatched d'" "\<And>k req. x = (DoDispatch k, OkDispatch req) \<Longrightarrow> k = i"
    and seen: "seen_effect x inbox inbox'"
  shows "inbox_inv (inbox', h @ [x])"
proof -
  have grow: "\<exists>d2. get_decision inbox' k = Some d2 \<and> (de_dispatched d1 \<longrightarrow> de_dispatched d2)"
    if "get_decision inbox k = Some d1" for k d1
    using that d disp(1) by (cases "k = i") (auto simp: decisions)
  have item: "item_ok inbox' (in_session_id (de_intent d)) it'"
    using ok(1) item_ok_mono [OF _ grow] by blast
  show ?thesis
    using inv
  proof (rule inbox_inv_change)
    fix s it1 assume "get_item inbox' s = Some it1"
    then show "get_item inbox s = Some it1 \<or> item_ok inbox' s it1"
      using item by (cases "s = in_session_id (de_intent d)") (simp_all add: items)
  next
    fix k d1 assume "get_decision inbox' k = Some d1"
    then show "get_decision inbox k = Some d1 \<and> \<not> (\<exists>req. x = (DoDispatch k, OkDispatch req))
          \<or> decision_ok inbox' k d1 \<and> decision_history (h @ [x]) k d1"
      using ok(3) disp(2) decision_ok_mono [OF ok(2), of inbox'] by (cases "k = i") (auto simp: decisions items)
  qed (use it d disp(2) grow seen_effectD [OF seen] in \<open>auto simp: items decisions\<close>)
qed

lemma inbox_inv_confirm:
  assumes inv: "inbox_inv (inbox, h)" and op: "confirm i inbox = (inbox', Ok ())"
  shows "inbox_inv (inbox', h @ [(DoConfirm i, OkUnit)])"
proof -
  from confirm_cases [OF op] obtain d a it where d: "get_decision inbox i = Some d" "de_authorization d = Some a" "au_approved a"
      and it: "get_item inbox (in_session_id (de_intent d)) = Some it"
      and inbox': "inbox' = put_item (in_session_id (de_intent d)) (it\<lparr>it_status := ReadyToDispatch\<rparr>)
            (put_decision i (d\<lparr>de_confirmed := True\<rparr>) inbox)"
    by (auto split: option.splits)
  note D = inbox_invD [OF inv]
  show ?thesis
    by (rule inbox_inv_overwrite [OF inv d(1) it, where it' = "it\<lparr>it_status := ReadyToDispatch\<rparr>"
          and d' = "d\<lparr>de_confirmed := True\<rparr>"])
       (use D(1) [OF it] D(2) [OF d(1)] D(3) [OF d(1)] in
         \<open>simp_all add: inbox' item_ok_def decision_ok_def decision_history_def seen_effect_def\<close>)
qed

lemma inbox_inv_dispatch:
  assumes inv: "inbox_inv (inbox, h)" and op: "take_dispatch i inbox = (inbox', Ok req)"
  shows "inbox_inv (inbox', h @ [(DoDispatch i, OkDispatch req)])"
proof -
  from take_dispatch_cases [OF op] obtain d a it where d: "get_decision inbox i = Some d" "de_authorization d = Some a"
      "au_approved a" "\<not> de_dispatched d"
      and it: "get_item inbox (in_session_id (de_intent d)) = Some it" "it_status it = ReadyToDispatch"
      and inbox': "inbox' = put_item (in_session_id (de_intent d)) (it\<lparr>it_status := AwaitingReceipt\<rparr>)
            (put_decision i (d\<lparr>de_dispatched := True\<rparr>) inbox)"
    by auto
  note D = inbox_invD [OF inv]
  show ?thesis
    by (rule inbox_inv_overwrite [OF inv d(1) it(1), where it' = "it\<lparr>it_status := AwaitingReceipt\<rparr>"
          and d' = "d\<lparr>de_dispatched := True\<rparr>"])
       (use D(1) [OF it(1)] D(2) [OF d(1)] D(3) [OF d(1)] in
         \<open>simp_all add: inbox' item_ok_def decision_ok_def decision_history_def seen_effect_def, blast?\<close>)
qed

lemma inbox_inv_authorization:
  assumes inv: "inbox_inv (inbox, h)" and op: "apply_authorization a inbox = (inbox1, Ok ())"
    and fresh: "bt_get (ib_seen_events inbox) eid = None"
  shows "inbox_inv (mark_seen (AuthorizationEvent eid a) inbox1, h @ [(DoApply (AuthorizationEvent eid a), OkApply Applied)])"
proof -
  from apply_authorization_cases [OF op] obtain d it st where d: "get_decision inbox (au_intent_id a) = Some d"
      "au_target a = in_target (de_intent d)" "au_policy_revision a = in_policy_revision (de_intent d)"
      "de_authorization d = None"
    and it: "get_item inbox (in_session_id (de_intent d)) = Some it"
    and st: "st \<in> {AwaitingConfirmation, ReadyToDispatch, ItemRejected}"
    and inbox1: "inbox1 = put_item (in_session_id (de_intent d)) (it\<lparr>it_status := st\<rparr>)
           (put_decision (au_intent_id a) (d\<lparr>de_authorization := Some a\<rparr>) inbox)"
    by auto
  note D = inbox_invD [OF inv]
  show ?thesis
    by (rule inbox_inv_overwrite [OF inv d(1) it, where it' = "it\<lparr>it_status := st\<rparr>"
          and d' = "d\<lparr>de_authorization := Some a\<rparr>"])
       (use D(1) [OF it] D(2) [OF d(1)] D(3) [OF d(1)] d fresh st in
         \<open>auto simp: inbox1 item_ok_def decision_ok_def decision_history_def seen_effect_def\<close>)
qed


lemma inbox_inv_receipt:
  assumes inv: "inbox_inv (inbox, h)" and op: "apply_receipt i di ri t pr ap inbox = (inbox1, Ok ())"
    and fresh: "bt_get (ib_seen_events inbox) eid = None"
  shows "inbox_inv (mark_seen (Receipt eid i di ri t pr ap) inbox1, h @ [(DoApply (Receipt eid i di ri t pr ap), OkApply Applied)])"
proof -
  let ?st = "if ap then ItemApplied else FailedClosed"
  from apply_receipt_cases [OF op] obtain d it where d: "get_decision inbox i = Some d" "de_dispatched d"
    and it: "get_item inbox (in_session_id (de_intent d)) = Some it" "it_intent_id it = Some i"
    and inbox1: "inbox1 = put_item (in_session_id (de_intent d)) (it\<lparr>it_receipt_id := Some ri, it_status := ?st\<rparr>) inbox"
    by auto
  note D = inbox_invD [OF inv]
  have "decision_history (h @ [(DoApply (Receipt eid i di ri t pr ap), OkApply Applied)]) i d"
    using D(3) [OF d(1)] by (rule decision_history_snoc) simp
  then show ?thesis
    by (rule_tac inbox_inv_overwrite [OF inv d(1) it(1), where it' = "it\<lparr>it_receipt_id := Some ri, it_status := ?st\<rparr>"
          and d' = d])
       (use D(1) [OF it(1)] D(2) [OF d(1)] d it fresh in
         \<open>auto simp: inbox1 item_ok_def seen_effect_def\<close>)
qed

lemma inbox_inv_attention:
  assumes inv: "inbox_inv (inbox, h)" and op: "apply_attention s t sm rk b ap i q ev inbox = (inbox1, Ok ())"
    and fresh: "bt_get (ib_seen_events inbox) eid = None"
  defines "e \<equiv> Attention eid s t sm rk b ap i q ev"
  shows "inbox_inv (mark_seen e inbox1, h @ [(DoApply e, OkApply Applied)])"
proof -
  from apply_attention_cases [OF op] obtain sm' where
    inbox1: "inbox1 = put_item s (new_item s t sm' rk b ap i q ev) inbox" by auto
  have seen: "seen_effect (DoApply e, OkApply Applied) inbox (mark_seen e inbox1)"
    using fresh by (auto simp: seen_effect_def inbox1 e_def)
  show ?thesis
    using inv
  proof (rule inbox_inv_change)
    fix s1 it assume "get_item (mark_seen e inbox1) s1 = Some it"
    then show "get_item inbox s1 = Some it \<or> item_ok (mark_seen e inbox1) s1 it"
      by (cases "s1 = s") (auto simp: inbox1 item_ok_def new_item_def)
  qed (use seen_effectD [OF seen] in \<open>auto simp: inbox1\<close>)
qed

lemma confirm_atomic:
  assumes "inbox_inv (inbox, h)" and "confirm i inbox = (inbox', x)" and "x \<noteq> Ok ()"
  shows "inbox' = inbox"
proof -
  have "get_item inbox (in_session_id (de_intent d)) \<noteq> None" if "get_decision inbox i = Some d" for d
    using inbox_invD(2) [OF assms(1) that] by (simp add: decision_ok_def)
  with confirm_cases [OF assms(2)] assms(3) show ?thesis by (fastforce split: option.splits)
qed

lemma inbox_exec_fails:
  assumes "inbox_inv (inbox, h)" and "inbox_exec op inbox = (inbox', out)" and "out = Failed err \<or> out = Panicked"
  shows "inbox' = inbox"
proof (cases op)
  case (DoApply e)
  then obtain x where "apply_event e inbox = (inbox', x)" "inbox_out OkApply x = out"
    using assms(2) by (cases "apply_event e inbox") auto
  with apply_event_cases assms(3) show ?thesis by fastforce
next
  case (DoIntent i)
  then obtain x where x: "record_intent i inbox = (inbox', x)" "inbox_out (\<lambda>_. OkUnit) x = out"
    using assms(2) by (cases "record_intent i inbox") auto
  with record_intent_cases [OF x(1)] assms(3) show ?thesis by auto
next
  case (DoConfirm i)
  then obtain x where x: "confirm i inbox = (inbox', x)" "inbox_out (\<lambda>_. OkUnit) x = out"
    using assms(2) by (cases "confirm i inbox") auto
  with confirm_atomic [OF assms(1) x(1)] assms(3) show ?thesis by (cases x) auto
next
  case (DoDispatch i)
  then obtain x where x: "take_dispatch i inbox = (inbox', x)" "inbox_out OkDispatch x = out"
    using assms(2) by (cases "take_dispatch i inbox") auto
  with take_dispatch_cases [OF x(1)] assms(3) show ?thesis by auto
qed

lemma inbox_inv_apply:
  assumes "inbox_inv (inbox, h)" and "apply_event e inbox = (inbox', Ok oc)"
  shows "inbox_inv (inbox', h @ [(DoApply e, OkApply oc)])"
proof (cases oc)
  case Applied
  with apply_event_cases [OF assms(2)] obtain inbox1 where b: "apply_body e inbox = (inbox1, Ok ())"
      "inbox' = mark_seen e inbox1" "bt_get (ib_seen_events inbox) (event_id e) = None" by auto
  then show ?thesis
    using assms(1) Applied
    by (cases e) (auto intro: inbox_inv_attention inbox_inv_authorization inbox_inv_receipt)
next
  case Duplicate
  with apply_event_cases [OF assms(2)] assms(1) show ?thesis by (auto intro!: inbox_inv_idle)
qed

lemma inbox_inv_step:
  assumes "inbox_inv (inbox, h)" and "inbox_exec op inbox = (inbox', out)"
  shows "inbox_inv (inbox', h @ [(op, out)])"
proof (cases "(\<exists>err. out = Failed err) \<or> out = Panicked")
  case True
  then have "inbox' = inbox" using inbox_exec_fails [OF assms] by blast
  with assms(1) True show ?thesis by (auto intro!: inbox_inv_idle)
next
  case False
  show ?thesis
  proof (cases op)
    case (DoApply e)
    then obtain x where x: "apply_event e inbox = (inbox', x)" "out = inbox_out OkApply x"
      using assms(2) by (cases "apply_event e inbox") auto
    with False DoApply inbox_inv_apply [OF assms(1)] show ?thesis by (cases x) auto
  next
    case (DoIntent i)
    then obtain x where x: "record_intent i inbox = (inbox', x)" "out = inbox_out (\<lambda>_. OkUnit) x"
      using assms(2) by (cases "record_intent i inbox") auto
    with False DoIntent inbox_inv_intent [OF assms(1)] show ?thesis by (cases x) auto
  next
    case (DoConfirm i)
    then obtain x where x: "confirm i inbox = (inbox', x)" "out = inbox_out (\<lambda>_. OkUnit) x"
      using assms(2) by (cases "confirm i inbox") auto
    with False DoConfirm inbox_inv_confirm [OF assms(1)] show ?thesis by (cases x) auto
  next
    case (DoDispatch i)
    then obtain x where x: "take_dispatch i inbox = (inbox', x)" "out = inbox_out OkDispatch x"
      using assms(2) by (cases "take_dispatch i inbox") auto
    with False DoDispatch inbox_inv_dispatch [OF assms(1)] show ?thesis by (cases x) auto
  qed
qed

definition inbox_init :: "OperationalInbox \<times> inbox_history \<Rightarrow> bool" where
  "inbox_init st \<longleftrightarrow> st = (default_inbox, [])"

lemma inbox_inv_default: "inbox_inv (default_inbox, [])"
  by (simp add: inbox_inv_def default_inbox_def item_maps)

interpretation inbox: invariant_system inbox_init inbox_step inbox_inv
  by unfold_locales (auto simp: inbox_init_def inbox_inv_default elim!: inbox_step.cases intro: inbox_inv_step)


section \<open>Runs and their history\<close>

lemma inbox_run_append: "inbox_run (xs @ ys) st = inbox_run ys (inbox_run xs st)"
  by (induction xs st rule: inbox_run.induct) (auto simp: Let_def split: prod.split)

lemma inbox_run_history: "\<exists>new. snd (inbox_run ops (inbox, h)) = h @ new \<and> map fst new = ops"
proof (induction ops arbitrary: inbox h)
  case (Cons op ops)
  obtain inbox' out where e: "inbox_exec op inbox = (inbox', out)" by fastforce
  obtain new where "snd (inbox_run ops (inbox', h @ [(op, out)])) = (h @ [(op, out)]) @ new" "map fst new = ops"
    using Cons by blast
  then show ?case by (intro exI [of _ "(op, out) # new"]) (simp add: e)
qed simp

lemma inbox_run_inv: "inbox_inv st \<Longrightarrow> inbox_inv (inbox_run ops st)"
proof (induction ops st rule: inbox_run.induct)
  case (2 op ops inbox h)
  then show ?case using inbox_inv_step [of inbox h op] by (simp add: Let_def split: prod.split)
qed simp

lemma reachable_inbox: "inbox_run ops (default_inbox, []) = (inbox, h) \<Longrightarrow> inbox_inv (inbox, h)"
  using inbox_run_inv [OF inbox_inv_default, of ops] by simp

lemma inbox_run_prefix:
  assumes "inbox_run ops (default_inbox, []) = (inbox, pre @ (op, out) # post)"
  obtains inbox0 inbox1 where "inbox_run (map fst pre) (default_inbox, []) = (inbox0, pre)"
    and "inbox_exec op inbox0 = (inbox1, out)"
proof -
  obtain new where "snd (inbox_run ops (default_inbox, [])) = [] @ new" "map fst new = ops"
    using inbox_run_history [of ops default_inbox "[]"] by blast
  with assms have ops: "ops = map fst pre @ op # map fst post" by auto
  obtain inbox0 h0 where r0: "inbox_run (map fst pre) (default_inbox, []) = (inbox0, h0)" by fastforce
  obtain inbox1 out1 where e: "inbox_exec op inbox0 = (inbox1, out1)" by fastforce
  obtain h1 where h1: "h0 = h1" "map fst h1 = map fst pre"
    using inbox_run_history [of "map fst pre" default_inbox "[]"] r0 by auto
  obtain new1 where "snd (inbox_run (map fst post) (inbox1, h0 @ [(op, out1)])) = (h0 @ [(op, out1)]) @ new1"
    using inbox_run_history by blast
  with assms have "pre @ (op, out) # post = h0 @ (op, out1) # new1"
    unfolding ops inbox_run_append r0 by (simp add: e)
  moreover have "length pre = length h0" using h1 by (metis length_map)
  ultimately have "pre = h0" "out = out1" by auto
  with r0 e that show ?thesis by blast
qed

lemma exec_dispatch:
  "inbox_exec (DoDispatch i) inbox = (inbox', OkDispatch req) \<longleftrightarrow> take_dispatch i inbox = (inbox', Ok req)"
  by (cases "take_dispatch i inbox") auto

lemma exec_apply:
  "inbox_exec (DoApply e) inbox = (inbox', OkApply oc) \<longleftrightarrow> apply_event e inbox = (inbox', Ok oc)"
  by (cases "apply_event e inbox") auto

fun dispatched_intent :: "string \<Rightarrow> InboxOp \<times> InboxOut \<Rightarrow> bool" where
  "dispatched_intent i (DoDispatch i', OkDispatch req) = (i' = i)"
| "dispatched_intent i _ = False"

lemma dispatched_intent_iff: "dispatched_intent i x \<longleftrightarrow> (\<exists>req. x = (DoDispatch i, OkDispatch req))"
  by (cases "(i, x)" rule: dispatched_intent.cases) auto

lemma dispatch_once:
  assumes "inbox_inv (inbox, h)" and "length (filter (dispatched_intent i) h) \<le> 1"
  shows "length (filter (dispatched_intent i) (snd (inbox_run ops (inbox, h)))) \<le> 1"
  using assms
proof (induction ops arbitrary: inbox h)
  case (Cons op ops)
  obtain inbox' out where e: "inbox_exec op inbox = (inbox', out)" by fastforce
  have "length (filter (dispatched_intent i) (h @ [(op, out)])) \<le> 1"
  proof (cases "dispatched_intent i (op, out)")
    case True
    then obtain req where req: "op = DoDispatch i" "out = OkDispatch req" by (auto simp: dispatched_intent_iff)
    with e have "take_dispatch i inbox = (inbox', Ok req)" by (simp only: exec_dispatch)
    then obtain d where "get_decision inbox i = Some d" "\<not> de_dispatched d" using take_dispatch_cases by blast
    with inbox_invD(3) [OF Cons.prems(1)] have "\<forall>x \<in> set h. \<not> dispatched_intent i x"
      by (auto simp: dispatched_intent_iff decision_history_def)
    then show ?thesis by simp
  qed (use Cons.prems(2) in simp)
  with Cons.IH [OF inbox_inv_step [OF Cons.prems(1) e]] show ?case by (simp add: e)
qed simp

lemma apply_applied_valid:
  "apply_event e inbox = (inbox', Ok Applied) \<Longrightarrow> validate_token ''event_id'' (event_id e) = Ok ()"
  by (auto simp: apply_event_def st_try_eq)

section \<open>Text\<close>

lemma has_control_right: "has_control ys \<Longrightarrow> has_control (xs @ ys)"
  by (induction xs) simp_all

lemma has_control_left: "has_control xs \<Longrightarrow> has_control (xs @ ys)"
proof (induction xs)
  case (Cons c xs)
  then show ?case by (cases xs) auto
qed simp

lemma no_control_append:
  "\<not> has_control xs \<Longrightarrow> \<not> has_control ys \<Longrightarrow> xs \<noteq> [] \<Longrightarrow> ord (last xs) \<noteq> 194 \<Longrightarrow> \<not> has_control (xs @ ys)"
proof (induction xs)
  case (Cons c xs)
  then show ?case by (cases xs) auto
qed simp

lemma no_control_append_ascii:
  "\<not> has_control xs \<Longrightarrow> \<not> has_control (y # ys) \<Longrightarrow> ord y < 128 \<Longrightarrow> \<not> has_control (xs @ y # ys)"
proof (induction xs)
  case (Cons c xs)
  then show ?case by (cases xs) auto
qed simp

lemma utf8_tail_shape:
  "utf8_tail (a # cs) = Some r \<Longrightarrow>
     (cs = r \<and> ord a < 128) \<or> (\<exists>b. cs = b # r \<and> cont_byte b) \<or> (\<exists>b c. cs = b # c # r \<and> cont_byte c)
     \<or> (\<exists>b c d. cs = b # c # d # r \<and> cont_byte d)"
  by (simp split: if_splits list.splits)

lemma utf8_tail_char:
  assumes "utf8_tail s = Some r"
  shows "\<exists>c. s = c @ r \<and> c \<noteq> [] \<and> ord (last c) \<noteq> 194"
proof (cases s)
  case (Cons a cs)
  with utf8_tail_shape [of a cs r] assms consider "cs = r" "ord a < 128" | b where "cs = b # r" "cont_byte b"
    | b c where "cs = b # c # r" "cont_byte c" | b c d where "cs = b # c # d # r" "cont_byte d"
    by auto
  then show ?thesis
  proof cases
    case 1
    then show ?thesis by (intro exI [of _ "[a]"]) (simp add: Cons)
  next
    case (2 b)
    then show ?thesis by (intro exI [of _ "[a, b]"]) (simp add: Cons cont_byte_def)
  next
    case (3 b c)
    then show ?thesis by (intro exI [of _ "[a, b, c]"]) (simp add: Cons cont_byte_def)
  next
    case (4 b c d)
    then show ?thesis by (intro exI [of _ "[a, b, c, d]"]) (simp add: Cons cont_byte_def)
  qed
qed (use assms in simp)

lemma chars_of_Cons: "utf8_tail s = Some r \<Longrightarrow> s = c @ r \<Longrightarrow> chars_of s = c # chars_of r"
  by (subst chars_of.simps) simp

lemma visible_no_control:
  "\<not> has_control (concat (filter (\<lambda>c. \<not> control_char c) (chars_of s)))"
proof (induction s rule: chars_of.induct)
  case (1 s)
  show ?case
  proof (cases "utf8_tail s")
    case None
    then show ?thesis by (subst chars_of.simps) simp
  next
    case (Some r)
    then obtain c where c: "s = c @ r" "c \<noteq> []" "ord (last c) \<noteq> 194" using utf8_tail_char by blast
    with "1.IH" [OF Some] chars_of_Cons [OF Some c(1)] show ?thesis
      by (simp add: control_char_def no_control_append)
  qed
qed

lemma redact_no_control: "\<not> has_control s \<Longrightarrow> \<not> has_control (redact_marker s marker)"
proof -
  assume s: "\<not> has_control s"
  have "\<not> has_control (take m s @ REDACTED @ drop n s)" for m n
  proof -
    have "\<not> has_control (take m s)" "\<not> has_control (drop n s)"
      using s has_control_left [of "take m s" "drop m s"] has_control_right [of "drop n s" "take n s"] by auto
    moreover from this(2) have "\<not> has_control (REDACTED @ drop n s)"
      by (intro no_control_append) (simp_all add: REDACTED_def)
    ultimately show ?thesis
      unfolding REDACTED_def by (simp only: append_Cons) (rule no_control_append_ascii, simp_all)
  qed
  with s show ?thesis by (simp add: redact_marker_def Let_def split: option.split)
qed

lemma redact_sensitive_no_control: "\<not> has_control s \<Longrightarrow> \<not> has_control (redact_sensitive s)"
  by (simp add: redact_sensitive_def redact_no_control)


section \<open>Properties of the operator inbox\<close>

text \<open>A run to apply the properties to: a critical item is decided, confirmed, dispatched and applied.\<close>

definition toy_attention :: "string \<Rightarrow> u64 \<Rightarrow> CanonicalEvent" where
  "toy_attention eid q = Attention eid ''s1'' ''run/s1'' ''go'' Critical True True True q [''ref'']"

definition toy_intent :: ActionIntent where
  "toy_intent = \<lparr>in_intent_id = ''i1'', in_session_id = ''s1'', in_target = ''run/s1'', in_action = ActPause,
     in_explicitly_idempotent = True, in_idempotency_key = ''k1'', in_policy_revision = 7\<rparr>"

definition toy_authorization :: CanonicalEvent where
  "toy_authorization = AuthorizationEvent ''e2'' \<lparr>au_intent_id = ''i1'', au_decision_id = ''d1'', au_actor = ''op'',
     au_target = ''run/s1'', au_policy_revision = 7, au_approved = True\<rparr>"

definition toy_decided :: "InboxOp list" where
  "toy_decided = [DoApply (toy_attention ''e1'' 1), DoIntent toy_intent, DoApply toy_authorization]"

definition toy_request :: DispatchRequest where
  "toy_request = \<lparr>dr_intent = toy_intent, dr_decision_id = ''d1''\<rparr>"

lemma toy_dispatch:
  "snd (inbox_run (toy_decided @ [DoConfirm ''i1'', DoDispatch ''i1'',
      DoApply (Receipt ''e3'' ''i1'' ''d1'' ''r1'' ''run/s1'' 7 True)]) (default_inbox, [])) =
   [(DoApply (toy_attention ''e1'' 1), OkApply Applied), (DoIntent toy_intent, OkUnit),
    (DoApply toy_authorization, OkApply Applied), (DoConfirm ''i1'', OkUnit)]
   @ (DoDispatch ''i1'', OkDispatch toy_request) # [(DoApply (Receipt ''e3'' ''i1'' ''d1'' ''r1'' ''run/s1'' 7 True), OkApply Applied)]"
  by code_simp

text \<open>
  C4: nothing is dispatched past the gate. In every history, a dispatch request for an intent is
  preceded by the recording of that intent and by an applied, approving authorization that names the
  same intent, target and policy revision and carries the decision id of the request; and if the
  risk of the item or the action asks for it, by a confirmation of that intent.
\<close>

theorem dispatch_is_gated:
  assumes "snd (inbox_run ops (default_inbox, [])) = pre @ (DoDispatch i, OkDispatch req) # post"
  shows "in_intent_id (dr_intent req) = i \<and> (DoIntent (dr_intent req), OkUnit) \<in> set pre
    \<and> (\<exists>eid a. (DoApply (AuthorizationEvent eid a), OkApply Applied) \<in> set pre \<and> au_approved a \<and> au_intent_id a = i
         \<and> au_target a = in_target (dr_intent req) \<and> au_policy_revision a = in_policy_revision (dr_intent req)
         \<and> au_decision_id a = dr_decision_id req)
    \<and> (\<exists>it. get_item (fst (inbox_run (map fst pre) (default_inbox, []))) (in_session_id (dr_intent req)) = Some it
         \<and> (needs_confirmation (it_risk it) (in_action (dr_intent req)) \<longrightarrow> (DoConfirm i, OkUnit) \<in> set pre))"
proof -
  obtain inbox where "inbox_run ops (default_inbox, []) = (inbox, pre @ (DoDispatch i, OkDispatch req) # post)"
    using assms by (metis prod.collapse)
  then obtain inbox0 inbox1 where r: "inbox_run (map fst pre) (default_inbox, []) = (inbox0, pre)"
      and "inbox_exec (DoDispatch i) inbox0 = (inbox1, OkDispatch req)" by (rule inbox_run_prefix)
  then have "take_dispatch i inbox0 = (inbox1, Ok req)" by (simp only: exec_dispatch)
  with take_dispatch_cases obtain d a it where d: "get_decision inbox0 i = Some d" "de_authorization d = Some a" "au_approved a"
      and it: "get_item inbox0 (in_session_id (de_intent d)) = Some it"
        "needs_confirmation (it_risk it) (in_action (de_intent d)) \<longrightarrow> de_confirmed d"
      and req: "req = \<lparr>dr_intent = de_intent d, dr_decision_id = au_decision_id a\<rparr>" by blast
  note D = inbox_invD(2,3) [OF reachable_inbox [OF r] d(1)]
  show ?thesis
    unfolding r fst_conv
  proof (intro conjI)
    show "in_intent_id (dr_intent req) = i" using D(1) by (simp add: req decision_ok_def)
    show "(DoIntent (dr_intent req), OkUnit) \<in> set pre" using D(2) by (simp add: req decision_history_def)
    obtain eid where "(DoApply (AuthorizationEvent eid a), OkApply Applied) \<in> set pre"
      using D(2) d(2) by (auto simp: decision_history_def)
    with D(1) d show "\<exists>eid a. (DoApply (AuthorizationEvent eid a), OkApply Applied) \<in> set pre \<and> au_approved a
         \<and> au_intent_id a = i \<and> au_target a = in_target (dr_intent req)
         \<and> au_policy_revision a = in_policy_revision (dr_intent req) \<and> au_decision_id a = dr_decision_id req"
      by (intro exI [of _ eid] exI [of _ a]) (simp add: req decision_ok_def)
    show "\<exists>it. get_item inbox0 (in_session_id (dr_intent req)) = Some it
         \<and> (needs_confirmation (it_risk it) (in_action (dr_intent req)) \<longrightarrow> (DoConfirm i, OkUnit) \<in> set pre)"
      using it D(2) by (intro exI [of _ it]) (simp add: req decision_history_def)
  qed
qed

theorem dispatch_is_gated_witness:
  "in_intent_id (dr_intent toy_request) = ''i1''
   \<and> (DoIntent toy_intent, OkUnit) \<in> set [(DoApply (toy_attention ''e1'' 1), OkApply Applied), (DoIntent toy_intent, OkUnit),
        (DoApply toy_authorization, OkApply Applied), (DoConfirm ''i1'', OkUnit)]"
  using dispatch_is_gated [OF toy_dispatch] by (simp add: toy_request_def)

text \<open>C22: an intent is dispatched at most once, over any sequence of calls.\<close>

theorem dispatch_at_most_once:
  "length (filter (dispatched_intent i) (snd (inbox_run ops (default_inbox, [])))) \<le> 1"
  by (rule dispatch_once [OF inbox_inv_default]) simp

text \<open>
  The inbox fails closed: in every state that calls can produce, a call that returns an error
  leaves the inbox as it was.
\<close>

theorem inbox_fails_closed:
  assumes "inbox_exec op (fst (inbox_run ops (default_inbox, []))) = (inbox', Failed err)"
  shows "inbox' = fst (inbox_run ops (default_inbox, []))"
proof -
  obtain inbox h where r: "inbox_run ops (default_inbox, []) = (inbox, h)" by fastforce
  with inbox_exec_fails [OF reachable_inbox [OF r], of op inbox' "Failed err" err] assms show ?thesis by simp
qed

theorem inbox_fails_closed_witness:
  "\<exists>inbox'. inbox_exec (DoDispatch ''i1'') (fst (inbox_run toy_decided (default_inbox, []))) = (inbox', Failed ConfirmationRequired)
     \<and> inbox' = fst (inbox_run toy_decided (default_inbox, []))"
proof -
  have "snd (inbox_exec (DoDispatch ''i1'') (fst (inbox_run toy_decided (default_inbox, [])))) = Failed ConfirmationRequired"
    by code_simp
  then obtain inbox' where e: "inbox_exec (DoDispatch ''i1'') (fst (inbox_run toy_decided (default_inbox, []))) = (inbox', Failed ConfirmationRequired)"
    by (metis prod.collapse)
  from inbox_fails_closed [OF e] e show ?thesis by blast
qed

text \<open>
  Events are idempotent: whatever happened after an event was applied, delivering it again
  changes nothing and reports a duplicate, and a different event under the same id is rejected
  without effect.
\<close>

theorem events_idempotent:
  assumes "inbox_run ops (default_inbox, []) = (inbox, h)" and "(DoApply e, OkApply Applied) \<in> set h"
  shows "apply_event e inbox = (inbox, Ok Duplicate)
    \<and> (event_id e' = event_id e \<and> e' \<noteq> e \<longrightarrow> apply_event e' inbox = (inbox, Err StaleEvent))"
proof -
  from assms(2) obtain pre post where h: "h = pre @ (DoApply e, OkApply Applied) # post" by (meson split_list)
  from assms(1) obtain inbox0 inbox1 where "inbox_exec (DoApply e) inbox0 = (inbox1, OkApply Applied)"
    unfolding h by (rule inbox_run_prefix)
  then have "apply_event e inbox0 = (inbox1, Ok Applied)" by (simp only: exec_apply)
  then have v: "validate_token ''event_id'' (event_id e) = Ok ()" by (rule apply_applied_valid)
  have "bt_get (ib_seen_events inbox) (event_id e) = Some e"
    using inbox_invD(6) [OF reachable_inbox [OF assms(1)] assms(2)] .
  with v show ?thesis by (simp add: apply_event_def)
qed

theorem events_idempotent_witness:
  "\<exists>inbox h. inbox_run toy_decided (default_inbox, []) = (inbox, h)
     \<and> (DoApply toy_authorization, OkApply Applied) \<in> set h
     \<and> apply_event toy_authorization inbox = (inbox, Ok Duplicate)"
proof -
  obtain inbox h where r: "inbox_run toy_decided (default_inbox, []) = (inbox, h)" by fastforce
  have "snd (inbox_run toy_decided (default_inbox, [])) =
      [(DoApply (toy_attention ''e1'' 1), OkApply Applied), (DoIntent toy_intent, OkUnit),
       (DoApply toy_authorization, OkApply Applied)]" by code_simp
  then have m: "(DoApply toy_authorization, OkApply Applied) \<in> set h" using r by simp
  from events_idempotent [OF r m] r m show ?thesis by blast
qed

text \<open>
  C23: receipts are the only authority for effects: an item shows applied or failed only when its
  current intent went through the gate and a receipt is recorded for it.
\<close>

theorem effects_need_receipt:
  assumes "inbox_run ops (default_inbox, []) = (inbox, h)" and "get_item inbox s = Some it"
    and "it_status it \<in> {ItemApplied, FailedClosed}"
  shows "it_receipt_id it \<noteq> None
    \<and> (\<exists>i req. it_intent_id it = Some i \<and> (DoDispatch i, OkDispatch req) \<in> set h)"
proof -
  note inv = reachable_inbox [OF assms(1)]
  from inbox_invD(1) [OF inv assms(2)] assms(3) obtain i d where
    "it_receipt_id it \<noteq> None" "it_intent_id it = Some i" "get_decision inbox i = Some d" "de_dispatched d"
    by (auto simp: item_ok_def)
  with inbox_invD(3) [OF inv] show ?thesis by (auto simp: decision_history_def)
qed

theorem effects_need_receipt_witness:
  "\<exists>inbox h it. get_item inbox ''s1'' = Some it \<and> it_status it = ItemApplied \<and> it_receipt_id it \<noteq> None
     \<and> inbox_run (toy_decided @ [DoConfirm ''i1'', DoDispatch ''i1'',
          DoApply (Receipt ''e3'' ''i1'' ''d1'' ''r1'' ''run/s1'' 7 True)]) (default_inbox, []) = (inbox, h)"
proof -
  let ?ops = "toy_decided @ [DoConfirm ''i1'', DoDispatch ''i1'',
      DoApply (Receipt ''e3'' ''i1'' ''d1'' ''r1'' ''run/s1'' 7 True)]"
  obtain inbox h where r: "inbox_run ?ops (default_inbox, []) = (inbox, h)" by fastforce
  have "(case get_item (fst (inbox_run ?ops (default_inbox, []))) ''s1'' of None \<Rightarrow> False
      | Some it \<Rightarrow> it_status it = ItemApplied)" by code_simp
  then obtain it where it: "get_item inbox ''s1'' = Some it" "it_status it = ItemApplied"
    using r by (auto split: option.splits)
  from effects_need_receipt [OF r it(1)] it r show ?thesis by auto
qed

text \<open>
  No control character and no terminal escape reaches a surface through the summary of an item:
  the sanitized text has none, also after redaction.
\<close>

theorem sanitized_text_has_no_control:
  assumes "sanitize_text value = Ok text"
  shows "\<not> has_control text"
  using assms visible_no_control [of "value"] redact_sensitive_no_control
  by (auto simp: sanitize_text_def split: if_splits)

theorem sanitized_text_has_no_control_witness:
  "sanitize_text [CHR ''o'', CHR 0x1B, CHR ''['', CHR 0xC2, CHR 0x85, CHR ''k''] = Ok ''o[k'' \<and> \<not> has_control ''o[k''"
proof -
  have "sanitize_text [CHR ''o'', CHR 0x1B, CHR ''['', CHR 0xC2, CHR 0x85, CHR ''k''] = Ok ''o[k''" by code_simp
  with sanitized_text_has_no_control [OF this] show ?thesis by blast
qed

text \<open>
  Redaction hides one value per marker only: a second value behind the same marker, and a value
  behind two spaces, stay readable.
\<close>

theorem redaction_misses_repeated_markers:
  "redact_sensitive ''token=abc token=xyz'' = ''token=[REDACTED] token=xyz''
   \<and> redact_sensitive ''Bearer  abc'' = ''Bearer [REDACTED] abc''"
  by code_simp

text \<open>
  \<open>confirm\<close> revives a superseded intent: after a newer attention event has reset the item, the
  confirmation of the old, already authorized intent still succeeds and its dispatch is released for
  the newer attention.
\<close>

theorem confirm_revives_superseded_intent:
  "snd (inbox_run (toy_decided @ [DoApply (toy_attention ''e9'' 2), DoConfirm ''i1'', DoDispatch ''i1'']) (default_inbox, [])) =
   [(DoApply (toy_attention ''e1'' 1), OkApply Applied), (DoIntent toy_intent, OkUnit),
    (DoApply toy_authorization, OkApply Applied), (DoApply (toy_attention ''e9'' 2), OkApply Applied),
    (DoConfirm ''i1'', OkUnit), (DoDispatch ''i1'', OkDispatch toy_request)]"
  by code_simp

end
