(* ===== verification/Circuit_Breaker.thy ===== *)
theory Circuit_Breaker
  imports Rust_Text Complex_Main
begin

text \<open>
  The shared HTTP circuit breaker of \<^verbatim>\<open>xai-circuit-breaker/src\<close>: the sliding window of samples, the
  configuration with its presets and its environment lookup, the three-state machine with probe
  slots and probe lease, the per-key registry and the retry policy. An \<open>Instant\<close> and a \<open>Duration\<close>
  are counted in nanoseconds. An operation takes the clock readings it makes, in order.
\<close>

section \<open>Time\<close>

type_synonym instant = int
type_synonym duration = nat

definition from_secs :: "nat \<Rightarrow> duration" where "from_secs s = s * 10 ^ 9"
definition from_millis :: "nat \<Rightarrow> duration" where "from_millis m = m * 10 ^ 6"
definition as_millis :: "duration \<Rightarrow> nat" where "as_millis d = d div 10 ^ 6"

text \<open>The seconds of an \<open>Instant\<close> are a signed 64-bit number; \<open>checked_sub\<close> fails below it.\<close>

definition instant_checked_sub :: "instant \<Rightarrow> duration \<Rightarrow> instant option" where
  "instant_checked_sub now d = (if now - int d < - (2 ^ 63) * 10 ^ 9 then None else Some (now - int d))"

definition saturating_duration_since :: "instant \<Rightarrow> instant \<Rightarrow> duration" where
  "saturating_duration_since now earlier = nat (now - earlier)"

definition saturating_sub64 :: "u64 \<Rightarrow> u64 \<Rightarrow> u64" where
  "saturating_sub64 a b = (if b \<le> a then a - b else 0)"

section \<open>Binary64\<close>

text \<open>
  The values of \<open>f64\<close> that the breaker compares: a number, an infinity (\<open>True\<close>: positive) or NaN.
  A quotient of two counts is rounded to 53 significant bits, ties to even.
\<close>

datatype f64 = Num rat | Infinity bool | NaN

fun f64_ge :: "f64 \<Rightarrow> f64 \<Rightarrow> bool" where
  "f64_ge NaN y = False"
| "f64_ge x NaN = False"
| "f64_ge (Infinity s) (Infinity t) = (s \<or> \<not> t)"
| "f64_ge (Infinity s) (Num y) = s"
| "f64_ge (Num x) (Infinity t) = (\<not> t)"
| "f64_ge (Num x) (Num y) = (y \<le> x)"

definition div_nearest_even :: "nat \<Rightarrow> nat \<Rightarrow> nat" where
  "div_nearest_even a b =
     (let q = a div b; r = a mod b in
      if 2 * r < b then q else if b < 2 * r then q + 1 else if even q then q else q + 1)"

text \<open>How often \<open>a\<close> is doubled until it reaches \<open>b\<close>: the negated exponent of \<open>a / b\<close>.\<close>

function doublings :: "nat \<Rightarrow> nat \<Rightarrow> nat" where
  "doublings a b = (if a = 0 \<or> b \<le> a then 0 else Suc (doublings (2 * a) b))"
  by pat_completeness auto
termination
  by (relation "measure (\<lambda>(a, b). b - a)") auto

declare doublings.simps [simp del]

definition f64_div :: "nat \<Rightarrow> nat \<Rightarrow> f64" where
  "f64_div a b =
     (let k = doublings a b in Num (of_nat (div_nearest_even (2 ^ (52 + k) * a) b) / 2 ^ (52 + k)))"

section \<open>The sliding window\<close>

definition MAX_WINDOW_ENTRIES :: nat where "MAX_WINDOW_ENTRIES = 10000"

record SlidingWindow =
  sw_entries :: "(instant \<times> bool) list"
  sw_failures :: u64

definition new_window :: SlidingWindow where
  "new_window = \<lparr>sw_entries = [], sw_failures = 0\<rparr>"

definition pop_oldest :: "SlidingWindow \<Rightarrow> SlidingWindow" where
  "pop_oldest w =
     (case sw_entries w of
        [] \<Rightarrow> w
      | (_, was_failure) # es \<Rightarrow>
          \<lparr>sw_entries = es, sw_failures = (if was_failure then sw_failures w - 1 else sw_failures w)\<rparr>)"

definition window_push :: "bool \<Rightarrow> instant \<Rightarrow> SlidingWindow \<Rightarrow> SlidingWindow" where
  "window_push is_failure ts w =
     (let w = (if length (sw_entries w) \<ge> MAX_WINDOW_ENTRIES then pop_oldest w else w) in
      \<lparr>sw_entries = sw_entries w @ [(ts, is_failure)],
       sw_failures = (if is_failure then sw_failures w + 1 else sw_failures w)\<rparr>)"

fun evict_loop :: "instant \<Rightarrow> (instant \<times> bool) list \<Rightarrow> u64 \<Rightarrow> SlidingWindow" where
  "evict_loop cutoff [] failures = \<lparr>sw_entries = [], sw_failures = failures\<rparr>"
| "evict_loop cutoff ((ts, was_failure) # es) failures =
     (if ts < cutoff then evict_loop cutoff es (if was_failure then failures - 1 else failures)
      else \<lparr>sw_entries = (ts, was_failure) # es, sw_failures = failures\<rparr>)"

definition window_evict :: "duration \<Rightarrow> instant \<Rightarrow> SlidingWindow \<Rightarrow> SlidingWindow" where
  "window_evict window now w =
     (case instant_checked_sub now window of
        None \<Rightarrow> w
      | Some cutoff \<Rightarrow> evict_loop cutoff (sw_entries w) (sw_failures w))"

definition window_error_rate :: "SlidingWindow \<Rightarrow> f64" where
  "window_error_rate w =
     (if sw_entries w = [] then Num 0 else f64_div (unat (sw_failures w)) (length (sw_entries w)))"

definition sample_count :: "SlidingWindow \<Rightarrow> nat" where
  "sample_count w = length (sw_entries w)"

definition window_clear :: "SlidingWindow \<Rightarrow> SlidingWindow" where
  "window_clear w = \<lparr>sw_entries = [], sw_failures = 0\<rparr>"

section \<open>Configuration\<close>

definition DEFAULT_FAILURE_CODES :: "u16 list" where
  "DEFAULT_FAILURE_CODES = [429, 500, 502, 503, 504]"

record BreakerConfig =
  bc_window_duration :: duration
  bc_min_samples :: nat
  bc_error_rate_threshold :: f64
  bc_open_duration :: duration
  bc_half_open_max_probes :: nat
  bc_failure_codes :: "u16 set"
  bc_enabled :: bool

definition default_failure_codes :: "u16 set" where
  "default_failure_codes = set DEFAULT_FAILURE_CODES"

definition server_config :: BreakerConfig where
  "server_config = \<lparr>bc_window_duration = from_secs 60, bc_min_samples = 10, bc_error_rate_threshold = Num (1 / 2),
     bc_open_duration = from_secs 10, bc_half_open_max_probes = 1, bc_failure_codes = default_failure_codes,
     bc_enabled = True\<rparr>"

definition client_config :: BreakerConfig where
  "client_config = \<lparr>bc_window_duration = from_secs 60, bc_min_samples = 5, bc_error_rate_threshold = Num (1 / 2),
     bc_open_duration = from_secs 60, bc_half_open_max_probes = 1, bc_failure_codes = {401},
     bc_enabled = True\<rparr>"

definition is_failure_status :: "BreakerConfig \<Rightarrow> u16 \<Rightarrow> bool" where
  "is_failure_status config status \<longleftrightarrow> status \<in> bc_failure_codes config"

text \<open>\<open>split(',')\<close> cuts at each comma.\<close>

definition parse_bool :: "string \<Rightarrow> bool option" where
  "parse_bool s = (if s = ''true'' then Some True else if s = ''false'' then Some False else None)"

fun split_comma :: "string \<Rightarrow> string list" where
  "split_comma [] = [[]]"
| "split_comma (c # s) =
     (if c = CHR '','' then [] # split_comma s
      else case split_comma s of [] \<Rightarrow> [[c]] | p # ps \<Rightarrow> (c # p) # ps)"

definition parse_failure_codes :: "string \<Rightarrow> u16 set" where
  "parse_failure_codes s =
     set (map of_nat (List.map_filter (\<lambda>c. parse_unsigned (2 ^ 16) (trim_str c)) (split_comma s)))"

definition lookup_or :: "(string \<Rightarrow> 'a option) \<Rightarrow> (string \<Rightarrow> string option) \<Rightarrow> string \<Rightarrow> 'a \<Rightarrow> 'a" where
  "lookup_or parse get key dflt =
     (case get key of
        Some v \<Rightarrow> (case parse v of Some parsed \<Rightarrow> parsed | None \<Rightarrow> dflt)
      | None \<Rightarrow> dflt)"

text \<open>\<open>parse_f64\<close> stands for the decimal parser of \<open>f64\<close>; nothing is assumed of it.\<close>

definition from_lookup_with_prefix ::
  "(string \<Rightarrow> f64 option) \<Rightarrow> string \<Rightarrow> (string \<Rightarrow> string option) \<Rightarrow> BreakerConfig" where
  "from_lookup_with_prefix parse_f64 pre get =
     (let key = (\<lambda>k. pre @ k);
          failure_codes =
            (case get (key ''FAILURE_CODES'') of
               Some raw \<Rightarrow> (let codes = parse_failure_codes raw in if codes = {} then default_failure_codes else codes)
             | None \<Rightarrow> default_failure_codes)
      in \<lparr>bc_window_duration = from_secs (lookup_or (parse_unsigned (2 ^ 64)) get (key ''WINDOW_SECS'') 60),
          bc_min_samples = lookup_or (parse_unsigned (2 ^ 64)) get (key ''MIN_SAMPLES'') 10,
          bc_error_rate_threshold = lookup_or parse_f64 get (key ''ERROR_RATE_THRESHOLD'') (Num (1 / 2)),
          bc_open_duration = from_secs (lookup_or (parse_unsigned (2 ^ 64)) get (key ''OPEN_DURATION_SECS'') 10),
          bc_half_open_max_probes = max (lookup_or (parse_unsigned (2 ^ 64)) get (key ''HALF_OPEN_MAX_PROBES'') 1) 1,
          bc_failure_codes = failure_codes,
          bc_enabled = lookup_or parse_bool get (key ''ENABLED'') True\<rparr>)"

section \<open>The state machine\<close>

datatype BreakerState = BClosed | BOpen | BHalfOpen

fun state_u8 :: "BreakerState \<Rightarrow> byte" where
  "state_u8 BClosed = 0"
| "state_u8 BOpen = 1"
| "state_u8 BHalfOpen = 2"

definition from_u8 :: "byte \<Rightarrow> BreakerState" where
  "from_u8 v = (if v = 0 then BClosed else if v = 1 then BOpen else if v = 2 then BHalfOpen else BClosed)"

datatype Outcome = Success | Failure

text \<open>\<open>BreakerOpen\<close> carries \<open>retry_after\<close>.\<close>

datatype BreakerOpen = BreakerOpen (retry_after: duration)

datatype ObserverEvent =
  OnStateChange BreakerState BreakerState string | OnOutcome Outcome BreakerState | OnProbeAdmission bool

record CircuitBreaker =
  cb_config :: BreakerConfig
  cb_state :: byte
  cb_baseline :: instant
  cb_opened_at_millis :: u64
  cb_half_open_probes :: u64
  cb_probe_claimed_at_millis :: u64
  cb_is_open_fast :: bool
  cb_window :: SlidingWindow
  cb_observed :: "ObserverEvent list"

definition with_clock :: "BreakerConfig \<Rightarrow> instant \<Rightarrow> CircuitBreaker" where
  "with_clock config now =
     \<lparr>cb_config = config\<lparr>bc_half_open_max_probes := max (bc_half_open_max_probes config) 1\<rparr>,
      cb_state = state_u8 BClosed, cb_baseline = now, cb_opened_at_millis = 0, cb_half_open_probes = 0,
      cb_probe_claimed_at_millis = 0, cb_is_open_fast = False, cb_window = new_window, cb_observed = []\<rparr>"

definition breaker_state :: "CircuitBreaker \<Rightarrow> BreakerState" where
  "breaker_state cb = from_u8 (cb_state cb)"

definition is_open :: "CircuitBreaker \<Rightarrow> bool" where
  "is_open cb = cb_is_open_fast cb"

definition elapsed_millis :: "CircuitBreaker \<Rightarrow> instant \<Rightarrow> u64" where
  "elapsed_millis cb now = of_nat (as_millis (saturating_duration_since now (cb_baseline cb)))"

definition observe :: "ObserverEvent \<Rightarrow> CircuitBreaker \<Rightarrow> CircuitBreaker" where
  "observe e cb = cb\<lparr>cb_observed := cb_observed cb @ [e]\<rparr>"

definition cas_state :: "BreakerState \<Rightarrow> BreakerState \<Rightarrow> CircuitBreaker \<Rightarrow> CircuitBreaker \<times> bool" where
  "cas_state from to cb =
     (if cb_state cb = state_u8 from then (cb\<lparr>cb_state := state_u8 to\<rparr>, True) else (cb, False))"

definition HALF_OPEN_PROBE_BACKOFF :: duration where
  "HALF_OPEN_PROBE_BACKOFF = from_millis 50"

definition try_half_open_probe :: "instant \<Rightarrow> CircuitBreaker \<Rightarrow> CircuitBreaker \<times> (BreakerOpen, unit) res" where
  "try_half_open_probe t cb =
     (let now = elapsed_millis cb t;
          prev = cb_half_open_probes cb;
          cb = cb\<lparr>cb_half_open_probes := prev + 1\<rparr>
      in if unat prev < bc_half_open_max_probes (cb_config cb)
         then (observe (OnProbeAdmission True) (cb\<lparr>cb_probe_claimed_at_millis := now\<rparr>), Ok ())
         else
           let cb = cb\<lparr>cb_half_open_probes := cb_half_open_probes cb - 1\<rparr>;
               lease_millis = (of_nat (as_millis (bc_open_duration (cb_config cb))) :: u64);
               claimed = cb_probe_claimed_at_millis cb
           in if saturating_sub64 now claimed \<ge> lease_millis
              then (observe (OnProbeAdmission True) (cb\<lparr>cb_probe_claimed_at_millis := now\<rparr>), Ok ())
              else (observe (OnProbeAdmission False) cb,
                    Err (BreakerOpen (min HALF_OPEN_PROBE_BACKOFF (bc_open_duration (cb_config cb))))))"

definition check_open ::
  "instant \<Rightarrow> instant \<Rightarrow> CircuitBreaker \<Rightarrow> CircuitBreaker \<times> (BreakerOpen, unit) res" where
  "check_open t1 t2 cb =
     (let elapsed = from_millis (unat (saturating_sub64 (elapsed_millis cb t1) (cb_opened_at_millis cb))) in
      if elapsed \<ge> bc_open_duration (cb_config cb) then
        (let (cb, won) = cas_state BOpen BHalfOpen cb in
         if won then
           (let cb = cb\<lparr>cb_is_open_fast := False\<rparr>;
                cb = observe (OnStateChange BOpen BHalfOpen ''open_elapsed'') cb
            in try_half_open_probe t2 cb)
         else
           (case breaker_state cb of
              BClosed \<Rightarrow> (cb, Ok ())
            | BHalfOpen \<Rightarrow> try_half_open_probe t2 cb
            | BOpen \<Rightarrow>
                (let elapsed = from_millis (unat (saturating_sub64 (elapsed_millis cb t2) (cb_opened_at_millis cb)))
                 in (cb, Err (BreakerOpen (bc_open_duration (cb_config cb) - elapsed))))))
      else (cb, Err (BreakerOpen (bc_open_duration (cb_config cb) - elapsed))))"

definition check :: "instant \<Rightarrow> instant \<Rightarrow> CircuitBreaker \<Rightarrow> CircuitBreaker \<times> (BreakerOpen, unit) res" where
  "check t1 t2 cb =
     (if \<not> bc_enabled (cb_config cb) then (cb, Ok ())
      else case breaker_state cb of
        BClosed \<Rightarrow> (cb, Ok ())
      | BOpen \<Rightarrow> check_open t1 t2 cb
      | BHalfOpen \<Rightarrow> try_half_open_probe t1 cb)"

definition trip :: "BreakerState \<Rightarrow> string \<Rightarrow> instant \<Rightarrow> CircuitBreaker \<Rightarrow> CircuitBreaker" where
  "trip prev reason t cb =
     (let cb = cb\<lparr>cb_state := state_u8 BOpen\<rparr>;
          cb = cb\<lparr>cb_opened_at_millis := elapsed_millis cb t\<rparr>;
          cb = cb\<lparr>cb_half_open_probes := 0\<rparr>;
          cb = cb\<lparr>cb_is_open_fast := True\<rparr>
      in if prev \<noteq> BOpen then observe (OnStateChange prev BOpen reason) cb else cb)"

definition close_breaker :: "BreakerState \<Rightarrow> string \<Rightarrow> CircuitBreaker \<Rightarrow> CircuitBreaker" where
  "close_breaker prev reason cb =
     (let cb = cb\<lparr>cb_state := state_u8 BClosed\<rparr>;
          cb = cb\<lparr>cb_window := window_clear (cb_window cb)\<rparr>;
          cb = cb\<lparr>cb_half_open_probes := 0\<rparr>;
          cb = cb\<lparr>cb_is_open_fast := False\<rparr>
      in if prev \<noteq> BClosed then observe (OnStateChange prev BClosed reason) cb else cb)"

definition sample :: "bool \<Rightarrow> instant \<Rightarrow> CircuitBreaker \<Rightarrow> CircuitBreaker" where
  "sample is_failure now cb =
     cb\<lparr>cb_window := window_evict (bc_window_duration (cb_config cb)) now (window_push is_failure now (cb_window cb))\<rparr>"

definition should_trip :: "CircuitBreaker \<Rightarrow> bool" where
  "should_trip cb \<longleftrightarrow>
     sample_count (cb_window cb) \<ge> bc_min_samples (cb_config cb)
     \<and> f64_ge (window_error_rate (cb_window cb)) (bc_error_rate_threshold (cb_config cb))"

definition record_outcome :: "Outcome \<Rightarrow> instant \<Rightarrow> instant \<Rightarrow> CircuitBreaker \<Rightarrow> CircuitBreaker" where
  "record_outcome outcome now t2 cb =
     (if \<not> bc_enabled (cb_config cb) then cb
      else
        let is_failure = (outcome = Failure);
            prev_state = breaker_state cb;
            cb = (case prev_state of
                    BClosed \<Rightarrow>
                      (let cb = sample is_failure now cb in
                       if should_trip cb then trip prev_state ''trip'' t2 cb else cb)
                  | BHalfOpen \<Rightarrow>
                      (if is_failure then trip prev_state ''probe_failure'' t2 cb
                       else close_breaker prev_state ''probe_success'' cb)
                  | BOpen \<Rightarrow> sample is_failure now cb)
        in observe (OnOutcome outcome (breaker_state cb)) cb)"

definition error_rate :: "instant \<Rightarrow> CircuitBreaker \<Rightarrow> CircuitBreaker \<times> f64" where
  "error_rate now cb =
     (let w = window_evict (bc_window_duration (cb_config cb)) now (cb_window cb)
      in (cb\<lparr>cb_window := w\<rparr>, window_error_rate w))"

section \<open>The registry of breakers\<close>

text \<open>A breaker is shared through an \<open>Arc\<close>: the map holds its address in the store.\<close>

record CircuitBreakerRegistry =
  cr_config :: BreakerConfig
  cr_breakers :: "string \<rightharpoonup> nat"
  cr_store :: "CircuitBreaker list"

definition new_breaker_registry :: "BreakerConfig \<Rightarrow> CircuitBreakerRegistry" where
  "new_breaker_registry config = \<lparr>cr_config = config, cr_breakers = Map.empty, cr_store = []\<rparr>"

definition registry_get ::
  "string \<Rightarrow> instant \<Rightarrow> CircuitBreakerRegistry \<Rightarrow> CircuitBreakerRegistry \<times> nat option" where
  "registry_get key now reg =
     (if \<not> bc_enabled (cr_config reg) then (reg, None)
      else case cr_breakers reg key of
        Some cb \<Rightarrow> (reg, Some cb)
      | None \<Rightarrow>
          let cb = length (cr_store reg)
          in (reg\<lparr>cr_store := cr_store reg @ [with_clock (cr_config reg) now],
                  cr_breakers := (cr_breakers reg)(key \<mapsto> cb)\<rparr>, Some cb))"

section \<open>The retry policy\<close>

datatype Disposition = Retryable | AuthRefresh | Terminal

record RetryPolicy =
  rp_retryable :: "u16 list"
  rp_auth_refresh :: "u16 list"
  rp_terminal :: "u16 list"
  rp_default :: Disposition

definition classify :: "RetryPolicy \<Rightarrow> u16 \<Rightarrow> Disposition option" where
  "classify p status =
     (if 200 \<le> status \<and> status < 300 then None
      else if status \<in> set (rp_auth_refresh p) then Some AuthRefresh
      else if status \<in> set (rp_terminal p) then Some Terminal
      else if status \<in> set (rp_retryable p) \<or> (500 \<le> status \<and> status < 600) then Some Retryable
      else Some (rp_default p))"

definition should_retry :: "RetryPolicy \<Rightarrow> u16 \<Rightarrow> bool" where
  "should_retry p status \<longleftrightarrow> classify p status = Some Retryable"

definition server_policy :: RetryPolicy where
  "server_policy = \<lparr>rp_retryable = [429], rp_auth_refresh = [], rp_terminal = [], rp_default = Terminal\<rparr>"

definition client_storage_policy :: RetryPolicy where
  "client_storage_policy =
     \<lparr>rp_retryable = [], rp_auth_refresh = [401], rp_terminal = [400, 403, 404], rp_default = Retryable\<rparr>"

end
