(* ===== verification/Breaker_Properties.thy ===== *)
theory Breaker_Properties
  imports Circuit_Breaker
begin

text \<open>
  What the circuit breaker keeps when its operations run one after the other: the bookkeeping of the
  window, the mirror of the open state and the probe slots, when it trips, when it sheds and when it
  recovers; and the registry, the configuration lookup and the retry policy.
\<close>

section \<open>The window\<close>

definition window_ok :: "SlidingWindow \<Rightarrow> bool" where
  "window_ok w \<longleftrightarrow> unat (sw_failures w) = length (filter snd (sw_entries w))
     \<and> length (sw_entries w) \<le> MAX_WINDOW_ENTRIES"

lemma window_ok_new: "window_ok new_window"
  by (simp add: window_ok_def new_window_def)

lemma failures_dec:
  "unat (f :: u64) = Suc n \<Longrightarrow> unat (f - 1) = n"
  by (metis diff_Suc_1 unat_minus_one unat_0 nat.distinct(1))

lemma window_ok_pop:
  assumes "window_ok w"
  shows "window_ok (pop_oldest w)" and "sw_entries (pop_oldest w) = tl (sw_entries w)"
  using assms failures_dec by (auto simp: window_ok_def pop_oldest_def split: list.split)

lemma window_push_entries:
  assumes "window_ok w"
  shows "sw_entries (window_push f t w) = drop (length (sw_entries w) + 1 - MAX_WINDOW_ENTRIES) (sw_entries w @ [(t, f)])"
proof (cases "length (sw_entries w) \<ge> MAX_WINDOW_ENTRIES")
  case True
  with assms have "length (sw_entries w) = MAX_WINDOW_ENTRIES" by (simp add: window_ok_def)
  moreover from this have "sw_entries w \<noteq> []" by (auto simp: MAX_WINDOW_ENTRIES_def)
  ultimately show ?thesis using window_ok_pop(2) [OF assms]
    by (cases "sw_entries w") (simp_all add: window_push_def Let_def)
qed (simp add: window_push_def Let_def)

lemma window_ok_push:
  assumes "window_ok w"
  shows "window_ok (window_push f t w)"
proof -
  define w1 where "w1 = (if length (sw_entries w) \<ge> MAX_WINDOW_ENTRIES then pop_oldest w else w)"
  have ok: "window_ok w1" "length (sw_entries w1) < MAX_WINDOW_ENTRIES"
    using window_ok_pop [OF assms] assms by (auto simp: w1_def window_ok_def MAX_WINDOW_ENTRIES_def)
  have "length (filter snd (sw_entries w1)) \<le> length (sw_entries w1)" by (rule length_filter_le)
  also note ok(2)
  finally have "unat (sw_failures w1) + 1 < 2 ^ 64"
    using ok(1) by (simp add: window_ok_def MAX_WINDOW_ENTRIES_def)
  then have "unat (sw_failures w1 + 1) = unat (sw_failures w1) + 1"
    by (simp add: unat_word_ariths)
  with ok show ?thesis
    by (simp add: window_push_def w1_def [symmetric] window_ok_def)
qed

lemma evict_loop_ok:
  assumes "unat n = length (filter snd es)"
  shows "sw_entries (evict_loop cutoff es n) = dropWhile (\<lambda>(ts, _). ts < cutoff) es"
    and "unat (sw_failures (evict_loop cutoff es n)) = length (filter snd (dropWhile (\<lambda>(ts, _). ts < cutoff) es))"
  using assms failures_dec by (induction cutoff es n rule: evict_loop.induct) auto

lemma window_ok_evict:
  assumes "window_ok w"
  shows "window_ok (window_evict d t w)"
proof -
  have "length (dropWhile P xs) \<le> length xs" for P and xs :: "(instant \<times> bool) list"
    by (induction xs) auto
  then show ?thesis
    using assms evict_loop_ok [of "sw_failures w" "sw_entries w"]
    by (auto simp: window_evict_def window_ok_def split: option.split intro: le_trans)
qed

text \<open>On samples in order of time, eviction keeps exactly those inside the window.\<close>

lemma dropWhile_sorted:
  "sorted (map fst es) \<Longrightarrow> dropWhile (\<lambda>(ts, _). ts < cutoff) es = filter (\<lambda>(ts, _). cutoff \<le> ts) es"
  for es :: "(instant \<times> bool) list"
proof (induction es)
  case (Cons e es)
  obtain ts f where e: "e = (ts, f)" by fastforce
  show ?case
  proof (cases "ts < cutoff")
    case False
    with Cons.prems e have "\<forall>x \<in> set es. cutoff \<le> fst x" by auto
    then have "filter (\<lambda>(ts, _). cutoff \<le> ts) es = es" by (auto intro!: filter_True)
    with False e show ?thesis by simp
  qed (use Cons e in simp)
qed simp

section \<open>The invariant\<close>

text \<open>The bounds that the types of the configuration give: \<open>usize\<close> counts, \<open>u64\<close> seconds.\<close>

definition config_ok :: "BreakerConfig \<Rightarrow> bool" where
  "config_ok c \<longleftrightarrow> bc_half_open_max_probes c < 2 ^ 64"

definition breaker_inv :: "CircuitBreaker \<Rightarrow> bool" where
  "breaker_inv cb \<longleftrightarrow>
     cb_state cb = state_u8 (breaker_state cb)
     \<and> window_ok (cb_window cb)
     \<and> cb_is_open_fast cb = (breaker_state cb = BOpen)
     \<and> unat (cb_half_open_probes cb) \<le> bc_half_open_max_probes (cb_config cb)
     \<and> (breaker_state cb \<noteq> BHalfOpen \<longrightarrow> cb_half_open_probes cb = 0)
     \<and> 1 \<le> bc_half_open_max_probes (cb_config cb) \<and> bc_half_open_max_probes (cb_config cb) < 2 ^ 64"

datatype BreakerOp = BrCheck instant instant | BrRecord Outcome instant instant | BrErrorRate instant

fun breaker_exec :: "BreakerOp \<Rightarrow> CircuitBreaker \<Rightarrow> CircuitBreaker" where
  "breaker_exec (BrCheck t1 t2) cb = fst (check t1 t2 cb)"
| "breaker_exec (BrRecord oc t1 t2) cb = record_outcome oc t1 t2 cb"
| "breaker_exec (BrErrorRate t) cb = fst (error_rate t cb)"

definition breaker_init :: "CircuitBreaker \<Rightarrow> bool" where
  "breaker_init cb \<longleftrightarrow> (\<exists>config t. config_ok config \<and> cb = with_clock config t)"

definition breaker_step :: "CircuitBreaker \<Rightarrow> CircuitBreaker \<Rightarrow> bool" where
  "breaker_step cb cb' \<longleftrightarrow> (\<exists>op. cb' = breaker_exec op cb)"

declare state_u8.simps [simp del]

lemma state_u8_inject [simp]: "state_u8 a = state_u8 b \<longleftrightarrow> a = b"
  by (cases a; cases b) (simp_all add: state_u8.simps)

lemma from_state_u8 [simp]: "from_u8 (state_u8 s) = s"
  by (cases s) (simp_all add: from_u8_def state_u8.simps)

lemma observe_simps [simp]:
  "cb_config (observe e cb) = cb_config cb" "cb_state (observe e cb) = cb_state cb"
  "cb_half_open_probes (observe e cb) = cb_half_open_probes cb" "cb_window (observe e cb) = cb_window cb"
  "cb_is_open_fast (observe e cb) = cb_is_open_fast cb" "breaker_state (observe e cb) = breaker_state cb"
  "cb_opened_at_millis (observe e cb) = cb_opened_at_millis cb"
  "cb_probe_claimed_at_millis (observe e cb) = cb_probe_claimed_at_millis cb"
  "cb_baseline (observe e cb) = cb_baseline cb"
  by (simp_all add: observe_def breaker_state_def)

lemma breaker_state_upd [simp]:
  "breaker_state (cb\<lparr>cb_state := state_u8 s\<rparr>) = s"
  "breaker_state (cb\<lparr>cb_half_open_probes := p\<rparr>) = breaker_state cb"
  "breaker_state (cb\<lparr>cb_probe_claimed_at_millis := q\<rparr>) = breaker_state cb"
  "breaker_state (cb\<lparr>cb_opened_at_millis := q\<rparr>) = breaker_state cb"
  "breaker_state (cb\<lparr>cb_is_open_fast := b\<rparr>) = breaker_state cb"
  "breaker_state (cb\<lparr>cb_window := w\<rparr>) = breaker_state cb"
  by (simp_all add: breaker_state_def)

lemma breaker_inv_observe [simp]: "breaker_inv (observe e cb) = breaker_inv cb"
  by (simp add: breaker_inv_def)

lemma probe_inv:
  assumes "breaker_inv cb" and "breaker_state cb = BHalfOpen"
  shows "breaker_inv (fst (try_half_open_probe t cb))"
proof -
  have "unat (cb_half_open_probes cb + 1) = unat (cb_half_open_probes cb) + 1"
    if "unat (cb_half_open_probes cb) < bc_half_open_max_probes (cb_config cb)"
    using that assms(1) by (simp add: breaker_inv_def unat_word_ariths)
  with assms show ?thesis
    by (auto simp: try_half_open_probe_def Let_def breaker_inv_def)
qed

lemma check_inv: "breaker_inv cb \<Longrightarrow> breaker_inv (fst (check t1 t2 cb))"
proof -
  assume inv: "breaker_inv cb"
  have "breaker_inv (fst (check_open t1 t2 cb))" if s: "breaker_state cb = BOpen"
  proof -
    let ?cb = "observe (OnStateChange BOpen BHalfOpen ''open_elapsed'')
        (cb\<lparr>cb_state := state_u8 BHalfOpen, cb_is_open_fast := False\<rparr>)"
    have "breaker_inv (cb\<lparr>cb_state := state_u8 BHalfOpen, cb_is_open_fast := False\<rparr>)"
      using inv s by (simp add: breaker_inv_def breaker_state_def)
    then have "breaker_inv (fst (try_half_open_probe t2 ?cb))"
      by (intro probe_inv) (simp_all add: breaker_state_def)
    with inv s show ?thesis
      by (auto simp: check_open_def Let_def cas_state_def breaker_inv_def [of cb])
  qed
  with inv probe_inv [OF inv] show ?thesis
    by (simp add: check_def split: BreakerState.split)
qed

lemma sample_inv: "breaker_inv cb \<Longrightarrow> breaker_inv (sample f t cb)"
  by (simp add: sample_def breaker_inv_def window_ok_push window_ok_evict)

lemma breaker_state_sample [simp]: "breaker_state (sample f t cb) = breaker_state cb"
  by (simp add: sample_def)

lemma breaker_state_trip [simp]: "breaker_state (trip s r t cb) = BOpen"
  by (simp add: trip_def Let_def)

lemma breaker_state_close [simp]: "breaker_state (close_breaker s r cb) = BClosed"
  by (simp add: close_breaker_def Let_def)

lemma trip_inv: "breaker_inv cb \<Longrightarrow> breaker_inv (trip s r t cb)"
  by (simp add: trip_def Let_def breaker_inv_def)

lemma close_inv: "breaker_inv cb \<Longrightarrow> breaker_inv (close_breaker s r cb)"
  by (simp add: close_breaker_def Let_def breaker_inv_def window_ok_def window_clear_def)

lemma record_inv: "breaker_inv cb \<Longrightarrow> breaker_inv (record_outcome oc t1 t2 cb)"
  by (simp add: record_outcome_def Let_def sample_inv trip_inv close_inv split: BreakerState.split)

lemma breaker_inv_step: "breaker_inv cb \<Longrightarrow> breaker_inv (breaker_exec op cb)"
proof (cases op)
  case (BrErrorRate t)
  assume "breaker_inv cb"
  with BrErrorRate show ?thesis by (simp add: error_rate_def Let_def breaker_inv_def window_ok_evict)
qed (simp_all add: check_inv record_inv)

lemma breaker_inv_init: "breaker_init cb \<Longrightarrow> breaker_inv cb"
  by (auto simp: breaker_init_def with_clock_def breaker_inv_def config_ok_def breaker_state_def window_ok_new)

lemma breaker_inv_with_clock: "bc_half_open_max_probes config < 2 ^ 64 \<Longrightarrow> breaker_inv (with_clock config t)"
  by (rule breaker_inv_init) (unfold breaker_init_def config_ok_def, blast)

interpretation breaker: invariant_system breaker_init breaker_step breaker_inv
  by unfold_locales (auto simp: breaker_inv_init breaker_step_def breaker_inv_step)


section \<open>The window keeps the recent samples\<close>

definition push_evict :: "duration \<Rightarrow> instant \<times> bool \<Rightarrow> SlidingWindow \<Rightarrow> SlidingWindow" where
  "push_evict d = (\<lambda>(t, f) w. window_evict d t (window_push f t w))"

definition feed :: "duration \<Rightarrow> (instant \<times> bool) list \<Rightarrow> SlidingWindow" where
  "feed d xs = fold (push_evict d) xs new_window"

text \<open>The abstract window: of the last \<open>MAX_WINDOW_ENTRIES\<close> samples, those not older than \<open>d\<close>.\<close>

definition last_entries :: "(instant \<times> bool) list \<Rightarrow> (instant \<times> bool) list" where
  "last_entries xs = drop (length xs - MAX_WINDOW_ENTRIES) xs"

definition recent :: "duration \<Rightarrow> instant \<Rightarrow> (instant \<times> bool) list \<Rightarrow> (instant \<times> bool) list" where
  "recent d now xs = filter (\<lambda>(t, _). now - int d \<le> t) (last_entries xs)"

text \<open>Instants are readings of a clock whose seconds are a signed 64-bit number.\<close>

definition representable :: "instant \<Rightarrow> bool" where
  "representable t \<longleftrightarrow> - (2 ^ 63) * 10 ^ 9 \<le> t"

lemma feed_snoc: "feed d (xs @ [x]) = push_evict d x (feed d xs)"
  by (simp add: feed_def)

lemma window_ok_feed: "window_ok (feed d xs)"
  by (induction xs rule: rev_induct)
    (auto simp: feed_snoc push_evict_def window_ok_push window_ok_evict feed_def window_ok_new split: prod.split)

lemma window_evict_entries:
  assumes "window_ok w" and "sorted (map fst (sw_entries w))" and "\<forall>t \<in> fst ` set (sw_entries w). representable t"
  shows "sw_entries (window_evict d now w) = filter (\<lambda>(t, _). now - int d \<le> t) (sw_entries w)"
proof (cases "instant_checked_sub now d")
  case None
  then have "\<forall>(t, f) \<in> set (sw_entries w). now - int d \<le> t"
    using assms(3) by (fastforce simp: instant_checked_sub_def representable_def split: if_splits)
  then have "filter (\<lambda>(t, _). now - int d \<le> t) (sw_entries w) = sw_entries w"
    by (simp add: filter_True)
  with None show ?thesis by (simp add: window_evict_def)
next
  case (Some cutoff)
  then have "cutoff = now - int d" by (auto simp: instant_checked_sub_def split: if_splits)
  with Some assms show ?thesis
    by (simp add: window_evict_def window_ok_def evict_loop_ok(1) dropWhile_sorted)
qed

lemma set_last_entries: "set (last_entries xs) \<subseteq> set xs"
  by (simp add: last_entries_def set_drop_subset)

lemma sorted_drop_entries: "sorted (map fst xs) \<Longrightarrow> sorted (map fst (drop n xs))"
  for xs :: "(instant \<times> bool) list"
  by (simp add: drop_map [symmetric] sorted_wrt_drop)

lemma sorted_last_entries: "sorted (map fst xs) \<Longrightarrow> sorted (map fst (last_entries xs))"
  by (simp add: last_entries_def sorted_drop_entries)

lemma sorted_filter_entries: "sorted (map fst xs) \<Longrightarrow> sorted (map fst (filter P xs))"
  for xs :: "(instant \<times> bool) list"
  by (rule sorted_filter)

lemma last_entries_snoc:
  "last_entries (xs @ [x]) =
     (if length xs < MAX_WINDOW_ENTRIES then last_entries xs @ [x] else tl (last_entries xs) @ [x])"
proof -
  have "Suc 0 - MAX_WINDOW_ENTRIES = 0" by (simp add: MAX_WINDOW_ENTRIES_def)
  then show ?thesis by (auto simp: last_entries_def Suc_diff_le drop_Suc tl_drop)
qed

lemma length_last_entries: "length (last_entries xs) = min (length xs) MAX_WINDOW_ENTRIES"
  by (simp add: last_entries_def)

text \<open>Pushing onto the recent samples forgets nothing that a later cutoff would keep.\<close>

lemma recent_push:
  assumes "sorted (map fst xs)" and "c \<le> c'"
  defines "es \<equiv> filter (\<lambda>(t, _). c \<le> t) (last_entries xs)"
  shows "filter (\<lambda>(t, _). c' \<le> t) (drop (length es + 1 - MAX_WINDOW_ENTRIES) (es @ [x]))
           = filter (\<lambda>(t, _). c' \<le> t) (last_entries (xs @ [x]))"
proof (cases "length es < MAX_WINDOW_ENTRIES")
  case False
  with length_filter_le [of "\<lambda>(t, _). c \<le> t" "last_entries xs"] length_last_entries [of xs]
  have len: "length es = MAX_WINDOW_ENTRIES" "length (last_entries xs) = MAX_WINDOW_ENTRIES"
    by (auto simp: es_def)
  then have "es = last_entries xs" 
    by (metis (no_types, lifting) es_def filter_id_conv length_filter_less less_irrefl)
  with len length_last_entries [of xs] show ?thesis
    by (cases "last_entries xs") (auto simp: last_entries_snoc MAX_WINDOW_ENTRIES_def)
next
  case True
  have keep: "filter (\<lambda>(t, _). c' \<le> t) es = filter (\<lambda>(t, _). c' \<le> t) (last_entries xs)"
    using assms(2) by (auto simp: es_def intro!: filter_cong)
  have "filter (\<lambda>(t, _). c' \<le> t) (tl (last_entries xs)) = filter (\<lambda>(t, _). c' \<le> t) (last_entries xs)"
    if full: "\<not> length xs < MAX_WINDOW_ENTRIES"
  proof (cases "last_entries xs")
    case (Cons e ys)
    obtain t f where e: "e = (t, f)" by fastforce
    have "t < c"
    proof (rule ccontr)
      assume "\<not> t < c"
      with sorted_last_entries [OF assms(1)] Cons e have "filter (\<lambda>(t, _). c \<le> t) (last_entries xs) = last_entries xs"
        by (auto intro!: filter_True)
      with full True length_last_entries [of xs] show False by (simp add: es_def)
    qed
    with Cons e assms(2) show ?thesis by simp
  qed simp
  with True keep show ?thesis by (simp add: last_entries_snoc)
qed

lemma feed_recent:
  assumes "sorted (map fst (xs @ [x]))" and "\<forall>t \<in> fst ` set (xs @ [x]). representable t"
  shows "sw_entries (feed d (xs @ [x])) = recent d (fst x) (xs @ [x])"
  using assms
proof (induction xs arbitrary: x rule: rev_induct)
  case Nil
  have "sw_entries (window_push (snd x) (fst x) new_window) = [x]"
    by (simp add: window_push_entries window_ok_new) (simp add: new_window_def MAX_WINDOW_ENTRIES_def)
  with Nil show ?case
    by (simp add: feed_def push_evict_def split_beta window_evict_entries window_ok_push window_ok_new
        recent_def last_entries_def MAX_WINDOW_ENTRIES_def)
next
  case (snoc y xs)
  let ?xs = "xs @ [y]" and ?w = "feed d (xs @ [y])"
  have IH: "sw_entries ?w = recent d (fst y) ?xs"
    using snoc.prems by (intro snoc.IH) (auto simp: sorted_append)
  have push: "sw_entries (window_push (snd x) (fst x) ?w)
      = drop (length (sw_entries ?w) + 1 - MAX_WINDOW_ENTRIES) (sw_entries ?w @ [x])"
    by (simp add: window_push_entries window_ok_feed)
  have sub: "set (sw_entries ?w) \<subseteq> set ?xs"
    using set_last_entries [of ?xs] by (auto simp: IH recent_def)
  from snoc.prems(1) have "\<forall>e \<in> set ?xs. fst e \<le> fst x" by (auto simp: sorted_append)
  with sub have "\<forall>e \<in> set (sw_entries ?w). fst e \<le> fst x" by blast
  moreover have "sorted (map fst (sw_entries ?w))"
    using snoc.prems(1) by (auto simp: IH recent_def sorted_append intro!: sorted_filter_entries sorted_last_entries)
  ultimately have srt: "sorted (map fst (sw_entries ?w @ [x]))" by (simp add: sorted_append)
  have "fst ` set (sw_entries ?w @ [x]) \<subseteq> fst ` set (?xs @ [x])"
    using sub by auto
  with snoc.prems(2) have rep: "\<forall>t \<in> fst ` set (sw_entries ?w @ [x]). representable t" by blast
  have "sw_entries (feed d (?xs @ [x])) = sw_entries (window_evict d (fst x) (window_push (snd x) (fst x) ?w))"
    unfolding feed_snoc [of d ?xs] by (simp add: push_evict_def split_beta)
  also have "\<dots> = filter (\<lambda>(t, _). fst x - int d \<le> t) (sw_entries (window_push (snd x) (fst x) ?w))"
  proof (rule window_evict_entries)
    show "sorted (map fst (sw_entries (window_push (snd x) (fst x) ?w)))"
      unfolding push by (rule sorted_drop_entries [OF srt])
    show "\<forall>t \<in> fst ` set (sw_entries (window_push (snd x) (fst x) ?w)). representable t"
      unfolding push using rep by (auto dest!: in_set_dropD)
  qed (simp add: window_ok_push window_ok_feed)
  also have "\<dots> = recent d (fst x) (?xs @ [x])"
    unfolding push IH recent_def
    using snoc.prems(1) by (intro recent_push) (auto simp: sorted_append)
  finally show ?case by simp
qed

text \<open>
  C33: The incrementally maintained window refines the window it stands for: after samples in order of
  time, each pushed and then followed by an eviction, its entries are exactly those of the last
  10,000 samples that are not older than the window, and its counter is the number of failures among
  them.
\<close>

theorem window_refines_recent:
  assumes "sorted (map fst (xs @ [(now, f)]))" and "\<forall>t \<in> fst ` set (xs @ [(now, f)]). representable t"
  shows "sw_entries (feed d (xs @ [(now, f)])) = recent d now (xs @ [(now, f)])
    \<and> unat (sw_failures (feed d (xs @ [(now, f)]))) = length (filter snd (recent d now (xs @ [(now, f)])))"
  using feed_recent [OF assms] window_ok_feed [of d "xs @ [(now, f)]"] by (simp add: window_ok_def)

lemma window_refines_recent_witness:
  "sw_entries (feed 5 [(1, True), (7, False), (9, True)]) = [(7, False), (9, True)]"
  using window_refines_recent [of "[(1, True), (7, False)]" 9 True 5]
  by (simp add: representable_def recent_def last_entries_def MAX_WINDOW_ENTRIES_def)

section \<open>The threshold comparison\<close>

text \<open>
  Rounding the quotient of two small counts to a binary64 never moves it across one half: the
  distance of a quotient below one half from it is more than half a unit in the last place.
\<close>

lemma div_nearest_even_ge: "b > 0 \<Longrightarrow> m * b \<le> a \<Longrightarrow> m \<le> div_nearest_even a b"
  using div_le_mono [of "m * b" a b] by (auto simp: div_nearest_even_def Let_def)

lemma div_nearest_even_less:
  assumes "b > 0" and "2 * a + b < 2 * m * b"
  shows "div_nearest_even a b < m"
proof -
  define q r where "q = a div b" and "r = a mod b"
  then have a: "a = q * b + r" by simp
  have "div_nearest_even a b = (if 2 * r < b then q else if b < 2 * r then q + 1 else if even q then q else q + 1)"
    by (simp add: div_nearest_even_def Let_def q_def r_def)
  then have "div_nearest_even a b * b * 2 \<le> 2 * a + b"
    unfolding a by (simp add: algebra_simps)
  then have "div_nearest_even a b * b * 2 < 2 * m * b" using assms(2) by (rule le_less_trans)
  then have "div_nearest_even a b * b < m * b" by linarith
  then show ?thesis by simp
qed

lemma f64_div_half:
  assumes "b > 0" and "b < 2 ^ 52"
  shows "f64_ge (f64_div a b) (Num (1 / 2)) \<longleftrightarrow> b \<le> 2 * a"
proof -
  define k where "k = doublings a b"
  define n where "n = div_nearest_even (2 ^ (52 + k) * a) b"
  obtain p :: nat where p: "2 ^ (51 + k) = p" "2 ^ (52 + k) = 2 * p"
    using power_Suc [of "2 :: nat" "51 + k"] by simp
  have "f64_ge (f64_div a b) (Num (1 / 2)) \<longleftrightarrow> (1 / 2 :: rat) \<le> of_nat n / 2 ^ (52 + k)"
    by (simp add: f64_div_def Let_def k_def n_def)
  also have "\<dots> \<longleftrightarrow> (2 :: rat) ^ (51 + k) \<le> of_nat n"
    by (simp add: field_simps power_add)
  also have "\<dots> \<longleftrightarrow> 2 ^ (51 + k) \<le> n"
    by (metis of_nat_le_iff of_nat_numeral of_nat_power)
  also have "\<dots> \<longleftrightarrow> b \<le> 2 * a"
    unfolding n_def p
  proof
    assume "b \<le> 2 * a"
    then have "p * b \<le> 2 * p * a" by simp
    with assms(1) show "p \<le> div_nearest_even (2 * p * a) b" by (rule div_nearest_even_ge)
  next
    assume le: "p \<le> div_nearest_even (2 * p * a) b"
    show "b \<le> 2 * a"
    proof (rule ccontr)
      assume "\<not> b \<le> 2 * a"
      then have "2 * p * (2 * a + 1) \<le> 2 * p * b" by (intro mult_left_mono) simp_all
      moreover have "b < 2 * p"
        using assms(2) power_increasing [of 52 "52 + k" "2 :: nat"] unfolding p(2) [symmetric] by simp
      ultimately have "2 * (2 * p * a) + b < 2 * p * b" by (simp add: algebra_simps)
      with assms(1) have "div_nearest_even (2 * p * a) b < p" by (rule div_nearest_even_less)
      with le show False by simp
    qed
  qed
  finally show ?thesis .
qed

lemma window_half:
  assumes "window_ok w" and "sw_entries w \<noteq> []"
  shows "f64_ge (window_error_rate w) (Num (1 / 2))
           \<longleftrightarrow> length (sw_entries w) \<le> 2 * length (filter snd (sw_entries w))"
proof -
  have "length (sw_entries w) < 2 ^ 52" using assms(1) by (simp add: window_ok_def MAX_WINDOW_ENTRIES_def)
  with assms show ?thesis by (simp add: window_error_rate_def window_ok_def f64_div_half)
qed

section \<open>When a preset trips\<close>

text \<open>
  One request per element: its outcome, the time of the sample and the time of the reading that
  \<open>trip\<close> makes.
\<close>

definition record_all :: "(Outcome \<times> instant \<times> instant) list \<Rightarrow> CircuitBreaker \<Rightarrow> CircuitBreaker" where
  "record_all = fold (\<lambda>(oc, t1, t2) cb. record_outcome oc t1 t2 cb)"

definition samples_of :: "(Outcome \<times> instant \<times> instant) list \<Rightarrow> (instant \<times> bool) list" where
  "samples_of = map (\<lambda>(oc, t1, _). (t1, oc = Failure))"

lemma record_all_snoc: "record_all (rs @ [(oc, t1, t2)]) cb = record_outcome oc t1 t2 (record_all rs cb)"
  by (simp add: record_all_def)

lemma record_config [simp]: "cb_config (record_outcome oc t1 t2 cb) = cb_config cb"
  by (simp add: record_outcome_def Let_def trip_def close_breaker_def sample_def split: BreakerState.split)

lemma record_all_config [simp]: "cb_config (record_all rs cb) = cb_config cb"
  unfolding record_all_def by (induction rs arbitrary: cb) (simp_all add: split_beta)

lemma record_closed:
  assumes "breaker_state cb = BClosed" and "bc_enabled (cb_config cb)"
  shows "breaker_state (record_outcome oc t1 t2 cb) = (if should_trip (sample (oc = Failure) t1 cb) then BOpen else BClosed)"
    and "cb_window (record_outcome oc t1 t2 cb) = cb_window (sample (oc = Failure) t1 cb)"
  using assms by (simp_all add: record_outcome_def Let_def trip_def)

lemma record_all_closed:
  assumes "bc_enabled (cb_config cb)" and "breaker_state cb = BClosed" and "cb_window cb = new_window"
    and "\<forall>n < length rs. breaker_state (record_all (take n rs) cb) = BClosed"
  shows "cb_window (record_all rs cb) = feed (bc_window_duration (cb_config cb)) (samples_of rs)"
  using assms
proof (induction rs rule: rev_induct)
  case Nil
  then show ?case by (simp add: record_all_def samples_of_def feed_def)
next
  case (snoc r rs)
  obtain oc t1 t2 where r: "r = (oc, t1, t2)" by (cases r)
  have closed: "breaker_state (record_all rs cb) = BClosed"
    using snoc.prems(4) by (metis append_eq_conv_conj length_append_singleton lessI)
  have "\<forall>n < length rs. breaker_state (record_all (take n rs) cb) = BClosed"
    using snoc.prems(4) by (metis length_append_singleton less_SucI less_imp_le take_append diff_is_0_eq take0 append_Nil2)
  with snoc have "cb_window (record_all rs cb) = feed (bc_window_duration (cb_config cb)) (samples_of rs)" by blast
  with closed snoc.prems(1) show ?case
    by (simp add: r record_all_snoc record_closed(2) samples_of_def feed_snoc push_evict_def sample_def)
qed

text \<open>Below the minimum number of samples a breaker stays closed.\<close>

lemma pushed_entries: "length (sw_entries (push_evict d x w)) \<le> Suc (length (sw_entries w))"
proof -
  have evict: "length (sw_entries (evict_loop c es n)) \<le> length es" for c es n
    by (induction c es n rule: evict_loop.induct) auto
  have "length (sw_entries (pop_oldest w)) \<le> length (sw_entries w)"
    by (simp add: pop_oldest_def split: list.split)
  then have "length (sw_entries (window_push f t w)) \<le> Suc (length (sw_entries w))" for f t
    by (simp add: window_push_def Let_def)
  with evict show ?thesis
    unfolding push_evict_def window_evict_def by (auto split: prod.split option.split intro: le_trans [OF evict])
qed

lemma few_samples_closed:
  assumes "length rs < bc_min_samples (cb_config cb)" and "breaker_state cb = BClosed" and "cb_window cb = new_window"
  shows "breaker_state (record_all rs cb) = BClosed \<and> length (sw_entries (cb_window (record_all rs cb))) \<le> length rs"
  using assms
proof (induction rs rule: rev_induct)
  case Nil
  then show ?case by (simp add: record_all_def new_window_def)
next
  case (snoc r rs)
  obtain oc t1 t2 where r: "r = (oc, t1, t2)" by (cases r)
  let ?cb = "record_all rs cb" and ?d = "bc_window_duration (cb_config cb)"
  from snoc have IH: "breaker_state ?cb = BClosed" "length (sw_entries (cb_window ?cb)) \<le> length rs" by simp_all
  have "length (sw_entries (push_evict ?d (t1, oc = Failure) (cb_window ?cb))) \<le> Suc (length rs)"
    using pushed_entries IH(2) by (meson Suc_le_mono le_trans)
  then have "length (sw_entries (cb_window (sample (oc = Failure) t1 ?cb))) \<le> Suc (length rs)"
    by (simp add: sample_def push_evict_def)
  with IH snoc.prems(1) show ?case
    by (cases "bc_enabled (cb_config cb)")
      (simp_all add: r record_all_snoc record_closed should_trip_def sample_count_def record_outcome_def sample_def)
qed



section \<open>Consistency, recovery and honest rejections\<close>

text \<open>
  Whatever the clock reads and however checks, outcomes and rate readings follow one another, a
  breaker built from a configuration keeps its bookkeeping: the state byte is a valid state, the
  lock-free mirror says open exactly in the open state, the failure counter is the number of failed
  entries of a window of at most 10,000, and the claimed probe slots are at most the configured
  number and none outside the half-open state.
\<close>

theorem breaker_always_consistent:
  assumes "breaker_step\<^sup>*\<^sup>* (with_clock config t0) cb" and "bc_half_open_max_probes config < 2 ^ 64"
  shows "cb_state cb \<in> {0, 1, 2} \<and> is_open cb = (breaker_state cb = BOpen)
    \<and> unat (sw_failures (cb_window cb)) = length (filter snd (sw_entries (cb_window cb)))
    \<and> length (sw_entries (cb_window cb)) \<le> 10000
    \<and> unat (cb_half_open_probes cb) \<le> bc_half_open_max_probes (cb_config cb)
    \<and> (breaker_state cb \<noteq> BHalfOpen \<longrightarrow> cb_half_open_probes cb = 0)"
proof -
  from assms have inv: "breaker_inv cb" by (blast intro: breaker.steps_inv breaker_inv_with_clock)
  then have "cb_state cb = state_u8 (breaker_state cb)" by (simp add: breaker_inv_def)
  then have "cb_state cb \<in> {0, 1, 2}" by (cases "breaker_state cb") (simp_all add: state_u8.simps)
  with inv show ?thesis by (simp add: breaker_inv_def is_open_def window_ok_def MAX_WINDOW_ENTRIES_def)
qed

lemma breaker_always_consistent_witness:
  "is_open (breaker_exec (BrRecord Success 1 1) (with_clock client_config 0))
     = (breaker_state (breaker_exec (BrRecord Success 1 1) (with_clock client_config 0)) = BOpen)"
proof -
  have "breaker_step\<^sup>*\<^sup>* (with_clock client_config 0) (breaker_exec (BrRecord Success 1 1) (with_clock client_config 0))"
    unfolding breaker_step_def by blast
  from breaker_always_consistent [OF this] show ?thesis by (simp add: client_config_def)
qed

text \<open>A run that reads the clock no later than at \<open>T\<close>.\<close>

fun op_times :: "BreakerOp \<Rightarrow> instant set" where
  "op_times (BrCheck t1 t2) = {t1, t2}"
| "op_times (BrRecord oc t1 t2) = {t1, t2}"
| "op_times (BrErrorRate t) = {t}"

definition step_until :: "instant \<Rightarrow> CircuitBreaker \<Rightarrow> CircuitBreaker \<Rightarrow> bool" where
  "step_until T cb cb' \<longleftrightarrow> (\<exists>op. op_times op \<subseteq> {..T} \<and> cb' = breaker_exec op cb)"

definition millis_at :: "CircuitBreaker \<Rightarrow> instant \<Rightarrow> nat" where
  "millis_at cb t = nat (t - cb_baseline cb) div 10 ^ 6"

definition stamps_until :: "instant \<Rightarrow> CircuitBreaker \<Rightarrow> bool" where
  "stamps_until T cb \<longleftrightarrow> unat (cb_opened_at_millis cb) \<le> millis_at cb T \<and> unat (cb_probe_claimed_at_millis cb) \<le> millis_at cb T"

lemma unat_of_nat_le: "unat (of_nat n :: u64) \<le> n"
  by (simp add: unat_of_nat take_bit_nat_less_eq_self)

lemma elapsed_le: "t \<le> T \<Longrightarrow> unat (elapsed_millis cb t) \<le> millis_at cb T"
  unfolding elapsed_millis_def millis_at_def as_millis_def saturating_duration_since_def
  by (rule le_trans [OF unat_of_nat_le]) (simp add: div_le_mono nat_mono)

lemma elapsed_exact:
  assumes "t - cb_baseline cb < 2 ^ 64 * 10 ^ 6"
  shows "unat (elapsed_millis cb t) = millis_at cb t"
proof -
  have "nat (t - cb_baseline cb) div 10 ^ 6 < 2 ^ 64"
    using assms by (simp add: div_less_iff_less_mult nat_less_iff)
  then show ?thesis
    by (simp add: elapsed_millis_def millis_at_def as_millis_def saturating_duration_since_def unat_of_nat
        take_bit_nat_eq_self)
qed

lemma elapsed_upd [simp]:
  "elapsed_millis (cb\<lparr>cb_state := s\<rparr>) t = elapsed_millis cb t" "elapsed_millis (cb\<lparr>cb_half_open_probes := p\<rparr>) t = elapsed_millis cb t"
  "elapsed_millis (cb\<lparr>cb_is_open_fast := b\<rparr>) t = elapsed_millis cb t" "elapsed_millis (observe e cb) t = elapsed_millis cb t"
  "elapsed_millis (cb\<lparr>cb_window := w\<rparr>) t = elapsed_millis cb t"
  by (simp_all add: elapsed_millis_def observe_def)

lemma stamps_upd [simp]:
  "stamps_until T (cb\<lparr>cb_state := s\<rparr>) = stamps_until T cb" "stamps_until T (observe e cb) = stamps_until T cb"
  "stamps_until T (cb\<lparr>cb_is_open_fast := b\<rparr>) = stamps_until T cb"
  by (simp_all add: stamps_until_def millis_at_def)

lemma saturating_sub64_unat: "unat (saturating_sub64 a b) = unat a - unat b"
  by (auto simp: saturating_sub64_def word_le_nat_alt unat_sub)

lemma probe_stamps:
  assumes "t \<le> T"
  shows "cb_baseline (fst (try_half_open_probe t cb)) = cb_baseline cb"
    and "stamps_until T cb \<Longrightarrow> stamps_until T (fst (try_half_open_probe t cb))"
  using elapsed_le [OF assms, of cb]
  by (auto simp: try_half_open_probe_def Let_def stamps_until_def millis_at_def)

lemma check_stamps:
  assumes "t1 \<le> T" "t2 \<le> T"
  shows "cb_baseline (fst (check t1 t2 cb)) = cb_baseline cb"
    and "stamps_until T cb \<Longrightarrow> stamps_until T (fst (check t1 t2 cb))"
  using probe_stamps [OF assms(1), of cb] probe_stamps [OF assms(2)]
  by (simp_all add: check_def check_open_def Let_def cas_state_def split: BreakerState.split)

lemma record_stamps:
  assumes "t2 \<le> T"
  shows "cb_baseline (record_outcome oc t1 t2 cb) = cb_baseline cb"
    and "stamps_until T cb \<Longrightarrow> stamps_until T (record_outcome oc t1 t2 cb)"
  using elapsed_le [OF assms, of cb]
  by (auto simp: record_outcome_def Let_def trip_def close_breaker_def sample_def stamps_until_def millis_at_def
      split: BreakerState.split)

lemma run_stamps:
  assumes "(step_until T)\<^sup>*\<^sup>* cb cb'"
  shows "stamps_until T cb \<Longrightarrow> stamps_until T cb'" and "cb_baseline cb' = cb_baseline cb"
    and "cb_config cb' = cb_config cb" and "breaker_inv cb \<Longrightarrow> breaker_inv cb'"
proof -
  have "cb_config (fst (try_half_open_probe t cb)) = cb_config cb" for t cb
    by (simp add: try_half_open_probe_def Let_def)
  then have check: "cb_config (fst (check t1 t2 cb)) = cb_config cb" for t1 t2 cb
    by (simp add: check_def check_open_def Let_def cas_state_def split: BreakerState.split)
  have step: "(stamps_until T c \<longrightarrow> stamps_until T (breaker_exec op c)) \<and> cb_baseline (breaker_exec op c) = cb_baseline c
      \<and> cb_config (breaker_exec op c) = cb_config c" if "op_times op \<subseteq> {..T}" for op c
    using that check_stamps record_stamps
    by (cases op) (auto simp: check error_rate_def Let_def stamps_until_def millis_at_def)
  from assms show "stamps_until T cb \<Longrightarrow> stamps_until T cb'" "cb_baseline cb' = cb_baseline cb"
    "cb_config cb' = cb_config cb" "breaker_inv cb \<Longrightarrow> breaker_inv cb'"
    by (induction rule: rtranclp_induct) (auto simp: step_until_def step breaker_inv_step)
qed

lemma stamps_init: "stamps_until T (with_clock config t)"
  by (simp add: stamps_until_def with_clock_def)

lemma admitted_when_elapsed:
  assumes "breaker_inv cb" and "breaker_state cb = BOpen" and "bc_enabled (cb_config cb)"
    and "bc_open_duration (cb_config cb) \<le> from_millis (unat (elapsed_millis cb t) - unat (cb_opened_at_millis cb))"
  shows "snd (check t t' cb) = Ok ()" and "breaker_state (fst (check t t' cb)) = BHalfOpen"
  using assms
  by (auto simp: check_def check_open_def Let_def cas_state_def try_half_open_probe_def saturating_sub64_unat breaker_inv_def)

lemma admitted_by_lease:
  assumes "breaker_state cb = BHalfOpen"
    and "as_millis (bc_open_duration (cb_config cb)) \<le> unat (elapsed_millis cb t) - unat (cb_probe_claimed_at_millis cb)"
  shows "snd (check t t' cb) = Ok ()" and "breaker_state (fst (check t t' cb)) = BHalfOpen"
proof -
  have "(of_nat (as_millis (bc_open_duration (cb_config cb))) :: u64)
      \<le> saturating_sub64 (elapsed_millis cb t) (cb_probe_claimed_at_millis cb)"
    using assms(2) unat_of_nat_le by (simp add: word_le_nat_alt saturating_sub64_unat) (meson le_trans)
  with assms(1) show "snd (check t t' cb) = Ok ()" and "breaker_state (fst (check t t' cb)) = BHalfOpen"
    by (simp_all add: check_def try_half_open_probe_def Let_def)
qed

lemma probe_success_closes:
  fixes t1 t2 :: instant
  assumes "bc_enabled (cb_config cb)" and "breaker_state cb = BHalfOpen"
  defines "cb' \<equiv> record_outcome Success t1 t2 cb"
  shows "breaker_state cb' = BClosed \<and> sw_entries (cb_window cb') = [] \<and> \<not> is_open cb' \<and> (\<forall>u u'. snd (check u u' cb') = Ok ())"
  using assms by (simp add: record_outcome_def Let_def close_breaker_def window_clear_def is_open_def check_def)

text \<open>The milliseconds of two instants that lie a duration and a millisecond apart.\<close>

lemma millis_apart:
  assumes "cb_baseline cb \<le> T" and "T + int d + 10 ^ 6 \<le> t"
  shows "d \<le> from_millis (millis_at cb t - millis_at cb T)" and "as_millis d \<le> millis_at cb t - millis_at cb T"
proof -
  obtain x y where xy: "nat (T - cb_baseline cb) = x" "nat (t - cb_baseline cb) = y" by blast
  have "x + d + 10 ^ 6 \<le> y" using assms xy by simp
  moreover have "y < (y div 10 ^ 6 + 1) * 10 ^ 6" "x div 10 ^ 6 * 10 ^ 6 \<le> x"
    using dividend_less_div_times [of "10 ^ 6" y] by simp_all
  ultimately have le: "x div 10 ^ 6 * 10 ^ 6 + d \<le> y div 10 ^ 6 * 10 ^ 6" by simp
  then show "d \<le> from_millis (millis_at cb t - millis_at cb T)"
    unfolding millis_at_def xy from_millis_def diff_mult_distrib by simp
  then show "as_millis d \<le> millis_at cb t - millis_at cb T"
    using div_le_mono [of d _ "10 ^ 6"] by (fastforce simp: as_millis_def from_millis_def)
qed


definition touchy_config :: BreakerConfig where
  "touchy_config = server_config\<lparr>bc_min_samples := 1, bc_error_rate_threshold := Num 0\<rparr>"

lemma touchy_trips:
  "(step_until 0)\<^sup>*\<^sup>* (with_clock touchy_config 0) (record_outcome Failure 0 0 (with_clock touchy_config 0))"
  "breaker_state (record_outcome Failure 0 0 (with_clock touchy_config 0)) = BOpen"
proof -
  show "(step_until 0)\<^sup>*\<^sup>* (with_clock touchy_config 0) (record_outcome Failure 0 0 (with_clock touchy_config 0))"
    by (rule r_into_rtranclp) (auto simp: step_until_def intro!: exI [of _ "BrRecord Failure 0 0"])
  show "breaker_state (record_outcome Failure 0 0 (with_clock touchy_config 0)) = BOpen"
    by (subst record_closed(1))
      (simp_all add: with_clock_def touchy_config_def server_config_def breaker_state_def should_trip_def sample_def
        sample_count_def window_push_def new_window_def window_evict_def instant_checked_sub_def from_secs_def
        window_error_rate_def f64_div_def doublings.simps div_nearest_even_def MAX_WINDOW_ENTRIES_def)
qed


text \<open>
  C34: A rejection of an open breaker is honest: it advertises a positive wait of at most the open
  duration, and a caller that comes back to the unchanged breaker after waiting that long is
  admitted (the open duration being a whole number of milliseconds, as every preset and every
  duration from the environment is).
\<close>

theorem retry_after_is_honest:
  fixes t t1 t2 t3 :: instant
  assumes "(step_until T)\<^sup>*\<^sup>* (with_clock config t0) cb" and "bc_half_open_max_probes config < 2 ^ 64"
    and "breaker_state cb = BOpen" and "snd (check t1 t2 cb) = Err (BreakerOpen wait)"
    and "t0 \<le> T" and "T \<le> t1" and "10 ^ 6 dvd bc_open_duration config"
    and "t1 + int wait \<le> t" and "t - t0 < 2 ^ 64 * 10 ^ 6"
  shows "0 < wait \<and> wait \<le> bc_open_duration config \<and> snd (check t t3 cb) = Ok ()"
proof -
  from assms(2) run_stamps(4) [OF assms(1)] have inv: "breaker_inv cb" by (blast intro: breaker_inv_with_clock)
  let ?d = "bc_open_duration config" and ?o = "unat (cb_opened_at_millis cb)"
  have stamps: "stamps_until T cb" using run_stamps(1) [OF assms(1) stamps_init] .
  have cfg: "bc_open_duration (cb_config cb) = ?d" "cb_baseline cb = t0"
    using run_stamps(2,3) [OF assms(1)] by (simp_all add: with_clock_def)
  have en: "bc_enabled (cb_config cb)" using assms(4) by (auto simp: check_def split: if_splits)
  have ms: "unat (elapsed_millis cb u) = millis_at cb u" if "u \<le> t" for u
    using assms(9) cfg(2) that by (simp add: elapsed_exact)
  obtain x y where xy: "nat (t1 - t0) = x" "nat (t - t0) = y" by blast
  have "millis_at cb T \<le> millis_at cb t1"
    using assms(6) by (simp add: millis_at_def div_le_mono nat_mono)
  with stamps have o: "?o \<le> x div 10 ^ 6" by (simp add: stamps_until_def millis_at_def cfg xy)
  have t1: "unat (elapsed_millis cb t1) = x div 10 ^ 6"
    using ms [of t1] assms(8) by (simp add: millis_at_def cfg xy)
  then have wait: "wait = ?d - from_millis (x div 10 ^ 6 - ?o)" "from_millis (x div 10 ^ 6 - ?o) < ?d"
    using assms(3,4) inv en
    by (auto simp: check_def check_open_def Let_def cas_state_def breaker_inv_def cfg saturating_sub64_unat
        try_half_open_probe_def split: if_splits)
  from assms(7) obtain k where k: "?d = 10 ^ 6 * k" by blast
  have "x + wait \<le> y" using assms(5,6,8) xy by simp
  then have "(x + wait) div 10 ^ 6 \<le> y div 10 ^ 6" by (rule div_le_mono)
  moreover have "wait = (k - (x div 10 ^ 6 - ?o)) * 10 ^ 6" using wait k by (simp add: from_millis_def algebra_simps)
  ultimately have "x div 10 ^ 6 + (k - (x div 10 ^ 6 - ?o)) \<le> y div 10 ^ 6" by simp
  with o have "k \<le> y div 10 ^ 6 - ?o" by simp
  then have "?d \<le> from_millis (y div 10 ^ 6 - ?o)" using k by (simp add: from_millis_def)
  with ms [of t] have "snd (check t t3 cb) = Ok ()"
    by (intro admitted_when_elapsed [OF inv assms(3) en]) (simp add: millis_at_def cfg xy)
  with wait show ?thesis by simp
qed

lemma retry_after_is_honest_witness:
  "snd (check (10 ^ 9) (10 ^ 9) (record_outcome Failure 0 0 (with_clock touchy_config 0))) = Err (BreakerOpen (9 * 10 ^ 9))
   \<and> snd (check (10 ^ 10) 0 (record_outcome Failure 0 0 (with_clock touchy_config 0))) = Ok ()"
proof -
  let ?cb = "record_outcome Failure 0 0 (with_clock touchy_config 0)"
  have run: "stamps_until 0 ?cb" "cb_baseline ?cb = 0" "cb_config ?cb = cb_config (with_clock touchy_config 0)"
    using run_stamps [OF touchy_trips(1)] stamps_init [of 0 touchy_config 0] by (simp_all add: with_clock_def)
  then have "cb_opened_at_millis ?cb = 0" by (simp add: stamps_until_def millis_at_def unat_eq_zero)
  moreover have "unat (elapsed_millis ?cb (10 ^ 9)) = 1000"
    using run(2) by (subst elapsed_exact) (simp_all add: millis_at_def)
  moreover have "bc_open_duration (cb_config ?cb) = 10 * 10 ^ 9" "bc_enabled (cb_config ?cb)"
    unfolding run(3) by (simp_all add: with_clock_def touchy_config_def server_config_def from_secs_def)
  ultimately have rej: "snd (check (10 ^ 9) (10 ^ 9) ?cb) = Err (BreakerOpen (9 * 10 ^ 9))"
    using touchy_trips(2) by (simp add: check_def check_open_def Let_def saturating_sub64_unat from_millis_def)
  with retry_after_is_honest [OF touchy_trips(1) _ touchy_trips(2) rej, of "10 ^ 10" 0] show ?thesis
    by (simp add: touchy_config_def server_config_def from_secs_def)
qed

section \<open>The registry, the lookup and the retry policy\<close>

text \<open>
  Repeated lookups of a key share one breaker, a new key gets a fresh one, and the breakers already
  handed out are untouched.
\<close>

lemma registry_get_shares:
  assumes "registry_get key now reg = (reg', Some cb)"
  shows "registry_get key now' reg' = (reg', Some cb)"
    and "cr_breakers reg k = Some c \<Longrightarrow> cr_breakers reg' k = Some c"
    and "i < length (cr_store reg) \<Longrightarrow> cr_store reg' ! i = cr_store reg ! i"
  using assms by (auto simp: registry_get_def Let_def nth_append split: if_splits option.splits)

lemma from_lookup_sane:
  "1 \<le> bc_half_open_max_probes (from_lookup_with_prefix pf pre get)"
  "bc_failure_codes (from_lookup_with_prefix pf pre get) \<noteq> {}"
  "10 ^ 6 dvd bc_open_duration (from_lookup_with_prefix pf pre get)"
  by (auto simp: from_lookup_with_prefix_def Let_def default_failure_codes_def DEFAULT_FAILURE_CODES_def from_secs_def
      split: option.split)

lemma server_policy_retries: "should_retry server_policy status \<longleftrightarrow> status = 429 \<or> 500 \<le> status \<and> status < 600"
proof -
  have "(\<not> (200 \<le> status \<and> status < 300))" if "500 \<le> status"
  proof -
    have "(300 :: u16) \<le> 500" by simp
    with that have "300 \<le> status" by (rule order_trans [rotated])
    then show ?thesis by (simp add: leD)
  qed
  then show ?thesis by (auto simp: should_retry_def classify_def server_policy_def)
qed

end
