(* ===== verification/Breaker_Concurrency.thy ===== *)
theory Breaker_Concurrency
  imports Breaker_Properties
begin

text \<open>
  The circuit breaker under concurrent callers. A call of \<open>check\<close> or \<open>record\<close> is cut into its atomic
  accesses - loads, stores, read-modify-writes and the critical section of the window - and a thread
  is the access it makes next with the values it has read. Threads interleave access by access in
  one total order. Observer callbacks touch no shared state and are left out.
\<close>

section \<open>Threads\<close>

datatype admission = ClosedState | Slot | Lease

datatype pc =
  CheckStart
| CheckOpened
| CheckElapsed u64
| CheckCas
| CheckMirror
| CheckReload
| CheckLateOpened
| CheckLateElapsed u64
| ProbeNow
| ProbeAdd u64
| ProbeStamp u64
| ProbeSub u64
| ProbeLoad u64
| ProbeCas u64 u64
| Admitted admission
| Rejected duration
| RecordStart Outcome
| RecordWindow Outcome BreakerState instant
| TripState | TripOpened | TripProbes | TripMirror
| CloseState | CloseWindow | CloseProbes | CloseMirror
| Recorded

definition check_start :: "CircuitBreaker \<Rightarrow> pc" where
  "check_start cb =
     (if \<not> bc_enabled (cb_config cb) then Admitted ClosedState
      else case breaker_state cb of BClosed \<Rightarrow> Admitted ClosedState | BOpen \<Rightarrow> CheckOpened | BHalfOpen \<Rightarrow> ProbeNow)"

definition check_elapsed :: "instant \<Rightarrow> u64 \<Rightarrow> CircuitBreaker \<Rightarrow> pc" where
  "check_elapsed t opened cb =
     (let elapsed = from_millis (unat (saturating_sub64 (elapsed_millis cb t) opened)) in
      if elapsed \<ge> bc_open_duration (cb_config cb) then CheckCas
      else Rejected (bc_open_duration (cb_config cb) - elapsed))"

definition check_late_elapsed :: "instant \<Rightarrow> u64 \<Rightarrow> CircuitBreaker \<Rightarrow> pc" where
  "check_late_elapsed t opened cb =
     Rejected (bc_open_duration (cb_config cb)
       - from_millis (unat (saturating_sub64 (elapsed_millis cb t) opened)))"

definition check_reload :: "CircuitBreaker \<Rightarrow> pc" where
  "check_reload cb =
     (case breaker_state cb of BClosed \<Rightarrow> Admitted ClosedState | BHalfOpen \<Rightarrow> ProbeNow | BOpen \<Rightarrow> CheckLateOpened)"

definition probe_refused :: "CircuitBreaker \<Rightarrow> pc" where
  "probe_refused cb = Rejected (min HALF_OPEN_PROBE_BACKOFF (bc_open_duration (cb_config cb)))"

definition probe_load :: "u64 \<Rightarrow> CircuitBreaker \<Rightarrow> pc" where
  "probe_load now cb =
     (let lease_millis = of_nat (as_millis (bc_open_duration (cb_config cb))); claimed = cb_probe_claimed_at_millis cb in
      if saturating_sub64 now claimed \<ge> lease_millis then ProbeCas now claimed else probe_refused cb)"

definition record_window :: "Outcome \<Rightarrow> BreakerState \<Rightarrow> instant \<Rightarrow> CircuitBreaker \<Rightarrow> pc \<times> CircuitBreaker" where
  "record_window outcome prev now cb =
     (case prev of
        BClosed \<Rightarrow>
          (let cb = sample (outcome = Failure) now cb in (if should_trip cb then TripState else Recorded, cb))
      | BHalfOpen \<Rightarrow> (if outcome = Failure then TripState else CloseState, cb)
      | BOpen \<Rightarrow> (Recorded, sample (outcome = Failure) now cb))"

fun thread_step :: "instant \<Rightarrow> pc \<Rightarrow> CircuitBreaker \<Rightarrow> pc \<times> CircuitBreaker" where
  "thread_step t CheckStart cb = (check_start cb, cb)"
| "thread_step t CheckOpened cb = (CheckElapsed (cb_opened_at_millis cb), cb)"
| "thread_step t (CheckElapsed opened) cb = (check_elapsed t opened cb, cb)"
| "thread_step t CheckCas cb = (let (cb, won) = cas_state BOpen BHalfOpen cb in (if won then CheckMirror else CheckReload, cb))"
| "thread_step t CheckMirror cb = (ProbeNow, cb\<lparr>cb_is_open_fast := False\<rparr>)"
| "thread_step t CheckReload cb = (check_reload cb, cb)"
| "thread_step t CheckLateOpened cb = (CheckLateElapsed (cb_opened_at_millis cb), cb)"
| "thread_step t (CheckLateElapsed opened) cb = (check_late_elapsed t opened cb, cb)"
| "thread_step t ProbeNow cb = (ProbeAdd (elapsed_millis cb t), cb)"
| "thread_step t (ProbeAdd now) cb =
     (if unat (cb_half_open_probes cb) < bc_half_open_max_probes (cb_config cb) then ProbeStamp now else ProbeSub now,
      cb\<lparr>cb_half_open_probes := cb_half_open_probes cb + 1\<rparr>)"
| "thread_step t (ProbeStamp now) cb = (Admitted Slot, cb\<lparr>cb_probe_claimed_at_millis := now\<rparr>)"
| "thread_step t (ProbeSub now) cb = (ProbeLoad now, cb\<lparr>cb_half_open_probes := cb_half_open_probes cb - 1\<rparr>)"
| "thread_step t (ProbeLoad now) cb = (probe_load now cb, cb)"
| "thread_step t (ProbeCas now claimed) cb =
     (if cb_probe_claimed_at_millis cb = claimed then (Admitted Lease, cb\<lparr>cb_probe_claimed_at_millis := now\<rparr>)
      else (probe_refused cb, cb))"
| "thread_step t (RecordStart outcome) cb =
     (if \<not> bc_enabled (cb_config cb) then Recorded else RecordWindow outcome (breaker_state cb) t, cb)"
| "thread_step t (RecordWindow outcome prev now) cb = record_window outcome prev now cb"
| "thread_step t TripState cb = (TripOpened, cb\<lparr>cb_state := state_u8 BOpen\<rparr>)"
| "thread_step t TripOpened cb = (TripProbes, cb\<lparr>cb_opened_at_millis := elapsed_millis cb t\<rparr>)"
| "thread_step t TripProbes cb = (TripMirror, cb\<lparr>cb_half_open_probes := 0\<rparr>)"
| "thread_step t TripMirror cb = (Recorded, cb\<lparr>cb_is_open_fast := True\<rparr>)"
| "thread_step t CloseState cb = (CloseWindow, cb\<lparr>cb_state := state_u8 BClosed\<rparr>)"
| "thread_step t CloseWindow cb = (CloseProbes, cb\<lparr>cb_window := window_clear (cb_window cb)\<rparr>)"
| "thread_step t CloseProbes cb = (CloseMirror, cb\<lparr>cb_half_open_probes := 0\<rparr>)"
| "thread_step t CloseMirror cb = (Recorded, cb\<lparr>cb_is_open_fast := False\<rparr>)"
| "thread_step t (Admitted a) cb = (Admitted a, cb)"
| "thread_step t (Rejected d) cb = (Rejected d, cb)"
| "thread_step t Recorded cb = (Recorded, cb)"

text \<open>One turn of a schedule lets one thread make its next access, reading the clock at \<open>t\<close> if it does.\<close>

type_synonym world = "pc list \<times> CircuitBreaker"

fun turn :: "nat \<times> instant \<Rightarrow> world \<Rightarrow> world" where
  "turn (i, t) (threads, cb) =
     (if i < length threads then
        let (pc, cb) = thread_step t (threads ! i) cb in (threads[i := pc], cb)
      else (threads, cb))"

definition run_schedule :: "(nat \<times> instant) list \<Rightarrow> world \<Rightarrow> world" where
  "run_schedule = fold turn"

section \<open>A thread that is alone\<close>

definition run_alone :: "nat \<Rightarrow> instant \<Rightarrow> pc \<Rightarrow> CircuitBreaker \<Rightarrow> pc \<times> CircuitBreaker" where
  "run_alone n t pc cb = ((\<lambda>(pc, cb). thread_step t pc cb) ^^ n) (pc, cb)"

definition unobserved :: "CircuitBreaker \<Rightarrow> CircuitBreaker" where
  "unobserved cb = cb\<lparr>cb_observed := []\<rparr>"

fun answer :: "pc \<Rightarrow> (BreakerOpen, unit) res option" where
  "answer (Admitted a) = Some (Ok ())"
| "answer (Rejected d) = Some (Err (BreakerOpen d))"
| "answer _ = None"

lemma run_alone_0 [simp]: "run_alone 0 t pc cb = (pc, cb)"
  by (simp add: run_alone_def)

lemma run_alone_Suc [simp]:
  "run_alone (Suc n) t pc cb = (case thread_step t pc cb of (pc', cb') \<Rightarrow> run_alone n t pc' cb')"
  by (simp add: run_alone_def funpow_Suc_right split: prod.split del: funpow.simps)

lemma run_alone_numeral [simp]:
  "run_alone (numeral k) t pc cb = (case thread_step t pc cb of (pc', cb') \<Rightarrow> run_alone (pred_numeral k) t pc' cb')"
  by (simp add: numeral_eq_Suc)

lemma breaker_state_open: "breaker_state cb = BOpen \<Longrightarrow> cb_state cb = state_u8 BOpen"
  by (auto simp: breaker_state_def from_u8_def state_u8.simps split: if_splits)

lemma unobserved_observe [simp]: "unobserved (observe e cb) = unobserved cb"
  by (simp add: unobserved_def observe_def)

lemma run_alone_final [simp]:
  "run_alone n t (Admitted a) cb = (Admitted a, cb)" "run_alone n t (Rejected d) cb = (Rejected d, cb)"
  "run_alone n t Recorded cb = (Recorded, cb)"
  by (induction n) simp_all

lemma check_alone:
  "answer (fst (run_alone 10 t CheckStart cb)) = Some (snd (check t t cb))
   \<and> unobserved (snd (run_alone 10 t CheckStart cb)) = unobserved (fst (check t t cb))"
proof (cases "breaker_state cb")
  case BOpen
  note [simp] = BOpen breaker_state_open [OF BOpen]
  show ?thesis
    by (simp add: check_start_def check_def check_elapsed_def check_open_def cas_state_def Let_def
        try_half_open_probe_def probe_load_def probe_refused_def unobserved_def observe_def elapsed_millis_def)
qed (simp_all add: check_start_def check_def Let_def try_half_open_probe_def probe_load_def
    probe_refused_def unobserved_def)

text \<open>
  A caller that is not interrupted gets from its atomic accesses exactly what the sequential
  definition of \<open>check\<close> says, and leaves the same breaker (observer notifications apart); likewise for
  recording an outcome. The concurrent model is the same code, cut finer.
\<close>

theorem alone_is_sequential:
  "answer (fst (run_alone 10 t CheckStart cb)) = Some (snd (check t t cb))
   \<and> unobserved (snd (run_alone 10 t CheckStart cb)) = unobserved (fst (check t t cb))
   \<and> run_alone 10 t (RecordStart oc) cb = (Recorded, snd (run_alone 10 t (RecordStart oc) cb))
   \<and> unobserved (snd (run_alone 10 t (RecordStart oc) cb)) = unobserved (record_outcome oc t t cb)"
proof (intro conjI)
  show "answer (fst (run_alone 10 t CheckStart cb)) = Some (snd (check t t cb))"
    and "unobserved (snd (run_alone 10 t CheckStart cb)) = unobserved (fst (check t t cb))"
    using check_alone by blast+
  show "run_alone 10 t (RecordStart oc) cb = (Recorded, snd (run_alone 10 t (RecordStart oc) cb))"
    by (cases "breaker_state cb") (simp_all add: record_window_def Let_def)
  show "unobserved (snd (run_alone 10 t (RecordStart oc) cb)) = unobserved (record_outcome oc t t cb)"
    by (cases "breaker_state cb")
      (simp_all add: record_window_def record_outcome_def Let_def trip_def close_breaker_def unobserved_def
        observe_def elapsed_millis_def)
qed

section \<open>Probe slots\<close>

definition turn_step :: "world \<Rightarrow> world \<Rightarrow> bool" where
  "turn_step w w' \<longleftrightarrow> (\<exists>i t. w' = turn (i, t) w)"

text \<open>Threads of \<open>check\<close>, those that hold a slot and those whose increment is in the counter.\<close>

fun in_check :: "pc \<Rightarrow> bool" where
  "in_check (RecordStart oc) = False"
| "in_check (RecordWindow oc s t) = False"
| "in_check TripState = False" | "in_check TripOpened = False" | "in_check TripProbes = False" | "in_check TripMirror = False"
| "in_check CloseState = False" | "in_check CloseWindow = False" | "in_check CloseProbes = False" | "in_check CloseMirror = False"
| "in_check Recorded = False"
| "in_check _ = True"

fun holds_slot :: "pc \<Rightarrow> bool" where
  "holds_slot (ProbeStamp now) = True"
| "holds_slot (Admitted a) = (a = Slot)"
| "holds_slot _ = False"

fun counted :: "pc \<Rightarrow> bool" where
  "counted (ProbeSub now) = True"
| "counted pc = holds_slot pc"

definition slots_inv :: "world \<Rightarrow> bool" where
  "slots_inv = (\<lambda>(threads, cb).
     list_all in_check threads \<and> length threads < 2 ^ 64
     \<and> unat (cb_half_open_probes cb) = length (filter counted threads)
     \<and> length (filter holds_slot threads) \<le> bc_half_open_max_probes (cb_config cb))"

definition probing :: "world \<Rightarrow> bool" where
  "probing w \<longleftrightarrow> (\<exists>n cb. n < 2 ^ 64 \<and> cb_half_open_probes cb = 0 \<and> w = (replicate n CheckStart, cb))"

lemma count_update:
  "i < length xs \<Longrightarrow> length (filter P (xs[i := y])) + of_bool (P (xs ! i)) = length (filter P xs) + of_bool (P y)"
proof (induction xs arbitrary: i)
  case (Cons x xs)
  then show ?case by (cases i) (use Cons.IH in \<open>fastforce+\<close>)
qed simp

lemma list_all_update: "list_all P xs \<Longrightarrow> P y \<Longrightarrow> list_all P (xs[i := y])"
  using set_update_subset_insert [of xs i y] by (auto simp: list_all_iff)

lemma count_less: "i < length xs \<Longrightarrow> \<not> P (xs ! i) \<Longrightarrow> length (filter P xs) < length xs"
  by (rule length_filter_less) auto

lemma holds_le_counted: "length (filter holds_slot xs) \<le> length (filter counted xs)"
proof -
  have "holds_slot pc \<Longrightarrow> counted pc" for pc by (cases pc) simp_all
  then have "filter holds_slot xs = filter holds_slot (filter counted xs)" by (auto intro: filter_cong)
  then show ?thesis by (metis length_filter_le)
qed

lemma neutral_step:
  assumes "thread_step t pc cb = (pc', cb')" and "in_check pc"
    and "\<not> (\<exists>now. pc = ProbeAdd now)" and "\<not> (\<exists>now. pc = ProbeSub now)"
  shows "counted pc' = counted pc" and "holds_slot pc' = holds_slot pc" and "in_check pc'"
    and "cb_half_open_probes cb' = cb_half_open_probes cb" and "cb_config cb' = cb_config cb"
  using assms
  by (cases pc; auto simp: check_start_def check_elapsed_def check_reload_def check_late_elapsed_def probe_load_def
      probe_refused_def cas_state_def Let_def split: if_splits BreakerState.splits)+

lemma slots_inv_step:
  assumes "slots_inv w" and "turn_step w w'"
  shows "slots_inv w'"
proof -
  obtain threads cb where w: "w = (threads, cb)" by fastforce
  from assms(2) obtain i t where turn: "w' = turn (i, t) (threads, cb)" by (auto simp: turn_step_def w)
  show ?thesis
  proof (cases "i < length threads")
    case True
    obtain pc' cb' where step: "thread_step t (threads ! i) cb = (pc', cb')" by fastforce
    then have w': "w' = (threads[i := pc'], cb')" using True turn by simp
    note c = count_update [OF True, of counted pc'] and h = count_update [OF True, of holds_slot pc']
    have inv: "list_all in_check threads" "length threads < 2 ^ 64"
      "unat (cb_half_open_probes cb) = length (filter counted threads)"
      "length (filter holds_slot threads) \<le> bc_half_open_max_probes (cb_config cb)"
      using assms(1) by (simp_all add: slots_inv_def w)
    then have chk: "in_check (threads ! i)" using True by (simp add: list_all_length)
    consider now where "threads ! i = ProbeAdd now" | now where "threads ! i = ProbeSub now"
      | "\<not> (\<exists>now. threads ! i = ProbeAdd now)" "\<not> (\<exists>now. threads ! i = ProbeSub now)" by blast
    then show ?thesis
    proof cases
      case 1
      have "unat (cb_half_open_probes cb) + 1 < 2 ^ 64"
        using inv count_less [OF True, of counted] 1 by simp
      then have "unat (cb_half_open_probes cb + 1) = unat (cb_half_open_probes cb) + 1"
        by (simp add: unat_word_ariths)
      with 1 step c h inv holds_le_counted [of threads] show ?thesis
        by (auto simp: w' slots_inv_def list_all_update split: if_splits)
    next
      case 2
      have "length (filter counted threads) \<noteq> 0"
        using 2 nth_mem [OF True] by (auto simp: filter_empty_conv intro!: bexI [of _ "threads ! i"])
      then obtain n where "unat (cb_half_open_probes cb) = Suc n" using inv(3) by (metis not0_implies_Suc)
      with failures_dec have "unat (cb_half_open_probes cb - 1) = n" by blast
      with \<open>unat (cb_half_open_probes cb) = Suc n\<close> 2 step c h inv show ?thesis
        by (auto simp: w' slots_inv_def list_all_update)
    next
      case 3
      from neutral_step [OF step chk this] c h inv show ?thesis
        by (auto simp: w' slots_inv_def list_all_update)
    qed
  qed (use assms(1) turn w in simp)
qed

lemma slots_inv_init: "probing w \<Longrightarrow> slots_inv w"
  by (auto simp: probing_def slots_inv_def list_all_iff)

interpretation probes: invariant_system probing turn_step slots_inv
  by unfold_locales (fact slots_inv_init, fact slots_inv_step)

text \<open>
  C20: However the accesses of any number of concurrent checks interleave, and whatever each of them
  reads from the clock, no more of them are admitted through probe slots than the breaker is
  configured to let through.
\<close>

theorem probe_slots_bounded:
  assumes "turn_step\<^sup>*\<^sup>* (replicate n CheckStart, cb) (threads, cb')"
    and "n < 2 ^ 64" and "cb_half_open_probes cb = 0"
  shows "length (filter (\<lambda>pc. pc = Admitted Slot) threads) \<le> bc_half_open_max_probes (cb_config cb')"
proof -
  have "slots_inv (replicate n CheckStart, cb)"
    using assms(2,3) by (intro probes.inv_init) (auto simp: probing_def)
  with probes.steps_inv [OF assms(1)] have "length (filter holds_slot threads) \<le> bc_half_open_max_probes (cb_config cb')"
    by (simp add: slots_inv_def)
  moreover have "filter (\<lambda>pc. pc = Admitted Slot) threads = filter (\<lambda>pc. pc = Admitted Slot) (filter holds_slot threads)"
    by (auto intro: filter_cong)
  ultimately show ?thesis by (metis (no_types, lifting) length_filter_le le_trans)
qed

lemma probe_slots_bounded_witness:
  "length (filter (\<lambda>pc. pc = Admitted Slot)
     (fst (turn (0, 0) (replicate 2 CheckStart, with_clock server_config 0)))) \<le> 1"
proof -
  let ?w = "turn (0, 0) (replicate 2 CheckStart, with_clock server_config 0)"
  have "turn_step\<^sup>*\<^sup>* (replicate 2 CheckStart, with_clock server_config 0) (fst ?w, snd ?w)"
    by (rule r_into_rtranclp) (auto simp: turn_step_def simp del: turn.simps)
  from probe_slots_bounded [OF this] show ?thesis by (simp add: with_clock_def server_config_def)
qed

section \<open>A race between a probe and a trip\<close>

definition race_config :: BreakerConfig where
  "race_config = touchy_config\<lparr>bc_half_open_max_probes := 2\<rparr>"

text \<open>
  Thread 0 trips the breaker; after the open duration threads 1 and 2 take both slots; thread 3 finds
  them taken and has incremented the counter when thread 4 reports a failed probe and trips the
  breaker, resetting the counter; only then thread 3 takes its increment back.
\<close>

definition race_threads :: "pc list" where
  "race_threads = [RecordStart Failure, CheckStart, CheckStart, CheckStart, RecordStart Failure, CheckStart, CheckStart]"

definition turns :: "nat \<Rightarrow> nat \<Rightarrow> instant \<Rightarrow> (nat \<times> instant) list" where
  "turns n i t = replicate n (i, t)"

definition race :: "(nat \<times> instant) list" where
  "race = turns 6 0 0 @ turns 8 1 (10 * 10 ^ 9) @ turns 4 2 (10 * 10 ^ 9) @ turns 3 3 (10 * 10 ^ 9)
     @ turns 6 4 (10 * 10 ^ 9) @ turns 1 3 (10 * 10 ^ 9)"

definition later_checks :: "(nat \<times> instant) list" where
  "later_checks = turns 10 5 (20 * 10 ^ 9) @ turns 5 6 (20 * 10 ^ 9)"

lemma run_schedule_append: "run_schedule (xs @ ys) w = run_schedule ys (run_schedule xs w)"
  by (simp add: run_schedule_def)

lemma run_turns:
  "i < length threads \<Longrightarrow> run_schedule (turns n i t) (threads, cb)
     = (threads[i := fst (run_alone n t (threads ! i) cb)], snd (run_alone n t (threads ! i) cb))"
  unfolding run_schedule_def turns_def
  by (induction n arbitrary: threads cb) (simp_all add: split_beta)

definition race_state :: "BreakerState \<Rightarrow> u64 \<Rightarrow> u64 \<Rightarrow> u64 \<Rightarrow> bool \<Rightarrow> CircuitBreaker" where
  "race_state s opened probes claimed fast =
     \<lparr>cb_config = race_config, cb_state = state_u8 s, cb_baseline = 0, cb_opened_at_millis = opened,
      cb_half_open_probes = probes, cb_probe_claimed_at_millis = claimed, cb_is_open_fast = fast,
      cb_window = \<lparr>sw_entries = [(0, True)], sw_failures = 1\<rparr>, cb_observed = []\<rparr>"

lemma race_breaker:
  "with_clock race_config 0 = \<lparr>cb_config = race_config, cb_state = state_u8 BClosed, cb_baseline = 0,
     cb_opened_at_millis = 0, cb_half_open_probes = 0, cb_probe_claimed_at_millis = 0, cb_is_open_fast = False,
     cb_window = new_window, cb_observed = []\<rparr>"
  "bc_min_samples race_config = 1" "bc_error_rate_threshold race_config = Num 0" "bc_window_duration race_config = 60 * 10 ^ 9"
  "bc_enabled race_config" "bc_open_duration race_config = 10 * 10 ^ 9" "bc_half_open_max_probes race_config = 2"
  by (simp_all add: with_clock_def race_config_def touchy_config_def server_config_def from_secs_def)

lemma race_first_sample:
  "record_window Failure BClosed 0 (with_clock race_config 0)
     = (TripState, (with_clock race_config 0)\<lparr>cb_window := \<lparr>sw_entries = [(0, True)], sw_failures = 1\<rparr>\<rparr>)"
  by (simp add: record_window_def race_breaker should_trip_def sample_def sample_count_def window_push_def
      new_window_def window_evict_def instant_checked_sub_def window_error_rate_def f64_div_def doublings.simps div_nearest_even_def MAX_WINDOW_ENTRIES_def)

lemma race_first_trip:
  "run_alone 6 0 (RecordStart Failure) (with_clock race_config 0) = (Recorded, race_state BOpen 0 0 0 True)"
proof -
  have "breaker_state (with_clock race_config 0) = BClosed" "bc_enabled (cb_config (with_clock race_config 0))"
    by (simp_all add: race_breaker breaker_state_def)
  then show ?thesis
    by (simp add: race_first_sample)
      (simp add: race_breaker elapsed_millis_def saturating_duration_since_def as_millis_def race_state_def)
qed

lemmas race_simps = race_state_def race_breaker check_start_def check_elapsed_def breaker_state_def elapsed_millis_def
  saturating_duration_since_def as_millis_def from_millis_def cas_state_def probe_load_def probe_refused_def
  record_window_def saturating_sub64_def HALF_OPEN_PROBE_BACKOFF_def

lemma unat_minus_one64: "unat (- 1 :: u64) = 2 ^ 64 - 1"
  by (simp add: unsigned_minus_1_eq_mask mask_eq_exp_minus_1)

lemma race_turns:
  "run_alone 8 10000000000 CheckStart (race_state BOpen 0 0 0 True) = (Admitted Slot, race_state BHalfOpen 0 1 10000 False)"
  "run_alone 4 10000000000 CheckStart (race_state BHalfOpen 0 1 10000 False) = (Admitted Slot, race_state BHalfOpen 0 2 10000 False)"
  "run_alone 3 10000000000 CheckStart (race_state BHalfOpen 0 2 10000 False) = (ProbeSub 10000, race_state BHalfOpen 0 3 10000 False)"
  "run_alone 6 10000000000 (RecordStart Failure) (race_state BHalfOpen 0 3 10000 False) = (Recorded, race_state BOpen 10000 0 10000 True)"
  "run_alone (Suc 0) 10000000000 (ProbeSub 10000) (race_state BOpen 10000 0 10000 True) = (ProbeLoad 10000, race_state BOpen 10000 (- 1) 10000 True)"
  "run_alone 10 20000000000 CheckStart (race_state BOpen 10000 (- 1) 10000 True) = (Admitted Lease, race_state BHalfOpen 10000 (- 1) 20000 False)"
  "run_alone 5 20000000000 CheckStart (race_state BHalfOpen 10000 (- 1) 20000 False)
     = (Rejected (from_millis 50), race_state BHalfOpen 10000 (- 1) 20000 False)"
  by (simp_all add: race_simps unat_minus_one64)


end
