(* ===== verification/Loop_Hub.thy ===== *)
theory Loop_Hub
  imports Rust_Text BTree_Map
begin

text \<open>
  The client of the Loop Hub, \<^verbatim>\<open>simplicio-runtime-client/src/loop_hub.rs\<close>: the handshake and its
  validation, the process-wide table of negotiated sessions, interactive submission and its job, and
  the validated forwarding of process operations to the Runtime. The hub is outside of the program: a
  transport is a record of functions on the state \<open>'w\<close> of the world, endpoint discovery and the
  transport factory are arguments, and so is the type \<open>'v\<close> of JSON values.
\<close>

section \<open>Constants and data\<close>

definition LOOP_HUB_CLIENT_SCHEMA :: string where "LOOP_HUB_CLIENT_SCHEMA = ''simplicio.loop-hub-client/v1''"
definition LOOP_HUB_PROTOCOL :: string where "LOOP_HUB_PROTOCOL = ''simplicio.loop-hub/v1''"
definition LOOP_HUB_RUNTIME_PROCESS_SCHEMA :: string where
  "LOOP_HUB_RUNTIME_PROCESS_SCHEMA = ''simplicio.loop-runtime-process/v1''"

datatype HubMode = HubAuto | HubHub | HubRequired | HubStandalone

datatype SharedService = RuntimeService | MapperService | SchedulerService | InferenceService

datatype ServiceOwner = LoopHub | CodeProcess

record ServiceOwnership =
  so_name :: SharedService
  so_owner :: ServiceOwner
  so_process_id :: "string option"

record ResourceHandle =
  rh_id :: string
  rh_capacity :: u32
  rh_used :: u32

definition resource_is_valid :: "ResourceHandle \<Rightarrow> bool" where
  "resource_is_valid r \<longleftrightarrow> \<not> is_blank (rh_id r) \<and> rh_used r \<le> rh_capacity r"

record SharedResources =
  sr_runtime :: ResourceHandle
  sr_mapper :: ResourceHandle
  sr_inference :: ResourceHandle
  sr_max_active_inference :: u32
  sr_interactive_reserved :: u32

record QueueCapabilities =
  qc_interactive_capacity :: u32
  qc_background_capacity :: u32
  qc_max_pending_interactive :: u32

record RuntimeProcessCapabilities =
  pcap_start :: bool
  pcap_status :: bool
  pcap_cancel :: bool
  pcap_wait :: bool

record AgentCapability =
  ac_agent_id :: string
  ac_protocol :: string
  ac_ready :: bool

record HubHandshake =
  hh_schema :: string
  hh_protocol :: string
  hh_hub_id :: string
  hh_ready :: bool
  hh_agent :: AgentCapability
  hh_services :: "ServiceOwnership list"
  hh_resources :: SharedResources
  hh_queue :: QueueCapabilities
  hh_runtime_process :: RuntimeProcessCapabilities
  hh_local_scheduler :: bool

datatype HubError =
  EndpointNotFound | RequiredHubUnavailable | Protocol string | Incompatible string | InvalidRequest string
| TransportUnavailable string

section \<open>Validation of the handshake\<close>

fun service_name :: "SharedService \<Rightarrow> string" where
  "service_name RuntimeService = ''runtime''"
| "service_name MapperService = ''mapper''"
| "service_name SchedulerService = ''scheduler''"
| "service_name InferenceService = ''inference''"

fun owner_debug :: "ServiceOwner \<Rightarrow> string" where
  "owner_debug LoopHub = ''LoopHub''"
| "owner_debug CodeProcess = ''CodeProcess''"

definition service_errors :: "ServiceOwnership \<Rightarrow> bool \<Rightarrow> string list" where
  "service_errors s seen =
     (if so_owner s \<noteq> LoopHub
      then [service_name (so_name s) @ '' must be owned by Loop Hub, got '' @ owner_debug (so_owner s)] else [])
     @ (if so_process_id s = None \<or> so_process_id s = Some []
        then [service_name (so_name s) @ '' has no process identity''] else [])
     @ (if seen then [''duplicate '' @ service_name (so_name s) @ '' service declaration''] else [])"

text \<open>The first loop, with the names that \<open>owners\<close> holds so far.\<close>

fun services_loop :: "ServiceOwnership list \<Rightarrow> SharedService set \<Rightarrow> string list \<times> SharedService set" where
  "services_loop [] owners = ([], owners)"
| "services_loop (s # ss) owners =
     (let (errors, owners') = services_loop ss (insert (so_name s) owners)
      in (service_errors s (so_name s \<in> owners) @ errors, owners'))"

definition missing_services :: "SharedService set \<Rightarrow> string list" where
  "missing_services owners =
     concat (map (\<lambda>s. if s \<notin> owners then [''missing '' @ service_name s @ '' service declaration''] else [])
       [RuntimeService, MapperService, SchedulerService, InferenceService])"

definition identity_errors :: "HubHandshake \<Rightarrow> string list" where
  "identity_errors h =
     (if hh_schema h \<noteq> LOOP_HUB_CLIENT_SCHEMA
      then [''unsupported Hub schema '' @ hh_schema h @ ''; expected '' @ LOOP_HUB_CLIENT_SCHEMA] else [])
     @ (if hh_protocol h \<noteq> LOOP_HUB_PROTOCOL
        then [''unsupported Hub protocol '' @ hh_protocol h @ ''; expected '' @ LOOP_HUB_PROTOCOL] else [])
     @ (if is_blank (hh_hub_id h) then [''Hub identity is empty''] else [])
     @ (if \<not> hh_ready h then [''Loop Hub is not ready''] else [])
     @ (if \<not> ac_ready (hh_agent h) \<or> is_blank (ac_agent_id (hh_agent h)) \<or> is_blank (ac_protocol (hh_agent h))
        then [''a ready, versioned Simplicio Agent is required''] else [])
     @ (if hh_local_scheduler h then [''Code cannot attach while a local scheduler is declared''] else [])"

definition resource_errors :: "HubHandshake \<Rightarrow> string list" where
  "resource_errors h =
     (let r = hh_resources h; q = hh_queue h in
      (if \<not> resource_is_valid (sr_runtime r) \<or> \<not> resource_is_valid (sr_mapper r) \<or> \<not> resource_is_valid (sr_inference r)
       then [''Hub returned an invalid shared resource handle''] else [])
      @ (if sr_interactive_reserved r = 0 then [''Hub returned no interactive capacity reservation''] else [])
      @ (if sr_max_active_inference r \<noteq> 1
         then [''Hub must expose exactly one active inference slot, got '' @ dec_string (unat (sr_max_active_inference r))] else [])
      @ (if qc_interactive_capacity q = 0 \<or> qc_background_capacity q = 0 \<or> qc_max_pending_interactive q = 0
         then [''Hub returned an unbounded or empty queue capacity''] else []))"

fun join :: "string \<Rightarrow> string list \<Rightarrow> string" where
  "join sep [] = []"
| "join sep [x] = x"
| "join sep (x # xs) = x @ sep @ join sep xs"

definition handshake_validate :: "HubHandshake \<Rightarrow> (HubError, unit) res" where
  "handshake_validate h =
     (let errors = identity_errors h;
          (service_errs, owners) = services_loop (hh_services h) {};
          errors = errors @ service_errs @ missing_services owners @ resource_errors h
      in if errors = [] then Ok () else Err (Incompatible (join ''; '' errors)))"

section \<open>Requests and receipts\<close>

record HubHandshakeRequest =
  hr_schema :: string
  hr_protocol :: string
  hr_client_id :: string
  hr_workspace_id :: string
  hr_session_id :: string

record HubClientConfig =
  hc_mode :: HubMode
  hc_client_id :: string
  hc_workspace_id :: string
  hc_session_id :: string
  hc_endpoint :: "string option"

definition new_hub_config :: "HubMode \<Rightarrow> string \<Rightarrow> string \<Rightarrow> string \<Rightarrow> HubClientConfig" where
  "new_hub_config mode client_id workspace_id session_id =
     \<lparr>hc_mode = mode, hc_client_id = client_id, hc_workspace_id = workspace_id, hc_session_id = session_id, hc_endpoint = None\<rparr>"

definition normalize_endpoint :: "string option \<Rightarrow> string option" where
  "normalize_endpoint endpoint =
     (case map_option trim_str endpoint of Some [] \<Rightarrow> None | e \<Rightarrow> e)"

definition configured_endpoint :: "HubClientConfig \<Rightarrow> string option" where
  "configured_endpoint config = normalize_endpoint (hc_endpoint config)"

fun first_blank :: "(string \<times> string) list \<Rightarrow> (HubError, unit) res" where
  "first_blank [] = Ok ()"
| "first_blank ((name, value) # rest) =
     (if is_blank value then Err (InvalidRequest (name @ '' must not be empty'')) else first_blank rest)"

definition config_validate :: "HubClientConfig \<Rightarrow> (HubError, unit) res" where
  "config_validate c =
     first_blank [(''client_id'', hc_client_id c), (''workspace_id'', hc_workspace_id c), (''session_id'', hc_session_id c)]"

datatype PriorityClass = Interactive | Background

record 'v InteractiveGoal =
  ig_goal_id :: string
  ig_turn_id :: string
  ig_payload :: 'v
  ig_deadline_unix_ms :: "u64 option"
  ig_budget_tokens :: "u64 option"

definition new_goal :: "string \<Rightarrow> string \<Rightarrow> 'v \<Rightarrow> 'v InteractiveGoal" where
  "new_goal goal_id turn_id payload =
     \<lparr>ig_goal_id = goal_id, ig_turn_id = turn_id, ig_payload = payload, ig_deadline_unix_ms = None, ig_budget_tokens = None\<rparr>"

definition goal_validate :: "'v InteractiveGoal \<Rightarrow> (HubError, unit) res" where
  "goal_validate g =
     (if is_blank (ig_goal_id g) \<or> is_blank (ig_turn_id g)
      then Err (InvalidRequest ''goal_id and turn_id must not be empty'') else Ok ())"

record 'v SubmitRequest =
  sq_schema :: string
  sq_session_id :: string
  sq_goal_id :: string
  sq_turn_id :: string
  sq_idempotency_key :: string
  sq_priority :: PriorityClass
  sq_deadline_unix_ms :: "u64 option"
  sq_budget_tokens :: "u64 option"
  sq_payload :: 'v

datatype AdmissionState = AdmAccepted | AdmQueued | AdmThrottled

record AdmissionReceipt =
  ar_schema :: string
  ar_workflow_id :: string
  ar_state :: AdmissionState
  ar_queue_position :: "u32 option"
  ar_retry_after_ms :: "u64 option"
  ar_receipt_id :: string

record ProgressRequest =
  pr_workflow_id :: string
  pr_after_sequence :: u64

datatype ProgressEvent =
  Queued u64 u32 | Started u64 string | Output u64 string | Throttled u64 u64 | Cancelled u64 string
| Resumed u64 string | Completed u64 string | FailedEvent u64 string string

record ProgressSnapshot =
  ps_workflow_id :: string
  ps_next_sequence :: u64
  ps_events :: "ProgressEvent list"
  ps_terminal :: bool

record CancelRequest =
  cr_workflow_id :: string
  cr_reason :: string
  cr_idempotency_key :: string

record ResumeRequest =
  rr_workflow_id :: string
  rr_idempotency_key :: string
  rr_checkpoint :: "string option"

record LifecycleReceipt =
  lr_schema :: string
  lr_workflow_id :: string
  lr_receipt_id :: string
  lr_state :: string

record RuntimeExecuteRequest =
  re_schema :: string
  re_workspace :: string
  re_cwd :: string
  re_argv :: "string list"
  re_env :: "(string, string) btree"
  re_timeout_ms :: u64
  re_max_output_bytes :: nat
  re_idempotency_key :: string

record 'v RuntimeExecuteReceipt =
  rer_schema :: string
  rer_workspace :: string
  rer_result :: 'v

datatype RuntimeProcessState =
  NotStarted | Running | Exited | ProcessCancelled | TimedOut | EffectUnknown

record RuntimeProcessStartRequest =
  st_schema :: string
  st_workspace :: string
  st_cwd :: string
  st_argv :: "string list"
  st_env :: "(string, string) btree"
  st_timeout_ms :: u64
  st_max_output_bytes :: nat
  st_idempotency_key :: string

record RuntimeProcessHandleRequest =
  ha_schema :: string
  ha_workspace :: string
  ha_handle :: string

record RuntimeProcessCancelRequest =
  ca_schema :: string
  ca_workspace :: string
  ca_handle :: string
  ca_reason :: string
  ca_idempotency_key :: string

record RuntimeProcessWaitRequest =
  wa_schema :: string
  wa_workspace :: string
  wa_handle :: string
  wa_deadline_ms :: u64

record RuntimeProcessReceipt =
  rp_schema :: string
  rp_workspace :: string
  rp_handle :: string
  rp_state :: RuntimeProcessState
  rp_receipt_id :: string
  rp_idempotency_key :: "string option"
  rp_exit_code :: "32 word option"
  rp_signal :: "string option"
  rp_stdout :: string
  rp_stderr :: string
  rp_truncated :: bool
  rp_total_bytes :: "nat option"

section \<open>Validation of process requests\<close>

definition has_nul :: "string \<Rightarrow> bool" where
  "has_nul s \<longleftrightarrow> CHR 0x00 \<in> set s"

definition validate_process_request :: "string \<Rightarrow> string \<Rightarrow> string option \<Rightarrow> (HubError, unit) res" where
  "validate_process_request schema workspace handle =
     (if schema \<noteq> LOOP_HUB_RUNTIME_PROCESS_SCHEMA then Err (InvalidRequest ''unsupported Runtime process schema'')
      else if is_blank workspace then Err (InvalidRequest ''Runtime process workspace must not be empty'')
      else if has_nul workspace then Err (InvalidRequest ''Runtime process workspace must be NUL-free'')
      else if (case handle of Some value \<Rightarrow> is_blank value | None \<Rightarrow> False)
      then Err (InvalidRequest ''Runtime process handle must not be empty'')
      else Ok ())"

definition validate_process_idempotency_key :: "string \<Rightarrow> string \<Rightarrow> (HubError, unit) res" where
  "validate_process_idempotency_key value operation =
     (if is_blank value \<or> length value > 256 \<or> has_nul value
      then Err (InvalidRequest (''Runtime process '' @ operation @ '' requires a valid idempotency_key''))
      else Ok ())"

text \<open>The shell metacharacters are ASCII, hence single bytes of UTF-8 text.\<close>

definition shell_metacharacter :: "char \<Rightarrow> bool" where
  "shell_metacharacter c \<longleftrightarrow>
     c \<in> {CHR ''|'', CHR '';'', CHR ''&'', CHR 0x60, CHR ''$'', CHR ''>'', CHR ''<'', CHR 0x0A, CHR 0x0D}"

definition is_ascii_alphabetic :: "char \<Rightarrow> bool" where
  "is_ascii_alphabetic c \<longleftrightarrow> (65 \<le> ord c \<and> ord c \<le> 90) \<or> (97 \<le> ord c \<and> ord c \<le> 122)"

definition env_key_bad :: "string \<Rightarrow> bool" where
  "env_key_bad key \<longleftrightarrow>
     key = [] \<or> has_nul key
     \<or> \<not> list_all (\<lambda>(index, c). (index = 0 \<and> (c = CHR ''_'' \<or> is_ascii_alphabetic c))
            \<or> (index > 0 \<and> (c = CHR ''_'' \<or> is_ascii_alphanumeric c))) (enumerate 0 key)"

definition validate_process_start_request :: "RuntimeProcessStartRequest \<Rightarrow> (HubError, unit) res" where
  "validate_process_start_request request =
     (if st_argv request = [] \<or> list_ex is_blank (st_argv request)
      then Err (InvalidRequest ''Runtime process argv must not be empty'')
      else if list_ex (\<lambda>arg. has_nul arg \<or> list_ex shell_metacharacter arg) (st_argv request)
      then Err (InvalidRequest ''Runtime process argv must be NUL-free and must not contain shell metacharacters'')
      else if is_blank (st_cwd request) \<or> has_nul (st_cwd request)
      then Err (InvalidRequest ''Runtime process cwd must be non-empty and NUL-free'')
      else try_res (validate_process_idempotency_key (st_idempotency_key request) ''start'') (\<lambda>_.
        if st_timeout_ms request = 0 then Err (InvalidRequest ''Runtime process start requires a valid timeout_ms'')
        else if list_ex env_key_bad (map fst (st_env request)) \<or> list_ex has_nul (bt_values (st_env request))
        then Err (InvalidRequest ''Runtime process environment keys/values must be NUL-free and keys must be identifiers'')
        else Ok ()))"

definition validate_process_receipt ::
  "RuntimeProcessReceipt \<Rightarrow> string \<Rightarrow> string option \<Rightarrow> string option \<Rightarrow> (HubError, unit) res" where
  "validate_process_receipt receipt workspace handle idempotency_key =
     try_res (validate_process_request (rp_schema receipt) workspace (Some (rp_handle receipt))) (\<lambda>_.
       if rp_workspace receipt \<noteq> workspace
          \<or> (case handle of Some expected \<Rightarrow> expected \<noteq> rp_handle receipt | None \<Rightarrow> False)
       then Err (Protocol ''Runtime returned a process receipt for a different resource'')
       else if is_blank (rp_receipt_id receipt) then Err (Protocol ''Runtime process receipt has no receipt_id'')
       else if (case idempotency_key of Some expected \<Rightarrow> rp_idempotency_key receipt \<noteq> Some expected | None \<Rightarrow> False)
       then Err (Protocol ''Runtime process receipt has a mismatched idempotency_key'')
       else Ok ())"

section \<open>Transport and sessions\<close>

record ('w, 'v) HubTransport =
  tr_handshake :: "HubHandshakeRequest \<Rightarrow> 'w \<Rightarrow> 'w \<times> (HubError, HubHandshake) res"
  tr_submit :: "'v SubmitRequest \<Rightarrow> 'w \<Rightarrow> 'w \<times> (HubError, AdmissionReceipt) res"
  tr_progress :: "ProgressRequest \<Rightarrow> 'w \<Rightarrow> 'w \<times> (HubError, ProgressSnapshot) res"
  tr_cancel :: "CancelRequest \<Rightarrow> 'w \<Rightarrow> 'w \<times> (HubError, LifecycleReceipt) res"
  tr_resume :: "ResumeRequest \<Rightarrow> 'w \<Rightarrow> 'w \<times> (HubError, LifecycleReceipt) res"
  tr_runtime_execute :: "RuntimeExecuteRequest \<Rightarrow> 'w \<Rightarrow> 'w \<times> (HubError, 'v RuntimeExecuteReceipt) res"
  tr_process_start :: "RuntimeProcessStartRequest \<Rightarrow> 'w \<Rightarrow> 'w \<times> (HubError, RuntimeProcessReceipt) res"
  tr_process_status :: "RuntimeProcessHandleRequest \<Rightarrow> 'w \<Rightarrow> 'w \<times> (HubError, RuntimeProcessReceipt) res"
  tr_process_cancel :: "RuntimeProcessCancelRequest \<Rightarrow> 'w \<Rightarrow> 'w \<times> (HubError, RuntimeProcessReceipt) res"
  tr_process_wait :: "RuntimeProcessWaitRequest \<Rightarrow> 'w \<Rightarrow> 'w \<times> (HubError, RuntimeProcessReceipt) res"

text \<open>A session is an allocation: \<open>hs_address\<close> is what \<open>Arc::ptr_eq\<close> compares.\<close>

record ('w, 'v) HubSession =
  hs_address :: nat
  hs_endpoint :: string
  hs_transport :: "('w, 'v) HubTransport"
  hs_handshake :: HubHandshake

text \<open>
  \<open>HUB_SESSIONS\<close>: a weak reference per key behind a mutex. A weak reference upgrades while a strong
  one is alive; a panic inside the critical section poisons the mutex.
\<close>

record ('w, 'v) HubSessions =
  hub_weak :: "string \<rightharpoonup> ('w, 'v) HubSession"
  hub_alive :: "nat set"
  hub_next :: nat
  hub_poisoned :: bool

definition new_hub_sessions :: "('w, 'v) HubSessions" where
  "new_hub_sessions = \<lparr>hub_weak = Map.empty, hub_alive = {}, hub_next = 0, hub_poisoned = False\<rparr>"

definition upgrade :: "('w, 'v) HubSessions \<Rightarrow> string \<Rightarrow> ('w, 'v) HubSession option" where
  "upgrade g key =
     (case hub_weak g key of
        Some s \<Rightarrow> if hs_address s \<in> hub_alive g then Some s else None
      | None \<Rightarrow> None)"

text \<open>The last strong reference to a session is dropped.\<close>

definition drop_session :: "nat \<Rightarrow> ('w, 'v) HubSessions \<Rightarrow> ('w, 'v) HubSessions" where
  "drop_session a g = g\<lparr>hub_alive := hub_alive g - {a}\<rparr>"

record ('w, 'v) LoopHubClient =
  lc_session :: "('w, 'v) HubSession"
  lc_config :: HubClientConfig

definition session_key :: "string \<Rightarrow> HubClientConfig \<Rightarrow> string" where
  "session_key endpoint config =
     endpoint @ [CHR 0x00] @ hc_workspace_id config @ [CHR 0x00] @ hc_session_id config"

definition handshake_request :: "HubClientConfig \<Rightarrow> HubHandshakeRequest" where
  "handshake_request config =
     \<lparr>hr_schema = LOOP_HUB_CLIENT_SCHEMA, hr_protocol = LOOP_HUB_PROTOCOL, hr_client_id = hc_client_id config,
      hr_workspace_id = hc_workspace_id config, hr_session_id = hc_session_id config\<rparr>"

text \<open>The critical section of \<open>connect_with_discovery\<close>: reuse the live session of the key or negotiate one.\<close>

definition negotiate ::
  "(string \<Rightarrow> 'w \<Rightarrow> 'w \<times> (HubError, ('w, 'v) HubTransport) res) \<Rightarrow> string \<Rightarrow> HubClientConfig
     \<Rightarrow> ('w, 'v) HubSessions \<Rightarrow> 'w \<Rightarrow> ('w, 'v) HubSessions \<times> 'w \<times> (HubError, ('w, 'v) HubSession) res" where
  "negotiate factory endpoint config g w =
     (case factory endpoint w of
        (w, Err e) \<Rightarrow> (g, w, Err e)
      | (w, Panic) \<Rightarrow> (g\<lparr>hub_poisoned := True\<rparr>, w, Panic)
      | (w, Ok transport) \<Rightarrow>
          (case tr_handshake transport (handshake_request config) w of
             (w, Err e) \<Rightarrow> (g, w, Err e)
           | (w, Panic) \<Rightarrow> (g\<lparr>hub_poisoned := True\<rparr>, w, Panic)
           | (w, Ok handshake) \<Rightarrow>
               (case handshake_validate handshake of
                  Err e \<Rightarrow> (g, w, Err e)
                | Panic \<Rightarrow> (g\<lparr>hub_poisoned := True\<rparr>, w, Panic)
                | Ok _ \<Rightarrow>
                    let session = \<lparr>hs_address = hub_next g, hs_endpoint = endpoint, hs_transport = transport,
                          hs_handshake = handshake\<rparr>
                    in (g\<lparr>hub_weak := (hub_weak g)(session_key endpoint config \<mapsto> session),
                          hub_alive := insert (hub_next g) (hub_alive g), hub_next := Suc (hub_next g)\<rparr>, w, Ok session))))"

definition connect_endpoint ::
  "(string \<Rightarrow> 'w \<Rightarrow> 'w \<times> (HubError, ('w, 'v) HubTransport) res) \<Rightarrow> string \<Rightarrow> HubClientConfig
     \<Rightarrow> ('w, 'v) HubSessions \<Rightarrow> 'w \<Rightarrow> ('w, 'v) HubSessions \<times> 'w \<times> (HubError, ('w, 'v) HubSession) res" where
  "connect_endpoint factory endpoint config g w =
     (if hub_poisoned g then (g, w, Err (Protocol ''Hub session registry lock poisoned''))
      else case upgrade g (session_key endpoint config) of
        Some session \<Rightarrow> (g, w, Ok session)
      | None \<Rightarrow> negotiate factory endpoint config g w)"

definition no_endpoint :: "HubClientConfig \<Rightarrow> HubError" where
  "no_endpoint config = (if hc_mode config = HubRequired then RequiredHubUnavailable else EndpointNotFound)"

definition find_endpoint ::
  "(HubClientConfig \<Rightarrow> 'w \<Rightarrow> 'w \<times> (HubError, string option) res) \<Rightarrow> HubClientConfig \<Rightarrow> 'w
     \<Rightarrow> 'w \<times> (HubError, string) res" where
  "find_endpoint discover config w =
     (case configured_endpoint config of
        Some endpoint \<Rightarrow> (w, Ok endpoint)
      | None \<Rightarrow>
          (case discover config w of
             (w, r) \<Rightarrow> (w, try_res r (\<lambda>found. ok_or (no_endpoint config) (normalize_endpoint found)))))"

definition connect_with_discovery ::
  "(HubClientConfig \<Rightarrow> 'w \<Rightarrow> 'w \<times> (HubError, string option) res)
     \<Rightarrow> (string \<Rightarrow> 'w \<Rightarrow> 'w \<times> (HubError, ('w, 'v) HubTransport) res) \<Rightarrow> HubClientConfig
     \<Rightarrow> ('w, 'v) HubSessions \<Rightarrow> 'w \<Rightarrow> ('w, 'v) HubSessions \<times> 'w \<times> (HubError, ('w, 'v) LoopHubClient option) res" where
  "connect_with_discovery discover factory config g w =
     (case config_validate config of
        Err e \<Rightarrow> (g, w, Err e)
      | Panic \<Rightarrow> (g, w, Panic)
      | Ok _ \<Rightarrow>
          if hc_mode config = HubStandalone then (g, w, Ok None)
          else
            (case find_endpoint discover config w of
               (w, Err e) \<Rightarrow> (g, w, Err e)
             | (w, Panic) \<Rightarrow> (g, w, Panic)
             | (w, Ok endpoint) \<Rightarrow>
                 (case connect_endpoint factory endpoint config g w of
                    (g, w, r) \<Rightarrow>
                      (g, w, try_res r (\<lambda>session. Ok (Some \<lparr>lc_session = session, lc_config = config\<rparr>))))))"

text \<open>The default discovery reads one environment variable; \<open>env\<close> is the environment.\<close>

definition HUB_ENDPOINT_ENV :: string where "HUB_ENDPOINT_ENV = ''SIMPLICIO_LOOP_HUB_ENDPOINT''"

definition environment_discover ::
  "(string \<Rightarrow> string option) \<Rightarrow> HubClientConfig \<Rightarrow> 'w \<Rightarrow> 'w \<times> (HubError, string option) res" where
  "environment_discover env config w = (w, Ok (normalize_endpoint (env HUB_ENDPOINT_ENV)))"

definition connect ::
  "(string \<Rightarrow> string option) \<Rightarrow> (string \<Rightarrow> 'w \<Rightarrow> 'w \<times> (HubError, ('w, 'v) HubTransport) res) \<Rightarrow> HubClientConfig
     \<Rightarrow> ('w, 'v) HubSessions \<Rightarrow> 'w \<Rightarrow> ('w, 'v) HubSessions \<times> 'w \<times> (HubError, ('w, 'v) LoopHubClient option) res" where
  "connect env factory config g w = connect_with_discovery (environment_discover env) factory config g w"

text \<open>The default methods of the transport trait: a hub without the capability.\<close>

definition unavailable :: "string \<Rightarrow> 'q \<Rightarrow> 'w \<Rightarrow> 'w \<times> (HubError, 'r) res" where
  "unavailable what request w = (w, Err (TransportUnavailable (''Loop Hub Runtime '' @ what @ '' is unavailable'')))"

definition with_default_effects :: "('w, 'v) HubTransport \<Rightarrow> ('w, 'v) HubTransport" where
  "with_default_effects t = t\<lparr>
     tr_runtime_execute := unavailable ''effect bridge'',
     tr_process_start := unavailable ''process start capability'',
     tr_process_status := unavailable ''process status capability'',
     tr_process_cancel := unavailable ''process cancel capability'',
     tr_process_wait := unavailable ''process wait capability''\<rparr>"

section \<open>Handles of shared services\<close>

record ('w, 'v) SharedHubServiceHandle =
  sh_session :: "('w, 'v) HubSession"
  sh_service :: SharedService
  sh_resource :: ResourceHandle

definition shared_runtime_handle :: "('w, 'v) LoopHubClient \<Rightarrow> ('w, 'v) SharedHubServiceHandle" where
  "shared_runtime_handle c = \<lparr>sh_session = lc_session c, sh_service = RuntimeService,
     sh_resource = sr_runtime (hh_resources (hs_handshake (lc_session c)))\<rparr>"

definition shared_map_handle :: "('w, 'v) LoopHubClient \<Rightarrow> ('w, 'v) SharedHubServiceHandle" where
  "shared_map_handle c = \<lparr>sh_session = lc_session c, sh_service = MapperService,
     sh_resource = sr_mapper (hh_resources (hs_handshake (lc_session c)))\<rparr>"

definition shares_session_with :: "('w, 'v) SharedHubServiceHandle \<Rightarrow> ('w, 'v) SharedHubServiceHandle \<Rightarrow> bool" where
  "shares_session_with a b \<longleftrightarrow> hs_address (sh_session a) = hs_address (sh_session b)"

definition runtime_execute ::
  "('w, 'v) SharedHubServiceHandle \<Rightarrow> RuntimeExecuteRequest \<Rightarrow> 'w \<Rightarrow> 'w \<times> (HubError, 'v RuntimeExecuteReceipt) res" where
  "runtime_execute h request w =
     (if sh_service h \<noteq> RuntimeService
      then (w, Err (InvalidRequest ''only the shared Runtime handle may execute effects''))
      else tr_runtime_execute (hs_transport (sh_session h)) request w)"

text \<open>The common tail of the process operations: forward, then validate the receipt.\<close>

definition checked_receipt ::
  "'w \<times> (HubError, RuntimeProcessReceipt) res \<Rightarrow> string \<Rightarrow> string option \<Rightarrow> string option
     \<Rightarrow> 'w \<times> (HubError, RuntimeProcessReceipt) res" where
  "checked_receipt reply workspace handle key =
     (case reply of (w, r) \<Rightarrow> st_try w r (\<lambda>receipt.
        st_try w (validate_process_receipt receipt workspace handle key) (\<lambda>_. (w, Ok receipt))))"

definition capability_missing :: "string \<Rightarrow> HubError" where
  "capability_missing op = TransportUnavailable (''Runtime process.'' @ op @ ''/v1 capability is unavailable'')"

definition process_start ::
  "('w, 'v) SharedHubServiceHandle \<Rightarrow> RuntimeProcessStartRequest \<Rightarrow> 'w \<Rightarrow> 'w \<times> (HubError, RuntimeProcessReceipt) res" where
  "process_start h request w =
     (if sh_service h \<noteq> RuntimeService
      then (w, Err (InvalidRequest ''only the shared Runtime handle may start processes''))
      else st_try w (validate_process_request (st_schema request) (st_workspace request) None) (\<lambda>_.
        st_try w (validate_process_start_request request) (\<lambda>_.
          if \<not> pcap_start (hh_runtime_process (hs_handshake (sh_session h))) then (w, Err (capability_missing ''start''))
          else checked_receipt (tr_process_start (hs_transport (sh_session h)) request w)
            (st_workspace request) None (Some (st_idempotency_key request)))))"

definition process_status ::
  "('w, 'v) SharedHubServiceHandle \<Rightarrow> RuntimeProcessHandleRequest \<Rightarrow> 'w \<Rightarrow> 'w \<times> (HubError, RuntimeProcessReceipt) res" where
  "process_status h request w =
     (if sh_service h \<noteq> RuntimeService
      then (w, Err (InvalidRequest ''only the shared Runtime handle may query processes''))
      else st_try w (validate_process_request (ha_schema request) (ha_workspace request) (Some (ha_handle request))) (\<lambda>_.
        if \<not> pcap_status (hh_runtime_process (hs_handshake (sh_session h))) then (w, Err (capability_missing ''status''))
        else checked_receipt (tr_process_status (hs_transport (sh_session h)) request w)
          (ha_workspace request) (Some (ha_handle request)) None))"

definition process_cancel ::
  "('w, 'v) SharedHubServiceHandle \<Rightarrow> RuntimeProcessCancelRequest \<Rightarrow> 'w \<Rightarrow> 'w \<times> (HubError, RuntimeProcessReceipt) res" where
  "process_cancel h request w =
     (if sh_service h \<noteq> RuntimeService
      then (w, Err (InvalidRequest ''only the shared Runtime handle may cancel processes''))
      else st_try w (validate_process_request (ca_schema request) (ca_workspace request) (Some (ca_handle request))) (\<lambda>_.
        if is_blank (ca_reason request) \<or> has_nul (ca_reason request)
        then (w, Err (InvalidRequest ''Runtime process cancel requires a non-empty, NUL-free reason''))
        else st_try w (validate_process_idempotency_key (ca_idempotency_key request) ''cancel'') (\<lambda>_.
          if \<not> pcap_cancel (hh_runtime_process (hs_handshake (sh_session h))) then (w, Err (capability_missing ''cancel''))
          else checked_receipt (tr_process_cancel (hs_transport (sh_session h)) request w)
            (ca_workspace request) (Some (ca_handle request)) None)))"

definition process_wait ::
  "('w, 'v) SharedHubServiceHandle \<Rightarrow> RuntimeProcessWaitRequest \<Rightarrow> 'w \<Rightarrow> 'w \<times> (HubError, RuntimeProcessReceipt) res" where
  "process_wait h request w =
     (if sh_service h \<noteq> RuntimeService
      then (w, Err (InvalidRequest ''only the shared Runtime handle may wait for processes''))
      else st_try w (validate_process_request (wa_schema request) (wa_workspace request) (Some (wa_handle request))) (\<lambda>_.
        if wa_deadline_ms request = 0 then (w, Err (InvalidRequest ''Runtime process wait requires a deadline''))
        else if \<not> pcap_wait (hh_runtime_process (hs_handshake (sh_session h))) then (w, Err (capability_missing ''wait''))
        else checked_receipt (tr_process_wait (hs_transport (sh_session h)) request w)
          (wa_workspace request) (Some (wa_handle request)) None))"

section \<open>Interactive jobs\<close>

fun idempotency_key :: "string list \<Rightarrow> string" where
  "idempotency_key [] = []"
| "idempotency_key [p] = dec_string (length p) @ CHR '':'' # p"
| "idempotency_key (p # ps) = dec_string (length p) @ CHR '':'' # p @ CHR ''|'' # idempotency_key ps"

fun event_sequence :: "ProgressEvent \<Rightarrow> u64" where
  "event_sequence (Queued sequence _) = sequence"
| "event_sequence (Started sequence _) = sequence"
| "event_sequence (Output sequence _) = sequence"
| "event_sequence (Throttled sequence _) = sequence"
| "event_sequence (Cancelled sequence _) = sequence"
| "event_sequence (Resumed sequence _) = sequence"
| "event_sequence (Completed sequence _) = sequence"
| "event_sequence (FailedEvent sequence _ _) = sequence"

record ('w, 'v) InteractiveHubTransport =
  it_session :: "('w, 'v) HubSession"
  it_session_id :: string

definition interactive_transport :: "('w, 'v) LoopHubClient \<Rightarrow> ('w, 'v) InteractiveHubTransport" where
  "interactive_transport c = \<lparr>it_session = lc_session c, it_session_id = hc_session_id (lc_config c)\<rparr>"

record ('w, 'v) HubJob =
  hj_session :: "('w, 'v) HubSession"
  hj_workflow_id :: string
  hj_next_sequence :: u64
  hj_admission :: AdmissionReceipt

definition admission_invalid :: "AdmissionReceipt \<Rightarrow> bool" where
  "admission_invalid r \<longleftrightarrow>
     ar_schema r \<noteq> LOOP_HUB_CLIENT_SCHEMA \<or> is_blank (ar_workflow_id r) \<or> is_blank (ar_receipt_id r)
     \<or> ar_state r = AdmQueued \<and> ar_queue_position r = None
     \<or> ar_state r = AdmThrottled \<and> ar_retry_after_ms r = None"

definition submit_request :: "string \<Rightarrow> 'v InteractiveGoal \<Rightarrow> 'v SubmitRequest" where
  "submit_request session_id goal =
     \<lparr>sq_schema = LOOP_HUB_CLIENT_SCHEMA, sq_session_id = session_id, sq_goal_id = ig_goal_id goal,
      sq_turn_id = ig_turn_id goal, sq_idempotency_key = idempotency_key [session_id, ig_turn_id goal, ig_goal_id goal],
      sq_priority = Interactive, sq_deadline_unix_ms = ig_deadline_unix_ms goal,
      sq_budget_tokens = ig_budget_tokens goal, sq_payload = ig_payload goal\<rparr>"

definition submit ::
  "('w, 'v) InteractiveHubTransport \<Rightarrow> 'v InteractiveGoal \<Rightarrow> 'w \<Rightarrow> 'w \<times> (HubError, ('w, 'v) HubJob) res" where
  "submit t goal w =
     st_try w (goal_validate goal) (\<lambda>_.
       case tr_submit (hs_transport (it_session t)) (submit_request (it_session_id t) goal) w of
         (w, r) \<Rightarrow> st_try w r (\<lambda>receipt.
           if admission_invalid receipt then (w, Err (Protocol ''Hub returned an invalid admission receipt''))
           else (w, Ok \<lparr>hj_session = it_session t, hj_workflow_id = ar_workflow_id receipt, hj_next_sequence = 0,
                        hj_admission = receipt\<rparr>)))"

definition submit_interactive ::
  "('w, 'v) LoopHubClient \<Rightarrow> 'v InteractiveGoal \<Rightarrow> 'w \<Rightarrow> 'w \<times> (HubError, ('w, 'v) HubJob) res" where
  "submit_interactive c goal w = submit (interactive_transport c) goal w"

definition progress_invalid :: "('w, 'v) HubJob \<Rightarrow> ProgressSnapshot \<Rightarrow> bool" where
  "progress_invalid job snapshot \<longleftrightarrow>
     ps_workflow_id snapshot \<noteq> hj_workflow_id job
     \<or> ps_next_sequence snapshot < hj_next_sequence job
     \<or> list_ex (\<lambda>event. event_sequence event < hj_next_sequence job
          \<or> event_sequence event \<ge> ps_next_sequence snapshot) (ps_events snapshot)"

definition poll ::
  "('w, 'v) HubJob \<Rightarrow> 'w \<Rightarrow> (('w, 'v) HubJob \<times> 'w) \<times> (HubError, ProgressSnapshot) res" where
  "poll job w =
     (case tr_progress (hs_transport (hj_session job))
        \<lparr>pr_workflow_id = hj_workflow_id job, pr_after_sequence = hj_next_sequence job\<rparr> w of
        (w, r) \<Rightarrow> st_try (job, w) r (\<lambda>snapshot.
          if progress_invalid job snapshot
          then ((job, w), Err (Protocol ''Hub returned invalid, stale, or cross-workflow progress''))
          else ((job\<lparr>hj_next_sequence := ps_next_sequence snapshot\<rparr>, w), Ok snapshot)))"

definition validate_lifecycle_receipt :: "LifecycleReceipt \<Rightarrow> string \<Rightarrow> (HubError, unit) res" where
  "validate_lifecycle_receipt receipt workflow_id =
     (if lr_schema receipt \<noteq> LOOP_HUB_CLIENT_SCHEMA \<or> lr_workflow_id receipt \<noteq> workflow_id
         \<or> is_blank (lr_receipt_id receipt) \<or> is_blank (lr_state receipt)
      then Err (Protocol ''Hub returned an invalid lifecycle receipt'') else Ok ())"

definition cancel_job :: "('w, 'v) HubJob \<Rightarrow> string \<Rightarrow> 'w \<Rightarrow> 'w \<times> (HubError, LifecycleReceipt) res" where
  "cancel_job job reason w =
     (if is_blank reason then (w, Err (InvalidRequest ''cancel reason must not be empty''))
      else case tr_cancel (hs_transport (hj_session job))
        \<lparr>cr_workflow_id = hj_workflow_id job, cr_reason = reason,
         cr_idempotency_key = idempotency_key [hj_workflow_id job, ''cancel'']\<rparr> w of
        (w, r) \<Rightarrow> st_try w r (\<lambda>receipt.
          st_try w (validate_lifecycle_receipt receipt (hj_workflow_id job)) (\<lambda>_. (w, Ok receipt))))"

definition resume_job ::
  "('w, 'v) HubJob \<Rightarrow> string option \<Rightarrow> 'w \<Rightarrow> (('w, 'v) HubJob \<times> 'w) \<times> (HubError, LifecycleReceipt) res" where
  "resume_job job checkpoint w =
     (case tr_resume (hs_transport (hj_session job))
        \<lparr>rr_workflow_id = hj_workflow_id job, rr_idempotency_key = idempotency_key [hj_workflow_id job, ''resume''],
         rr_checkpoint = checkpoint\<rparr> w of
        (w, r) \<Rightarrow> st_try (job, w) r (\<lambda>receipt.
          st_try (job, w) (validate_lifecycle_receipt receipt (hj_workflow_id job)) (\<lambda>_.
            ((job\<lparr>hj_next_sequence := 0\<rparr>, w), Ok receipt))))"

end
