(* ===== verification/Loop_Hub_Properties.thy ===== *)
theory Loop_Hub_Properties
  imports Loop_Hub
begin

text \<open>
  What the Loop Hub client promises against any hub, discovery and transport: which handshakes it
  accepts, that replay keys are unambiguous, that no process operation reaches the hub unchecked, that
  progress is delivered at most once, and who may share a negotiated session.
\<close>

section \<open>The handshake\<close>

definition service_ok :: "ServiceOwnership \<Rightarrow> bool" where
  "service_ok s \<longleftrightarrow> so_owner s = LoopHub \<and> so_process_id s \<noteq> None \<and> so_process_id s \<noteq> Some []"

text \<open>What a handshake has to declare, stated without the order of the checks.\<close>

definition acceptable :: "HubHandshake \<Rightarrow> bool" where
  "acceptable h \<longleftrightarrow>
     hh_schema h = LOOP_HUB_CLIENT_SCHEMA \<and> hh_protocol h = LOOP_HUB_PROTOCOL
     \<and> \<not> is_blank (hh_hub_id h) \<and> hh_ready h \<and> \<not> hh_local_scheduler h
     \<and> ac_ready (hh_agent h) \<and> \<not> is_blank (ac_agent_id (hh_agent h)) \<and> \<not> is_blank (ac_protocol (hh_agent h))
     \<and> list_all service_ok (hh_services h)
     \<and> distinct (map so_name (hh_services h)) \<and> set (map so_name (hh_services h)) = UNIV
     \<and> resource_is_valid (sr_runtime (hh_resources h)) \<and> resource_is_valid (sr_mapper (hh_resources h))
     \<and> resource_is_valid (sr_inference (hh_resources h))
     \<and> sr_interactive_reserved (hh_resources h) \<noteq> 0 \<and> sr_max_active_inference (hh_resources h) = 1
     \<and> qc_interactive_capacity (hh_queue h) \<noteq> 0 \<and> qc_background_capacity (hh_queue h) \<noteq> 0
     \<and> qc_max_pending_interactive (hh_queue h) \<noteq> 0"

lemma service_errors_Nil: "service_errors s seen = [] \<longleftrightarrow> service_ok s \<and> \<not> seen"
  by (auto simp: service_errors_def service_ok_def)

lemma services_loop_owners: "snd (services_loop ss owners) = owners \<union> set (map so_name ss)"
  by (induction ss arbitrary: owners) (auto simp: split_beta)

lemma services_loop_Nil:
  "fst (services_loop ss owners) = []
     \<longleftrightarrow> list_all service_ok ss \<and> distinct (map so_name ss) \<and> set (map so_name ss) \<inter> owners = {}"
  by (induction ss arbitrary: owners) (auto simp: split_beta service_errors_Nil)

lemma missing_services_Nil: "missing_services owners = [] \<longleftrightarrow> owners = UNIV"
proof -
  have "missing_services owners = [] \<longleftrightarrow> {RuntimeService, MapperService, SchedulerService, InferenceService} \<subseteq> owners"
    by (simp add: missing_services_def)
  also have "{RuntimeService, MapperService, SchedulerService, InferenceService} = UNIV"
    using SharedService.exhaust by blast
  finally show ?thesis by blast
qed

lemma handshake_errors_Nil:
  "identity_errors h @ fst (services_loop (hh_services h) {})
     @ missing_services (set (map so_name (hh_services h))) @ resource_errors h = [] \<longleftrightarrow> acceptable h"
  by (auto simp: services_loop_Nil missing_services_Nil identity_errors_def resource_errors_def Let_def acceptable_def)

lemma handshake_validate_if:
  "handshake_validate h = (if acceptable h then Ok () else Err (Incompatible (join ''; ''
     (identity_errors h @ fst (services_loop (hh_services h) {})
      @ missing_services (set (map so_name (hh_services h))) @ resource_errors h))))"
  using handshake_errors_Nil [of h]
  by (simp add: handshake_validate_def split_beta Let_def services_loop_owners)

text \<open>
  C26: The client attaches to a hub exactly if the handshake declares everything it must: schema and
  protocol, a ready hub and agent, each of the four shared services exactly once with the hub as its
  owner and a process identity, no local scheduler, resource handles within capacity, exactly one
  inference slot, an interactive reservation and bounded queues; every other handshake is refused as
  incompatible, with at least one reason.
\<close>

theorem handshake_validate_exact:
  "(if acceptable h then handshake_validate h = Ok ()
    else \<exists>reason reasons. handshake_validate h = Err (Incompatible (join ''; '' (reason # reasons))))"
proof (cases "acceptable h")
  case False
  then obtain reason reasons where "identity_errors h @ fst (services_loop (hh_services h) {})
      @ missing_services (set (map so_name (hh_services h))) @ resource_errors h = reason # reasons"
    using handshake_errors_Nil [of h] by (meson neq_Nil_conv)
  with False show ?thesis unfolding handshake_validate_if by auto
qed (simp add: handshake_validate_if)

section \<open>Replay keys\<close>

lemma digit_colon: "CHR '':'' \<notin> set (dec_string n)"
proof
  assume "CHR '':'' \<in> set (dec_string n)"
  from dec_string_digits [OF this] show False by simp
qed

lemma append_sep_inject:
  "c \<notin> set a \<Longrightarrow> c \<notin> set b \<Longrightarrow> a @ c # x = b @ c # y \<longleftrightarrow> a = b \<and> x = y"
proof (induction a arbitrary: b)
  case Nil
  then show ?case by (cases b) auto
next
  case (Cons d a)
  then show ?case by (cases b) auto
qed

definition key_rest :: "string list \<Rightarrow> string" where
  "key_rest ps = (if ps = [] then [] else CHR ''|'' # idempotency_key ps)"

lemma idempotency_key_Cons: "idempotency_key (p # ps) = dec_string (length p) @ CHR '':'' # p @ key_rest ps"
  by (cases ps) (simp_all add: key_rest_def)

text \<open>
  The replay key of an interactive turn is unambiguous: two lists of components - whatever
  characters they contain, whatever their number - give the same key exactly if they are equal. Two
  turns can therefore never be taken for one.
\<close>

theorem idempotency_key_injective:
  "idempotency_key ps = idempotency_key qs \<longleftrightarrow> ps = qs"
proof (induction ps arbitrary: qs)
  case Nil
  then show ?case by (cases qs) (simp_all add: idempotency_key_Cons)
next
  case (Cons p ps)
  show ?case
  proof (cases qs)
    case (Cons q qs')
    have rest: "key_rest ps = key_rest qs' \<longleftrightarrow> ps = qs'"
      using Cons.IH [of qs'] by (auto simp: key_rest_def)
    show ?thesis
      unfolding Cons idempotency_key_Cons
      by (auto simp: append_sep_inject digit_colon rest)
  qed (simp add: idempotency_key_Cons)
qed

section \<open>Process operations\<close>

definition is_err :: "('e, 'a) res \<Rightarrow> bool" where
  "is_err r \<longleftrightarrow> (\<exists>e. r = Err e)"

text \<open>
  A command that cannot be mistaken for shell text or smuggle a terminator: every argument, the
  working directory and the environment are free of NUL, no argument has a shell metacharacter, and
  environment names are identifiers.
\<close>

definition env_identifier :: "string \<Rightarrow> bool" where
  "env_identifier key \<longleftrightarrow>
     key \<noteq> [] \<and> (hd key = CHR ''_'' \<or> is_ascii_alphabetic (hd key))
     \<and> list_all (\<lambda>c. c = CHR ''_'' \<or> is_ascii_alphanumeric c) key"

definition safe_command :: "RuntimeProcessStartRequest \<Rightarrow> bool" where
  "safe_command r \<longleftrightarrow>
     st_schema r = LOOP_HUB_RUNTIME_PROCESS_SCHEMA
     \<and> \<not> is_blank (st_workspace r) \<and> \<not> has_nul (st_workspace r)
     \<and> \<not> is_blank (st_cwd r) \<and> \<not> has_nul (st_cwd r)
     \<and> st_argv r \<noteq> [] \<and> list_all (\<lambda>a. \<not> is_blank a \<and> \<not> has_nul a \<and> list_all (\<lambda>c. \<not> shell_metacharacter c) a) (st_argv r)
     \<and> list_all (\<lambda>(k, v). env_identifier k \<and> \<not> has_nul v) (st_env r)
     \<and> \<not> is_blank (st_idempotency_key r) \<and> length (st_idempotency_key r) \<le> 256 \<and> \<not> has_nul (st_idempotency_key r)
     \<and> st_timeout_ms r \<noteq> 0"

lemma enumerate_first:
  "list_all (\<lambda>(i, c). (i = 0 \<and> P c) \<or> (i > 0 \<and> Q c)) (enumerate 0 (c # cs)) \<longleftrightarrow> P c \<and> list_all Q cs"
proof -
  have "list_all (\<lambda>(i, c). (i = 0 \<and> P c) \<or> (i > 0 \<and> Q c)) (enumerate (Suc n) cs) \<longleftrightarrow> list_all Q cs" for n
    by (induction cs arbitrary: n) simp_all
  then show ?thesis by simp
qed

definition name_start :: "char \<Rightarrow> bool" where
  "name_start c \<longleftrightarrow> c = CHR ''_'' \<or> is_ascii_alphabetic c"

definition name_char :: "char \<Rightarrow> bool" where
  "name_char c \<longleftrightarrow> c = CHR ''_'' \<or> is_ascii_alphanumeric c"

lemma name_chars: "name_start c \<Longrightarrow> name_char c" "\<not> name_char (CHR 0x00)"
  by (auto simp: name_start_def name_char_def is_ascii_alphabetic_def is_ascii_alphanumeric_def)

lemma env_key_good: "\<not> env_key_bad key \<longleftrightarrow> env_identifier key"
proof (cases key)
  case (Cons c cs)
  have "\<not> env_key_bad key \<longleftrightarrow> \<not> has_nul key \<and> name_start c \<and> list_all name_char cs"
    unfolding Cons env_key_bad_def enumerate_first name_start_def [symmetric] name_char_def [symmetric] by auto
  moreover have "name_char c \<and> list_all name_char cs \<Longrightarrow> \<not> has_nul key"
    using name_chars(2) by (auto simp: has_nul_def Cons list_all_iff)
  moreover have "env_identifier key \<longleftrightarrow> name_start c \<and> name_char c \<and> list_all name_char cs"
    unfolding Cons env_identifier_def name_start_def [symmetric] name_char_def [symmetric] by simp
  ultimately show ?thesis using name_chars(1) by blast
qed (simp add: env_key_bad_def env_identifier_def)

lemma start_request_valid:
  "validate_process_request (st_schema r) (st_workspace r) None = Ok () \<and> validate_process_start_request r = Ok ()
     \<longleftrightarrow> safe_command r"
  by (auto simp: validate_process_request_def validate_process_start_request_def validate_process_idempotency_key_def
      safe_command_def list_all_iff list_ex_iff env_key_good [symmetric] bt_values_def not_less)

lemma validation_total [simp]:
  "validate_process_request schema workspace handle \<noteq> Panic" "validate_process_start_request r \<noteq> Panic"
  by (simp_all add: validate_process_request_def validate_process_start_request_def validate_process_idempotency_key_def)

definition receipt_answers :: "RuntimeProcessReceipt \<Rightarrow> string \<Rightarrow> bool" where
  "receipt_answers receipt workspace \<longleftrightarrow>
     rp_schema receipt = LOOP_HUB_RUNTIME_PROCESS_SCHEMA \<and> rp_workspace receipt = workspace
     \<and> \<not> is_blank (rp_handle receipt) \<and> \<not> is_blank (rp_receipt_id receipt)"

lemma checked_receipt_Ok:
  assumes "checked_receipt reply workspace handle key = (w, Ok receipt)"
  shows "receipt_answers receipt workspace"
    and "handle = Some h \<Longrightarrow> rp_handle receipt = h"
    and "key = Some k \<Longrightarrow> rp_idempotency_key receipt = Some k"
  using assms
  by (auto simp: checked_receipt_def st_try_eq try_res_Ok_iff validate_process_receipt_def validate_process_request_def
      receipt_answers_def split: prod.splits if_splits)

text \<open>
  C11: A process start touches the hub only through the Runtime handle of a session whose hub offers
  the capability and only for a safe command: no NUL, no shell metacharacter in any argument,
  identifiers for environment names, a bounded idempotency key and a deadline. In every other case the
  world is unchanged and the caller gets an error. A receipt that is returned answers this very
  request: same workspace, same idempotency key, with a handle and a receipt id.
\<close>

theorem process_start_gated:
  assumes "process_start h r w = (w', result)"
  shows "(w' \<noteq> w \<or> \<not> is_err result \<longrightarrow>
      sh_service h = RuntimeService \<and> pcap_start (hh_runtime_process (hs_handshake (sh_session h))) \<and> safe_command r)
    \<and> (\<forall>receipt. result = Ok receipt \<longrightarrow>
      receipt_answers receipt (st_workspace r) \<and> rp_idempotency_key receipt = Some (st_idempotency_key r))"
proof (intro conjI allI impI)
  fix receipt
  assume "result = Ok receipt"
  with assms have "checked_receipt (tr_process_start (hs_transport (sh_session h)) r w) (st_workspace r) None
      (Some (st_idempotency_key r)) = (w', Ok receipt)"
    by (auto simp: process_start_def st_try_eq split: if_splits)
  from checked_receipt_Ok [OF this] show "receipt_answers receipt (st_workspace r)"
    "rp_idempotency_key receipt = Some (st_idempotency_key r)" by simp_all
next
  assume "w' \<noteq> w \<or> \<not> is_err result"
  with assms have "sh_service h = RuntimeService"
    "validate_process_request (st_schema r) (st_workspace r) None = Ok ()" "validate_process_start_request r = Ok ()"
    "pcap_start (hh_runtime_process (hs_handshake (sh_session h)))"
    by (auto simp: process_start_def st_try_eq is_err_def split: if_splits)
  then show "sh_service h = RuntimeService" "pcap_start (hh_runtime_process (hs_handshake (sh_session h)))" "safe_command r"
    by (simp_all add: start_request_valid [symmetric])
qed

section \<open>Progress\<close>

text \<open>Successive polls of a job; a refused poll leaves the job as it is and contributes nothing.\<close>

fun poll_all :: "nat \<Rightarrow> ('w, 'v) HubJob \<Rightarrow> 'w \<Rightarrow> ProgressSnapshot list" where
  "poll_all 0 job w = []"
| "poll_all (Suc n) job w =
     (case poll job w of
        ((job', w'), Ok snapshot) \<Rightarrow> snapshot # poll_all n job' w'
      | ((job', w'), _) \<Rightarrow> poll_all n job' w')"

definition delivered_before :: "ProgressSnapshot \<Rightarrow> ProgressSnapshot \<Rightarrow> bool" where
  "delivered_before a b \<longleftrightarrow>
     list_all (\<lambda>e. list_all (\<lambda>f. event_sequence e < event_sequence f) (ps_events b)) (ps_events a)"

lemma poll_Ok:
  assumes "poll job w = ((job', w'), Ok s)"
  shows "job' = job\<lparr>hj_next_sequence := ps_next_sequence s\<rparr>" and "ps_workflow_id s = hj_workflow_id job"
    and "hj_next_sequence job \<le> ps_next_sequence s"
    and "\<forall>e \<in> set (ps_events s). hj_next_sequence job \<le> event_sequence e \<and> event_sequence e < ps_next_sequence s"
  using assms
  by (auto simp: poll_def st_try_eq progress_invalid_def list_ex_iff not_less split: prod.splits if_splits)

lemma poll_not_Ok: "poll job w = ((job', w'), r) \<Longrightarrow> (\<forall>s. r \<noteq> Ok s) \<Longrightarrow> job' = job"
  by (auto simp: poll_def st_try_eq split: prod.splits if_splits)

lemma poll_all_from:
  "s \<in> set (poll_all n job w) \<Longrightarrow> \<forall>e \<in> set (ps_events s). hj_next_sequence job \<le> event_sequence e"
proof (induction n arbitrary: job w)
  case (Suc n)
  obtain job' w' r where poll: "poll job w = ((job', w'), r)" by (metis surj_pair)
  show ?case
  proof (cases r)
    case (Ok s')
    note p = poll_Ok [OF poll [unfolded Ok]]
    from Suc.prems poll Ok consider "s = s'" | "s \<in> set (poll_all n job' w')" by auto
    then show ?thesis
    proof cases
      case 2
      from Suc.IH [OF this] p(1,3) show ?thesis by (auto intro: order_trans)
    qed (use p(4) in simp)
  qed (use Suc poll poll_not_Ok [OF poll] in \<open>auto\<close>)
qed simp

text \<open>
  C25: Whatever the hub answers, progress is delivered at most once and in order between polls: every
  accepted snapshot is of the job's own workflow, and every event of an earlier accepted snapshot has
  a smaller sequence number than every event of a later one.
\<close>

theorem progress_delivered_once:
  "sorted_wrt delivered_before (poll_all n job w)
   \<and> list_all (\<lambda>s. ps_workflow_id s = hj_workflow_id job) (poll_all n job w)"
proof (induction n arbitrary: job w)
  case (Suc n)
  obtain job' w' r where poll: "poll job w = ((job', w'), r)" by (metis surj_pair)
  show ?case
  proof (cases r)
    case (Ok s)
    note p = poll_Ok [OF poll [unfolded Ok]]
    have "delivered_before s s'" if "s' \<in> set (poll_all n job' w')" for s'
    proof -
      have "\<forall>e \<in> set (ps_events s'). ps_next_sequence s \<le> event_sequence e"
        using poll_all_from [OF that] p(1) by simp
      with p(4) show ?thesis by (fastforce simp: delivered_before_def list_all_iff intro: less_le_trans)
    qed
    with Suc.IH [of job' w'] poll Ok p(1,2) show ?thesis by simp
  qed (use Suc.IH [of job' w'] poll poll_not_Ok [OF poll] in \<open>auto\<close>)
qed simp

section \<open>Sessions\<close>

text \<open>
  The process: the session table and the clients handed out so far, each with the endpoint it was
  connected to. A step is one connect with any discovery, factory and world, or the end of the last
  strong reference to some session.
\<close>

type_synonym ('w, 'v) attached = "string \<times> ('w, 'v) LoopHubClient"
type_synonym ('w, 'v) hub_process = "('w, 'v) HubSessions \<times> ('w, 'v) attached list"

definition hub_init :: "('w, 'v) hub_process \<Rightarrow> bool" where
  "hub_init p \<longleftrightarrow> p = (new_hub_sessions, [])"

inductive hub_step :: "('w, 'v) hub_process \<Rightarrow> ('w, 'v) hub_process \<Rightarrow> bool" where
  connected: "connect_with_discovery discover factory config g w = (g', w', Ok (Some c))
    \<Longrightarrow> snd (find_endpoint discover config w) = Ok e \<Longrightarrow> hub_step (g, cs) (g', (e, c) # cs)"
| not_connected: "connect_with_discovery discover factory config g w = (g', w', r) \<Longrightarrow> (\<forall>c. r \<noteq> Ok (Some c))
    \<Longrightarrow> hub_step (g, cs) (g', cs)"
| dropped: "hub_step (g, cs) (drop_session a g, cs)"

fun attached_key :: "('w, 'v) attached \<Rightarrow> string" where
  "attached_key (e, c) = session_key e (lc_config c)"

fun attached_session :: "('w, 'v) attached \<Rightarrow> ('w, 'v) HubSession" where
  "attached_session (e, c) = lc_session c"

text \<open>The sessions of the table and of the clients, each with its key; an address belongs to one.\<close>

definition keyed :: "('w, 'v) HubSessions \<Rightarrow> ('w, 'v) attached list \<Rightarrow> (string \<times> ('w, 'v) HubSession) set" where
  "keyed g cs = {(k, s). hub_weak g k = Some s} \<union> (\<lambda>x. (attached_key x, attached_session x)) ` set cs"

definition keyed_ok :: "nat \<Rightarrow> (string \<times> ('w, 'v) HubSession) set \<Rightarrow> bool" where
  "keyed_ok n K \<longleftrightarrow>
     (\<forall>x \<in> K. acceptable (hs_handshake (snd x)) \<and> hs_address (snd x) < n)
     \<and> (\<forall>x \<in> K. \<forall>y \<in> K. hs_address (snd x) = hs_address (snd y) \<longrightarrow> x = y)"

definition hub_inv :: "('w, 'v) hub_process \<Rightarrow> bool" where
  "hub_inv = (\<lambda>(g, cs). keyed_ok (hub_next g) (keyed g cs))"

lemma keyed_okD:
  assumes "keyed_ok n K" and "x \<in> K"
  shows "acceptable (hs_handshake (snd x))" and "hs_address (snd x) < n"
    and "y \<in> K \<Longrightarrow> hs_address (snd x) = hs_address (snd y) \<Longrightarrow> x = y"
  using assms unfolding keyed_ok_def by blast+

lemma keyed_ok_insert:
  assumes ok: "keyed_ok n K" and s: "acceptable (hs_handshake s)" "hs_address s = n" and sub: "K' \<subseteq> insert (k, s) K"
  shows "keyed_ok (Suc n) K'"
  unfolding keyed_ok_def
proof (intro conjI ballI impI)
  fix x
  assume "x \<in> K'"
  with sub consider "x = (k, s)" | "x \<in> K" by blast
  note x = this
  from x show "acceptable (hs_handshake (snd x))"
    by cases (simp add: s, rule keyed_okD(1) [OF ok])
  from x show "hs_address (snd x) < Suc n"
    by cases (simp add: s, rule less_SucI [OF keyed_okD(2) [OF ok]])
  fix y
  assume "y \<in> K'" and same: "hs_address (snd x) = hs_address (snd y)"
  with sub consider "y = (k, s)" | "y \<in> K" by blast
  with x same s(2) keyed_okD(2) [OF ok] keyed_okD(3) [OF ok] show "x = y"
    by (metis less_irrefl snd_conv)
qed

lemma handshake_validate_Ok: "handshake_validate h = Ok u \<longleftrightarrow> acceptable h"
  by (simp add: handshake_validate_if)

lemma negotiate_cases:
  assumes "negotiate factory e config g w = (g', w', r)"
  shows "(\<forall>s. r \<noteq> Ok s) \<and> (g' = g \<or> g' = g\<lparr>hub_poisoned := True\<rparr>)
    \<or> (\<exists>s. r = Ok s \<and> acceptable (hs_handshake s) \<and> hs_address s = hub_next g
        \<and> g' = g\<lparr>hub_weak := (hub_weak g)(session_key e config \<mapsto> s), hub_alive := insert (hub_next g) (hub_alive g),
             hub_next := Suc (hub_next g)\<rparr>)"
  using assms
  by (auto simp: negotiate_def Let_def handshake_validate_Ok split: prod.splits res.splits)

lemma connect_cases:
  assumes "connect_with_discovery discover factory config g w = (g', w', r)"
  shows "(\<forall>c. r \<noteq> Ok (Some c)) \<and> (g' = g \<or> g' = g\<lparr>hub_poisoned := True\<rparr>)
    \<or> (\<exists>e s. snd (find_endpoint discover config w) = Ok e \<and> r = Ok (Some \<lparr>lc_session = s, lc_config = config\<rparr>)
        \<and> (g' = g \<and> hub_weak g (session_key e config) = Some s
           \<or> acceptable (hs_handshake s) \<and> hs_address s = hub_next g
             \<and> g' = g\<lparr>hub_weak := (hub_weak g)(session_key e config \<mapsto> s), hub_alive := insert (hub_next g) (hub_alive g),
                  hub_next := Suc (hub_next g)\<rparr>))"
proof -
  have endp: "(\<forall>s. r \<noteq> Ok s) \<and> (g' = g \<or> g' = g\<lparr>hub_poisoned := True\<rparr>)
      \<or> (\<exists>s. r = Ok s \<and> (g' = g \<and> hub_weak g (session_key e config) = Some s
           \<or> acceptable (hs_handshake s) \<and> hs_address s = hub_next g
             \<and> g' = g\<lparr>hub_weak := (hub_weak g)(session_key e config \<mapsto> s), hub_alive := insert (hub_next g) (hub_alive g),
                  hub_next := Suc (hub_next g)\<rparr>))"
    if "connect_endpoint factory e config g w = (g', w', r)" for e w g' w' and r :: "(HubError, ('a, 'b) HubSession) res"
    using that negotiate_cases [of factory e config g w g' w' r]
    by (auto simp: connect_endpoint_def upgrade_def split: if_splits option.splits)
  show ?thesis
  proof (cases "\<exists>e w1. config_validate config = Ok () \<and> hc_mode config \<noteq> HubStandalone \<and> find_endpoint discover config w = (w1, Ok e)")
    case True
    then obtain e w1 where e: "config_validate config = Ok ()" "hc_mode config \<noteq> HubStandalone"
      "find_endpoint discover config w = (w1, Ok e)" by blast
    obtain g1 w2 r1 where c: "connect_endpoint factory e config g w1 = (g1, w2, r1)" by (metis surj_pair)
    from assms e c have "g' = g1" "r = try_res r1 (\<lambda>s. Ok (Some \<lparr>lc_session = s, lc_config = config\<rparr>))"
      by (simp_all add: connect_with_discovery_def)
    with endp [OF c] e(3) show ?thesis by (cases r1) auto
  next
    case False
    with assms show ?thesis
      by (auto simp: connect_with_discovery_def split: res.splits if_splits prod.splits)
  qed
qed

lemma connect_Some:
  assumes "connect_with_discovery discover factory config g w = (g', w', Ok (Some c))"
    and "snd (find_endpoint discover config w) = Ok e"
  shows "lc_config c = config"
    and "g' = g \<and> hub_weak g (session_key e config) = Some (lc_session c)
      \<or> acceptable (hs_handshake (lc_session c)) \<and> hs_address (lc_session c) = hub_next g
        \<and> g' = g\<lparr>hub_weak := (hub_weak g)(session_key e config \<mapsto> lc_session c),
             hub_alive := insert (hub_next g) (hub_alive g), hub_next := Suc (hub_next g)\<rparr>"
proof -
  from connect_cases [OF assms(1)] assms(2) obtain s where c: "c = \<lparr>lc_session = s, lc_config = config\<rparr>"
    and "g' = g \<and> hub_weak g (session_key e config) = Some s
      \<or> acceptable (hs_handshake s) \<and> hs_address s = hub_next g
        \<and> g' = g\<lparr>hub_weak := (hub_weak g)(session_key e config \<mapsto> s),
             hub_alive := insert (hub_next g) (hub_alive g), hub_next := Suc (hub_next g)\<rparr>"
    by (metis option.inject res.inject(1))
  then show "lc_config c = config"
    and "g' = g \<and> hub_weak g (session_key e config) = Some (lc_session c)
      \<or> acceptable (hs_handshake (lc_session c)) \<and> hs_address (lc_session c) = hub_next g
        \<and> g' = g\<lparr>hub_weak := (hub_weak g)(session_key e config \<mapsto> lc_session c),
             hub_alive := insert (hub_next g) (hub_alive g), hub_next := Suc (hub_next g)\<rparr>"
    by simp_all
qed

lemma keyed_update:
  "keyed (g\<lparr>hub_weak := (hub_weak g)(k \<mapsto> s), hub_alive := A, hub_next := n\<rparr>) cs \<subseteq> insert (k, s) (keyed g cs)"
  by (auto simp: keyed_def split: if_splits)

lemma keyed_Cons: "keyed g (x # cs) = insert (attached_key x, attached_session x) (keyed g cs)"
  by (simp add: keyed_def)

lemma hub_inv_connected:
  assumes "hub_inv (g, cs)" and "connect_with_discovery discover factory config g w = (g', w', Ok (Some c))"
    and "snd (find_endpoint discover config w) = Ok e"
  shows "hub_inv (g', (e, c) # cs)"
  using connect_Some(2) [OF assms(2,3)]
proof
  assume old: "g' = g \<and> hub_weak g (session_key e config) = Some (lc_session c)"
  then have "(session_key e config, lc_session c) \<in> keyed g cs" by (simp add: keyed_def)
  with old assms(1) connect_Some(1) [OF assms(2,3)] show ?thesis
    by (simp add: hub_inv_def keyed_Cons insert_absorb)
next
  assume new: "acceptable (hs_handshake (lc_session c)) \<and> hs_address (lc_session c) = hub_next g
        \<and> g' = g\<lparr>hub_weak := (hub_weak g)(session_key e config \<mapsto> lc_session c),
             hub_alive := insert (hub_next g) (hub_alive g), hub_next := Suc (hub_next g)\<rparr>"
  then have "keyed g' ((e, c) # cs) \<subseteq> insert (session_key e config, lc_session c) (keyed g cs)"
    using connect_Some(1) [OF assms(2,3)] keyed_update by (simp add: keyed_Cons)
  from keyed_ok_insert [OF _ _ _ this] new assms(1) have "keyed_ok (Suc (hub_next g)) (keyed g' ((e, c) # cs))"
    unfolding hub_inv_def by blast
  moreover have "hub_next g' = Suc (hub_next g)" using new by simp
  ultimately show ?thesis by (simp add: hub_inv_def)
qed

lemma hub_inv_step: "hub_inv p \<Longrightarrow> hub_step p p' \<Longrightarrow> hub_inv p'"
proof (rotate_tac, induction rule: hub_step.induct)
  case (connected discover factory config g w g' w' c e cs)
  then show ?case by (blast intro: hub_inv_connected)
next
  case (not_connected discover factory config g w g' w' r cs)
  from connect_cases [OF not_connected(1)] not_connected(2) have "g' = g \<or> g' = g\<lparr>hub_poisoned := True\<rparr>" by blast
  then have "keyed g' cs = keyed g cs" "hub_next g' = hub_next g" by (auto simp: keyed_def)
  with not_connected(3) show ?case by (simp add: hub_inv_def)
next
  case (dropped g cs a)
  then show ?case by (simp add: hub_inv_def keyed_def drop_session_def)
qed

interpretation hub: invariant_system hub_init hub_step hub_inv
proof
  show "hub_inv p" if "hub_init p" for p :: "('a, 'b) hub_process"
    using that by (simp add: hub_init_def hub_inv_def keyed_ok_def keyed_def new_hub_sessions_def)
qed (fact hub_inv_step)

lemma session_key_inject:
  assumes "session_key e c = session_key e' c'" and "\<not> has_nul e" "\<not> has_nul e'"
    and "\<not> has_nul (hc_workspace_id c)" "\<not> has_nul (hc_workspace_id c')"
  shows "e = e' \<and> hc_workspace_id c = hc_workspace_id c' \<and> hc_session_id c = hc_session_id c'"
  using assms by (simp add: session_key_def has_nul_def append_sep_inject)

text \<open>
  Over any history of connects, whatever discovery, factory and hubs do, every client handed out
  has a session whose handshake was validated; and two clients share a negotiated session only if they
  attached to the same endpoint for the same workspace and the same session id - provided that
  endpoints and workspace ids contain no NUL character.
\<close>

theorem shared_session_same_identity:
  assumes "reach hub_init hub_step (g, cs)" and "(e, c) \<in> set cs" and "(e', c') \<in> set cs"
    and "hs_address (lc_session c) = hs_address (lc_session c')"
    and "\<not> has_nul e" "\<not> has_nul e'" "\<not> has_nul (hc_workspace_id (lc_config c))" "\<not> has_nul (hc_workspace_id (lc_config c'))"
  shows "lc_session c = lc_session c' \<and> handshake_validate (hs_handshake (lc_session c)) = Ok () \<and> e = e'
    \<and> hc_workspace_id (lc_config c) = hc_workspace_id (lc_config c')
    \<and> hc_session_id (lc_config c) = hc_session_id (lc_config c')"
proof -
  let ?x = "(session_key e (lc_config c), lc_session c)" and ?y = "(session_key e' (lc_config c'), lc_session c')"
  have mem: "?x \<in> keyed g cs" "?y \<in> keyed g cs"
    using assms(2,3) by (force simp: keyed_def)+
  have ok: "keyed_ok (hub_next g) (keyed g cs)" using hub.reach_inv [OF assms(1)] by (simp add: hub_inv_def)
  have "?x = ?y" using keyed_okD(3) [OF ok mem(1) mem(2)] assms(4) by simp
  moreover have "acceptable (hs_handshake (lc_session c))" using keyed_okD(1) [OF ok mem(1)] by simp
  moreover from calculation session_key_inject assms(5-8)
  have "e = e' \<and> hc_workspace_id (lc_config c) = hc_workspace_id (lc_config c') \<and> hc_session_id (lc_config c) = hc_session_id (lc_config c')"
    by blast
  ultimately show ?thesis by (simp add: handshake_validate_Ok)
qed

section \<open>A small hub\<close>

text \<open>A hub that counts what reaches it and accepts everything.\<close>

definition toy_resource :: ResourceHandle where
  "toy_resource = \<lparr>rh_id = ''r'', rh_capacity = 1, rh_used = 0\<rparr>"

definition toy_handshake :: HubHandshake where
  "toy_handshake = \<lparr>hh_schema = LOOP_HUB_CLIENT_SCHEMA, hh_protocol = LOOP_HUB_PROTOCOL, hh_hub_id = ''h'', hh_ready = True,
     hh_agent = \<lparr>ac_agent_id = ''a'', ac_protocol = ''p'', ac_ready = True\<rparr>,
     hh_services = map (\<lambda>n. \<lparr>so_name = n, so_owner = LoopHub, so_process_id = Some ''1''\<rparr>)
       [RuntimeService, MapperService, SchedulerService, InferenceService],
     hh_resources = \<lparr>sr_runtime = toy_resource, sr_mapper = toy_resource, sr_inference = toy_resource,
       sr_max_active_inference = 1, sr_interactive_reserved = 1\<rparr>,
     hh_queue = \<lparr>qc_interactive_capacity = 1, qc_background_capacity = 1, qc_max_pending_interactive = 1\<rparr>,
     hh_runtime_process = \<lparr>pcap_start = True, pcap_status = True, pcap_cancel = True, pcap_wait = True\<rparr>,
     hh_local_scheduler = False\<rparr>"

definition toy_process_start :: "RuntimeProcessStartRequest \<Rightarrow> nat \<Rightarrow> nat \<times> (HubError, RuntimeProcessReceipt) res" where
  "toy_process_start r w = (Suc w, Ok \<lparr>rp_schema = LOOP_HUB_RUNTIME_PROCESS_SCHEMA, rp_workspace = st_workspace r, rp_handle = ''h'',
     rp_state = Running, rp_receipt_id = ''1'', rp_idempotency_key = Some (st_idempotency_key r), rp_exit_code = None,
     rp_signal = None, rp_stdout = [], rp_stderr = [], rp_truncated = False, rp_total_bytes = None\<rparr>)"

definition toy_transport :: "(nat, unit) HubTransport" where
  "toy_transport = \<lparr>tr_handshake = (\<lambda>r w. (Suc w, Ok toy_handshake)), tr_submit = unavailable ''queue'',
     tr_progress = unavailable ''queue'', tr_cancel = unavailable ''queue'', tr_resume = unavailable ''queue'',
     tr_runtime_execute = unavailable ''effect bridge'', tr_process_start = toy_process_start,
     tr_process_status = unavailable ''process status capability'', tr_process_cancel = unavailable ''process cancel capability'',
     tr_process_wait = unavailable ''process wait capability''\<rparr>"

definition toy_factory :: "string \<Rightarrow> nat \<Rightarrow> nat \<times> (HubError, (nat, unit) HubTransport) res" where
  "toy_factory endpoint w = (w, Ok toy_transport)"

definition toy_discover :: "HubClientConfig \<Rightarrow> nat \<Rightarrow> nat \<times> (HubError, string option) res" where
  "toy_discover config w = (w, Ok (Some ''e''))"

definition toy_config :: "string \<Rightarrow> string \<Rightarrow> HubClientConfig" where
  "toy_config workspace session = new_hub_config HubHub ''c'' workspace session"

lemma toy_handshake_ok: "handshake_validate toy_handshake = Ok ()"
  by code_simp

lemma toy_config_valid:
  "\<not> is_blank workspace \<Longrightarrow> \<not> is_blank session \<Longrightarrow> config_validate (toy_config workspace session) = Ok ()"
proof -
  have "\<not> is_blank ''c''" by code_simp
  then show "\<not> is_blank workspace \<Longrightarrow> \<not> is_blank session \<Longrightarrow> ?thesis"
    by (simp add: config_validate_def toy_config_def new_hub_config_def)
qed

lemma toy_endpoint: "find_endpoint toy_discover (toy_config workspace session) w = (w, Ok ''e'')"
proof -
  have "normalize_endpoint (Some ''e'') = Some ''e''" "normalize_endpoint None = None" by code_simp+
  then show ?thesis
    by (simp add: find_endpoint_def configured_endpoint_def toy_config_def new_hub_config_def toy_discover_def)
qed

definition toy_session :: "(nat, unit) HubSession" where
  "toy_session = \<lparr>hs_address = 0, hs_endpoint = ''e'', hs_transport = toy_transport, hs_handshake = toy_handshake\<rparr>"

definition toy_table :: "string \<Rightarrow> string \<Rightarrow> (nat, unit) HubSessions" where
  "toy_table workspace session = \<lparr>hub_weak = [session_key ''e'' (toy_config workspace session) \<mapsto> toy_session],
     hub_alive = {0}, hub_next = 1, hub_poisoned = False\<rparr>"

lemma toy_connect:
  assumes "\<not> is_blank workspace" and "\<not> is_blank session"
  shows "connect_with_discovery toy_discover toy_factory (toy_config workspace session) new_hub_sessions 0
    = (toy_table workspace session, 1, Ok (Some \<lparr>lc_session = toy_session, lc_config = toy_config workspace session\<rparr>))"
  using toy_config_valid [OF assms] toy_handshake_ok
  by (simp add: connect_with_discovery_def toy_endpoint connect_endpoint_def new_hub_sessions_def upgrade_def negotiate_def
      toy_factory_def toy_transport_def toy_table_def toy_session_def Let_def)
    (simp add: toy_config_def new_hub_config_def)

lemma toy_reconnect:
  assumes "\<not> is_blank workspace'" and "\<not> is_blank session'"
    and "session_key ''e'' (toy_config workspace' session') = session_key ''e'' (toy_config workspace session)"
  shows "connect_with_discovery toy_discover toy_factory (toy_config workspace' session') (toy_table workspace session) w
    = (toy_table workspace session, w, Ok (Some \<lparr>lc_session = toy_session, lc_config = toy_config workspace' session'\<rparr>))"
  using toy_config_valid [OF assms(1,2)] assms(3)
  by (simp add: connect_with_discovery_def toy_endpoint connect_endpoint_def upgrade_def toy_table_def)
    (simp add: toy_config_def new_hub_config_def toy_session_def)

lemma shared_session_same_identity_witness:
  "handshake_validate (hs_handshake (lc_session \<lparr>lc_session = toy_session, lc_config = toy_config ''w'' ''s''\<rparr>)) = Ok ()"
proof -
  let ?c = "\<lparr>lc_session = toy_session, lc_config = toy_config ''w'' ''s''\<rparr>"
  have blank: "\<not> is_blank ''w''" "\<not> is_blank ''s''" by code_simp+
  have start: "reach hub_init hub_step (new_hub_sessions, []) "
    by (rule reach_init) (simp add: hub_init_def)
  have "reach hub_init hub_step (toy_table ''w'' ''s'', [(''e'', ?c)])"
    by (rule reach_step [OF start], rule hub_step.connected [OF toy_connect [OF blank]]) (simp add: toy_endpoint)
  from shared_session_same_identity [OF this, of "''e''" ?c "''e''" ?c] show ?thesis
    by (simp add: has_nul_def toy_config_def new_hub_config_def)
qed

definition toy_start :: RuntimeProcessStartRequest where
  "toy_start = \<lparr>st_schema = LOOP_HUB_RUNTIME_PROCESS_SCHEMA, st_workspace = ''w'', st_cwd = ''d'', st_argv = [''ls''],
     st_env = [(''A'', ''1'')], st_timeout_ms = 5, st_max_output_bytes = 9, st_idempotency_key = ''k''\<rparr>"

definition toy_handle :: "(nat, unit) SharedHubServiceHandle" where
  "toy_handle = \<lparr>sh_session = toy_session, sh_service = RuntimeService, sh_resource = toy_resource\<rparr>"

lemma process_start_gated_witness:
  "\<exists>receipt. process_start toy_handle toy_start 0 = (1, Ok receipt) \<and> rp_idempotency_key receipt = Some ''k'' \<and> safe_command toy_start"
proof -
  define receipt where "receipt = (case snd (process_start toy_handle toy_start 0) of Ok r \<Rightarrow> r)"
  have "validate_process_request (st_schema toy_start) (st_workspace toy_start) None = Ok ()"
    "validate_process_start_request toy_start = Ok ()"
    "snd (checked_receipt (toy_process_start toy_start 0) ''w'' None (Some ''k'')) = snd (toy_process_start toy_start 0)"
    "fst (checked_receipt (toy_process_start toy_start 0) ''w'' None (Some ''k'')) = 1"
    by code_simp+
  then have run: "process_start toy_handle toy_start 0 = (1, Ok receipt)"
    unfolding receipt_def
    by (simp add: process_start_def toy_handle_def toy_session_def toy_handshake_def toy_transport_def prod_eq_iff)
      (simp add: toy_start_def toy_process_start_def)
  from process_start_gated [OF run] show ?thesis
    using run by (simp add: is_err_def toy_start_def)
qed

text \<open>
  The key of the session table joins endpoint, workspace and session with NUL characters that none
  of them is forbidden to contain: a client of workspace \<open>a\<close> and session \<open>b\0s\<close> is handed the session
  that was negotiated for workspace \<open>a\0b\<close> and session \<open>s\<close>, without the hub being asked.
\<close>

theorem session_table_confuses_workspaces:
  "let ab = ''a'' @ CHR 0x00 # ''b''; bs = ''b'' @ CHR 0x00 # ''s'';
       (g, w, r) = connect_with_discovery toy_discover toy_factory (toy_config ab ''s'') new_hub_sessions 0;
       (g', w', r') = connect_with_discovery toy_discover toy_factory (toy_config ''a'' bs) g w
   in \<exists>c c'. r = Ok (Some c) \<and> r' = Ok (Some c') \<and> w' = w
        \<and> hc_workspace_id (lc_config c) = ab \<and> hc_workspace_id (lc_config c') = ''a''
        \<and> hc_session_id (lc_config c) = ''s'' \<and> hc_session_id (lc_config c') = bs
        \<and> shares_session_with (shared_runtime_handle c) (shared_runtime_handle c')"
proof -
  let ?ab = "''a'' @ CHR 0x00 # ''b''" and ?bs = "''b'' @ CHR 0x00 # ''s''"
  have blank: "\<not> is_blank ?ab" "\<not> is_blank ''s''" "\<not> is_blank ''a''" "\<not> is_blank ?bs" by code_simp+
  have "session_key ''e'' (toy_config ''a'' ?bs) = session_key ''e'' (toy_config ?ab ''s'')"
    by (simp add: session_key_def toy_config_def new_hub_config_def)
  note connects = toy_connect [OF blank(1,2)] toy_reconnect [OF blank(3,4) this]
  show ?thesis
    unfolding Let_def connects case_prod_conv
    by (simp add: toy_config_def new_hub_config_def shares_session_with_def shared_runtime_handle_def)
qed

end
