(* ===== verification/Storage.thy ===== *)
theory Storage
  imports Rust_Text
begin

text \<open>
  Atomic publication and migration of files, \<^verbatim>\<open>simplicio-code-formats/src\<close> (\<^verbatim>\<open>atomic.rs\<close>,
  \<^verbatim>\<open>migration.rs\<close>), over a file system with volatile contents and what a power loss would leave.
  Every system call may fail and a write may be short: the reply of the operating system to each call
  is an argument. A publication is a machine that makes one call per step, so that what an observer or
  a crash sees between two calls can be stated.
\<close>

section \<open>Paths and files\<close>

text \<open>A path is the list of its components.\<close>

type_synonym path = "string list"

definition parent :: "path \<Rightarrow> path option" where
  "parent p = (if p = [] then None else Some (butlast p))"

definition file_name :: "path \<Rightarrow> string option" where
  "file_name p = (if p = [] then None else Some (last p))"

datatype IoError = NotFound | AlreadyExists string | InvalidData string | OsError nat

text \<open>
  \<open>fs_files\<close> is what a reader sees; \<open>fs_flushed\<close> are the files whose contents reached the disk; \<open>fs_disk\<close>
  are the directory entries, with contents, that a power loss leaves.
\<close>

record Fs =
  fs_files :: "path \<rightharpoonup> byte list"
  fs_dirs :: "path set"
  fs_flushed :: "path set"
  fs_disk :: "path \<rightharpoonup> byte list"

datatype Reply = Proceed | Short nat | Fault nat

definition sys_create_dir_all :: "path \<Rightarrow> Fs \<Rightarrow> Fs" where
  "sys_create_dir_all d fs = fs\<lparr>fs_dirs := fs_dirs fs \<union> set (map (\<lambda>n. take n d) [0..<Suc (length d)])\<rparr>"

definition sys_create_new :: "path \<Rightarrow> Fs \<Rightarrow> Fs \<times> (IoError, unit) res" where
  "sys_create_new p fs =
     (if fs_files fs p \<noteq> None \<or> p \<in> fs_dirs fs then (fs, Err (AlreadyExists []))
      else (fs\<lparr>fs_files := (fs_files fs)(p \<mapsto> []), fs_flushed := fs_flushed fs - {p}\<rparr>, Ok ()))"

definition sys_append :: "path \<Rightarrow> byte list \<Rightarrow> Fs \<Rightarrow> Fs" where
  "sys_append p bs fs =
     (case fs_files fs p of
        None \<Rightarrow> fs
      | Some old \<Rightarrow> fs\<lparr>fs_files := (fs_files fs)(p \<mapsto> old @ bs), fs_flushed := fs_flushed fs - {p}\<rparr>)"

definition sys_sync :: "path \<Rightarrow> Fs \<Rightarrow> Fs" where
  "sys_sync p fs = fs\<lparr>fs_flushed := insert p (fs_flushed fs)\<rparr>"

definition sys_rename :: "path \<Rightarrow> path \<Rightarrow> Fs \<Rightarrow> Fs \<times> (IoError, unit) res" where
  "sys_rename src dst fs =
     (case fs_files fs src of
        None \<Rightarrow> (fs, Err NotFound)
      | Some bs \<Rightarrow>
          if dst \<in> fs_dirs fs then (fs, Err (OsError 21))
          else (fs\<lparr>fs_files := (fs_files fs)(src := None, dst \<mapsto> bs),
                  fs_flushed := (if src \<in> fs_flushed fs then insert dst (fs_flushed fs) else fs_flushed fs - {dst}) - ({src} - {dst})\<rparr>,
                Ok ()))"

definition sys_sync_dir :: "path \<Rightarrow> Fs \<Rightarrow> Fs" where
  "sys_sync_dir d fs =
     fs\<lparr>fs_disk := (\<lambda>p. if parent p = Some d \<and> (fs_files fs p = None \<or> p \<in> fs_flushed fs) then fs_files fs p else fs_disk fs p)\<rparr>"

definition sys_remove :: "path \<Rightarrow> Fs \<Rightarrow> Fs" where
  "sys_remove p fs = fs\<lparr>fs_files := (fs_files fs)(p := None), fs_flushed := fs_flushed fs - {p}\<rparr>"

section \<open>Atomic publication\<close>

definition temp_path :: "nat \<Rightarrow> nat \<Rightarrow> path \<Rightarrow> path" where
  "temp_path pid nonce p =
     (let dir = (case parent p of Some d \<Rightarrow> d | None \<Rightarrow> [''.'']);
          name = (case file_name p of Some n \<Rightarrow> if utf8_valid n then n else ''state'' | None \<Rightarrow> ''state'')
      in dir @ [''.'' @ name @ ''.'' @ dec_string pid @ ''.'' @ dec_string nonce @ ''.tmp''])"

datatype WritePc =
  WMkdir | WOpen | WWrite "byte list" | WSync | WRename | WDirSync | WCleanup IoError | WDone "(IoError, unit) res"

definition target_dir :: "path \<Rightarrow> path" where
  "target_dir p = (case parent p of Some d \<Rightarrow> d | None \<Rightarrow> [''.''])"

definition write_on :: "byte list \<Rightarrow> WritePc" where
  "write_on rest = (if rest = [] then WSync else WWrite rest)"

text \<open>
  One call of \<open>write_atomically\<close> with its reply; \<open>write_all\<close> repeats short writes and treats a write of
  zero bytes as an error. A failure inside the closure leads to the removal of the temporary file.
\<close>

fun write_step :: "path \<Rightarrow> path \<Rightarrow> byte list \<Rightarrow> Reply \<Rightarrow> WritePc \<times> Fs \<Rightarrow> WritePc \<times> Fs" where
  "write_step temp p bytes (Fault e) (WMkdir, fs) = (WDone (Err (OsError e)), fs)"
| "write_step temp p bytes (Fault e) (WCleanup err, fs) = (WDone (Err err), fs)"
| "write_step temp p bytes r (WDone res, fs) = (WDone res, fs)"
| "write_step temp p bytes (Fault e) (pc, fs) = (WCleanup (OsError e), fs)"
| "write_step temp p bytes r (WMkdir, fs) = (WOpen, sys_create_dir_all (target_dir p) fs)"
| "write_step temp p bytes r (WOpen, fs) =
     (case sys_create_new temp fs of
        (fs, Err e) \<Rightarrow> (WCleanup e, fs)
      | (fs, _) \<Rightarrow> (write_on bytes, fs))"
| "write_step temp p bytes r (WWrite rest, fs) =
     (let n = (case r of Short n \<Rightarrow> n | _ \<Rightarrow> length rest)
      in if n = 0 then (WCleanup (OsError 0), fs) else (write_on (drop n rest), sys_append temp (take n rest) fs))"
| "write_step temp p bytes r (WSync, fs) = (WRename, sys_sync temp fs)"
| "write_step temp p bytes r (WRename, fs) =
     (case sys_rename temp p fs of
        (fs, Err e) \<Rightarrow> (WCleanup e, fs)
      | (fs, _) \<Rightarrow> (WDirSync, fs))"
| "write_step temp p bytes r (WDirSync, fs) = (WDone (Ok ()), sys_sync_dir (target_dir p) fs)"
| "write_step temp p bytes r (WCleanup err, fs) = (WDone (Err err), sys_remove temp fs)"

fun write_run :: "path \<Rightarrow> path \<Rightarrow> byte list \<Rightarrow> Reply list \<Rightarrow> WritePc \<times> Fs \<Rightarrow> WritePc \<times> Fs" where
  "write_run temp p bytes [] s = s"
| "write_run temp p bytes (r # rs) s = write_run temp p bytes rs (write_step temp p bytes r s)"

text \<open>
  The whole function. \<open>env\<close> gives the reply to each call; a publication makes at most one call per byte and
  six others.
\<close>

definition write_fuel :: "byte list \<Rightarrow> nat" where
  "write_fuel bytes = length bytes + 6"

definition write_atomically ::
  "nat \<Rightarrow> nat \<Rightarrow> (nat \<Rightarrow> Reply) \<Rightarrow> path \<Rightarrow> byte list \<Rightarrow> Fs \<Rightarrow> Fs \<times> (IoError, unit) res" where
  "write_atomically pid nonce env p bytes fs =
     (case write_run (temp_path pid nonce p) p bytes (map env [0..<write_fuel bytes]) (WMkdir, fs) of
        (WDone res, fs) \<Rightarrow> (fs, res)
      | (_, fs) \<Rightarrow> (fs, Panic))"

section \<open>Migration\<close>

definition MAX_LEGACY_BYTES :: nat where "MAX_LEGACY_BYTES = 64 * 1024 * 1024"

record MigrationOutcome =
  mo_dry_run :: bool
  mo_migrated :: bool
  mo_backup :: "path option"

fun sys_read :: "Reply \<Rightarrow> path \<Rightarrow> Fs \<Rightarrow> (IoError, byte list) res" where
  "sys_read (Fault e) p fs = Err (OsError e)"
| "sys_read r p fs = ok_or NotFound (fs_files fs p)"

text \<open>\<open>Path::exists\<close> answers no when the metadata cannot be read.\<close>

fun sys_exists :: "Reply \<Rightarrow> path \<Rightarrow> Fs \<Rightarrow> bool" where
  "sys_exists (Fault e) p fs = False"
| "sys_exists r p fs = (fs_files fs p \<noteq> None \<or> p \<in> fs_dirs fs)"

text \<open>The replies to the calls of a migration.\<close>

record MigrationEnv =
  me_read_legacy :: Reply
  me_target_exists :: Reply
  me_read_target :: Reply
  me_backup_exists :: Reply
  me_read_backup :: Reply
  me_write_backup :: "nat \<Rightarrow> Reply"
  me_write_target :: "nat \<Rightarrow> Reply"

definition publish_migration ::
  "nat \<Rightarrow> nat \<Rightarrow> MigrationEnv \<Rightarrow> path \<Rightarrow> path \<Rightarrow> byte list \<Rightarrow> Fs \<Rightarrow> Fs \<times> (IoError, MigrationOutcome) res" where
  "publish_migration pid nonce env target backup converted fs =
     (case write_atomically pid nonce (me_write_target env) target converted fs of
        (fs, r) \<Rightarrow> st_try fs r (\<lambda>_. (fs, Ok \<lparr>mo_dry_run = False, mo_migrated = True, mo_backup = Some backup\<rparr>)))"

definition migrate_bytes_atomically ::
  "nat \<Rightarrow> nat \<Rightarrow> MigrationEnv \<Rightarrow> path \<Rightarrow> path \<Rightarrow> path \<Rightarrow> bool \<Rightarrow> (byte list \<Rightarrow> (IoError, byte list) res) \<Rightarrow> Fs
     \<Rightarrow> Fs \<times> (IoError, MigrationOutcome) res" where
  "migrate_bytes_atomically pid nonce env legacy target backup dry_run encode fs =
     st_try fs (sys_read (me_read_legacy env) legacy fs) (\<lambda>source.
       if length source > MAX_LEGACY_BYTES then (fs, Err (InvalidData ''legacy artifact exceeds migration limit''))
       else st_try fs (encode source) (\<lambda>converted.
         if dry_run then (fs, Ok \<lparr>mo_dry_run = True, mo_migrated = False, mo_backup = None\<rparr>)
         else if sys_exists (me_target_exists env) target fs then
           st_try fs (sys_read (me_read_target env) target fs) (\<lambda>present.
             if present = converted
             then (fs, Ok \<lparr>mo_dry_run = False, mo_migrated = False,
                    mo_backup = (if sys_exists (me_backup_exists env) backup fs then Some backup else None)\<rparr>)
             else (fs, Err (AlreadyExists ''migration target exists with different content'')))
         else if sys_exists (me_backup_exists env) backup fs then
           st_try fs (sys_read (me_read_backup env) backup fs) (\<lambda>kept.
             if kept \<noteq> source then (fs, Err (AlreadyExists ''migration backup exists with different content''))
             else publish_migration pid nonce env target backup converted fs)
         else
           (case write_atomically pid nonce (me_write_backup env) backup source fs of
              (fs, r) \<Rightarrow> st_try fs r (\<lambda>_. publish_migration pid (nonce + 1) env target backup converted fs))))"

section \<open>What every moment of a publication keeps\<close>

text \<open>
  Where a publication stands: before the rename the target has its old contents and the temporary file
  holds what was written; after it the target is new, complete and flushed.
\<close>

definition others_same :: "path \<Rightarrow> path \<Rightarrow> Fs \<Rightarrow> Fs \<Rightarrow> bool" where
  "others_same temp p fs0 fs \<longleftrightarrow> (\<forall>q. q \<noteq> temp \<longrightarrow> q \<noteq> p \<longrightarrow> fs_files fs q = fs_files fs0 q)"

fun write_inv :: "path \<Rightarrow> path \<Rightarrow> byte list \<Rightarrow> Fs \<Rightarrow> WritePc \<times> Fs \<Rightarrow> bool" where
  "write_inv temp p bytes fs0 (pc, fs) \<longleftrightarrow>
     others_same temp p fs0 fs
     \<and> (case pc of
          WMkdir \<Rightarrow> fs = fs0
        | WOpen \<Rightarrow> fs_files fs = fs_files fs0 \<and> fs_disk fs = fs_disk fs0
        | WWrite rest \<Rightarrow> fs_files fs p = fs_files fs0 p \<and> fs_disk fs = fs_disk fs0 \<and> rest \<noteq> []
            \<and> (\<exists>written. bytes = written @ rest \<and> fs_files fs temp = Some written)
        | WSync \<Rightarrow> fs_files fs p = fs_files fs0 p \<and> fs_disk fs = fs_disk fs0 \<and> fs_files fs temp = Some bytes
        | WRename \<Rightarrow> fs_files fs p = fs_files fs0 p \<and> fs_disk fs = fs_disk fs0
            \<and> fs_files fs temp = Some bytes \<and> temp \<in> fs_flushed fs
        | WDirSync \<Rightarrow> fs_files fs p = Some bytes \<and> fs_disk fs = fs_disk fs0 \<and> fs_files fs temp = None \<and> p \<in> fs_flushed fs
        | WCleanup e \<Rightarrow> fs_disk fs = fs_disk fs0
            \<and> (fs_files fs p = fs_files fs0 p \<or> fs_files fs p = Some bytes \<and> p \<in> fs_flushed fs)
        | WDone (Ok _) \<Rightarrow> fs_files fs p = Some bytes \<and> fs_disk fs p = Some bytes \<and> fs_files fs temp = None
        | WDone (Err e) \<Rightarrow> fs_disk fs = fs_disk fs0
            \<and> (fs_files fs p = fs_files fs0 p \<or> fs_files fs p = Some bytes \<and> p \<in> fs_flushed fs)
        | WDone Panic \<Rightarrow> False)"

lemma parent_target_dir: "p \<noteq> [] \<Longrightarrow> parent p = Some (target_dir p)"
  by (simp add: parent_def target_dir_def)

lemma last_temp_path:
  "last (temp_path pid nonce p) = ''.'' @ (case file_name p of Some n \<Rightarrow> if utf8_valid n then n else ''state'' | None \<Rightarrow> ''state'')
     @ ''.'' @ dec_string pid @ ''.'' @ dec_string nonce @ ''.tmp''"
  by (simp add: temp_path_def Let_def)

lemma temp_path_neq:
  assumes "p \<noteq> []"
  shows "temp_path pid nonce p \<noteq> p"
proof
  assume eq: "temp_path pid nonce p = p"
  show False
  proof (cases "utf8_valid (last p)")
    case True
    with eq assms last_temp_path [of pid nonce p] have "length (last p) > length (last p)"
      by (simp add: file_name_def)
    then show False by simp
  next
    case False
    have "utf8_valid (last (temp_path pid nonce p))"
      unfolding last_temp_path using False assms
      by (intro utf8_valid_ascii) (auto simp: file_name_def dest: dec_string_ascii)
    with eq False show False by simp
  qed
qed

lemma others_same_refl [simp]: "others_same temp p fs fs"
  by (simp add: others_same_def)

lemma others_same_sys [simp]:
  "others_same temp p fs0 fs \<Longrightarrow> others_same temp p fs0 (sys_create_dir_all d fs)"
  "others_same temp p fs0 fs \<Longrightarrow> others_same temp p fs0 (fst (sys_create_new temp fs))"
  "others_same temp p fs0 fs \<Longrightarrow> others_same temp p fs0 (sys_append temp bs fs)"
  "others_same temp p fs0 fs \<Longrightarrow> others_same temp p fs0 (sys_sync temp fs)"
  "others_same temp p fs0 fs \<Longrightarrow> others_same temp p fs0 (fst (sys_rename temp p fs))"
  "others_same temp p fs0 fs \<Longrightarrow> others_same temp p fs0 (sys_sync_dir d fs)"
  "others_same temp p fs0 fs \<Longrightarrow> others_same temp p fs0 (sys_remove temp fs)"
  by (simp_all add: others_same_def sys_create_dir_all_def sys_create_new_def sys_append_def sys_sync_def sys_rename_def
      sys_sync_dir_def sys_remove_def split: option.split)

text \<open>Two replies only matter for a write: to go on, or to fail.\<close>

lemma write_step_fault:
  "write_inv temp p bytes fs0 (pc, fs) \<Longrightarrow> write_inv temp p bytes fs0 (write_step temp p bytes (Fault e) (pc, fs))"
  by (cases pc) (simp_all split: res.splits)

lemma write_step_proceed:
  "\<not> (\<exists>e. r = Fault e) \<Longrightarrow> \<not> (\<exists>rest. pc = WWrite rest) \<Longrightarrow>
     write_step temp p bytes r (pc, fs) = write_step temp p bytes Proceed (pc, fs)"
  by (cases r; cases pc) simp_all

lemma write_step_write:
  assumes "\<not> (\<exists>e. r = Fault e)"
  obtains n where "write_step temp p bytes r (WWrite rest, fs) =
     (if n = 0 then (WCleanup (OsError 0), fs) else (write_on (drop n rest), sys_append temp (take n rest) fs))"
proof (cases r)
  case Proceed
  show thesis by (rule that [of "length rest"]) (simp add: Proceed Let_def)
next
  case (Short n)
  show thesis by (rule that [of n]) (simp add: Short Let_def)
qed (use assms in simp)

lemma write_inv_proceed:
  assumes "temp \<noteq> p" and "p \<noteq> []" and inv: "write_inv temp p bytes fs0 (pc, fs)" and "\<not> (\<exists>rest. pc = WWrite rest)"
  shows "write_inv temp p bytes fs0 (write_step temp p bytes Proceed (pc, fs))"
proof (cases pc)
  case WMkdir
  then show ?thesis using inv by (simp add: sys_create_dir_all_def others_same_def)
next
  case WOpen
  have "others_same temp p fs0 (fst (sys_create_new temp fs))" using inv by simp
  with WOpen inv assms(1) show ?thesis by (auto simp: sys_create_new_def write_on_def)
next
  case WSync
  then show ?thesis using inv by (simp add: sys_sync_def others_same_def)
next
  case WRename
  have "others_same temp p fs0 (fst (sys_rename temp p fs))" using inv by simp
  with WRename inv assms(1) show ?thesis by (auto simp: sys_rename_def split: if_splits)
next
  case WDirSync
  have "others_same temp p fs0 (sys_sync_dir (target_dir p) fs)" using inv by simp
  with WDirSync inv show ?thesis by (simp add: sys_sync_dir_def parent_target_dir [OF assms(2)])
next
  case (WCleanup e)
  have "others_same temp p fs0 (sys_remove temp fs)" using inv by simp
  with WCleanup inv assms(1) show ?thesis by (simp add: sys_remove_def)
qed (use inv assms(4) in simp_all)

lemma write_inv_write:
  assumes "temp \<noteq> p" and inv: "write_inv temp p bytes fs0 (WWrite rest, fs)"
  shows "write_inv temp p bytes fs0 (write_on (drop n rest), sys_append temp (take n rest) fs)"
proof -
  from inv obtain written where w: "bytes = written @ rest" "fs_files fs temp = Some written" by auto
  have "others_same temp p fs0 (sys_append temp (take n rest) fs)" using inv by simp
  moreover have "bytes = (written @ take n rest) @ drop n rest" using w(1) by simp
  ultimately show ?thesis
    using inv w assms(1) by (simp add: write_on_def sys_append_def)
qed

lemma write_inv_step:
  assumes "temp \<noteq> p" and "p \<noteq> []" and inv: "write_inv temp p bytes fs0 (pc, fs)"
  shows "write_inv temp p bytes fs0 (write_step temp p bytes r (pc, fs))"
proof -
  consider e where "r = Fault e" | rest where "\<not> (\<exists>e. r = Fault e)" "pc = WWrite rest"
    | "\<not> (\<exists>e. r = Fault e)" "\<not> (\<exists>rest. pc = WWrite rest)" by blast
  then show ?thesis
  proof cases
    case 1
    show ?thesis unfolding 1 by (rule write_step_fault [OF inv])
  next
    case 2
    obtain n where n: "write_step temp p bytes r (WWrite rest, fs) =
       (if n = 0 then (WCleanup (OsError 0), fs) else (write_on (drop n rest), sys_append temp (take n rest) fs))"
      using write_step_write [OF 2(1)] .
    have "write_inv temp p bytes fs0 (WCleanup (OsError 0), fs)" using inv 2(2) by simp
    with write_inv_write [OF assms(1) inv [unfolded 2(2)]] show ?thesis
      unfolding 2(2) n by (cases "n = 0") (simp_all del: write_inv.simps)
  next
    case 3
    show ?thesis unfolding write_step_proceed [OF 3] by (rule write_inv_proceed [OF assms 3(2)])
  qed
qed

lemma write_run_inv:
  assumes "temp \<noteq> p" and "p \<noteq> []"
  shows "write_inv temp p bytes fs0 s \<Longrightarrow> write_inv temp p bytes fs0 (write_run temp p bytes rs s)"
proof (induction rs arbitrary: s)
  case (Cons r rs)
  then show ?case using write_inv_step [OF assms, of bytes fs0 "fst s" "snd s" r] by simp
qed simp

section \<open>A publication always returns\<close>

fun calls_left :: "byte list \<Rightarrow> WritePc \<Rightarrow> nat" where
  "calls_left bytes WMkdir = length bytes + 6"
| "calls_left bytes WOpen = length bytes + 5"
| "calls_left bytes (WWrite rest) = length rest + 4"
| "calls_left bytes WSync = 4"
| "calls_left bytes WRename = 3"
| "calls_left bytes WDirSync = 2"
| "calls_left bytes (WCleanup e) = 1"
| "calls_left bytes (WDone res) = 0"

lemma write_on_left: "rest \<noteq> [] \<Longrightarrow> 0 < n \<Longrightarrow> calls_left bytes (write_on (drop n rest)) < length rest + 4"
  by (cases rest) (auto simp: write_on_def)

lemma write_step_left:
  assumes "pc \<noteq> WWrite []" and "calls_left bytes pc \<noteq> 0"
  shows "calls_left bytes (fst (write_step temp p bytes r (pc, fs))) < calls_left bytes pc"
proof -
  consider e where "r = Fault e" | rest where "\<not> (\<exists>e. r = Fault e)" "pc = WWrite rest"
    | "\<not> (\<exists>e. r = Fault e)" "\<not> (\<exists>rest. pc = WWrite rest)" by blast
  then show ?thesis
  proof cases
    case 2
    obtain n where n: "write_step temp p bytes r (WWrite rest, fs) =
       (if n = 0 then (WCleanup (OsError 0), fs) else (write_on (drop n rest), sys_append temp (take n rest) fs))"
      using write_step_write [OF 2(1)] .
    with 2(2) assms(1) write_on_left [of rest n bytes] show ?thesis by (simp del: write_step.simps)
  next
    case 3
    from assms(2) 3(2) show ?thesis
      unfolding write_step_proceed [OF 3]
      by (cases pc) (auto simp: write_on_def sys_create_new_def sys_rename_def split: option.split)
  qed (use assms in \<open>cases pc; simp\<close>)
qed

lemma write_run_done: "write_run temp p bytes rs (WDone res, fs) = (WDone res, fs)"
  by (induction rs) simp_all

lemma write_run_returns:
  assumes "temp \<noteq> p" and "p \<noteq> []"
  shows "write_inv temp p bytes fs0 (pc, fs) \<Longrightarrow> calls_left bytes pc \<le> length rs
    \<Longrightarrow> \<exists>res fs'. write_run temp p bytes rs (pc, fs) = (WDone res, fs') \<and> res \<noteq> Panic"
proof (induction rs arbitrary: pc fs)
  case Nil
  then show ?case by (cases pc) (auto split: res.splits)
next
  case (Cons r rs)
  show ?case
  proof (cases "calls_left bytes pc = 0")
    case True
    then obtain res where "pc = WDone res" by (cases pc) simp_all
    with Cons.prems(1) show ?thesis by (cases res) (auto simp: write_run_done)
  next
    case False
    obtain pc' fs' where s: "write_step temp p bytes r (pc, fs) = (pc', fs')" by fastforce
    have "pc \<noteq> WWrite []" using Cons.prems(1) by auto
    with False write_step_left [of pc bytes temp p r fs] s Cons.prems(2) have "calls_left bytes pc' \<le> length rs" by simp
    moreover have "write_inv temp p bytes fs0 (pc', fs')" using write_inv_step [OF assms Cons.prems(1), of r] s by simp
    ultimately show ?thesis using Cons.IH s by simp
  qed
qed

lemma write_atomically_run:
  assumes "p \<noteq> []"
  obtains res fs' where "write_atomically pid nonce env p bytes fs = (fs', res)" and "res \<noteq> Panic"
    and "write_inv (temp_path pid nonce p) p bytes fs (WDone res, fs')"
proof -
  let ?t = "temp_path pid nonce p" and ?rs = "map env [0..<write_fuel bytes]"
  have start: "write_inv ?t p bytes fs (WMkdir, fs)" by simp
  from write_run_returns [OF temp_path_neq [OF assms] assms start, of ?rs] obtain res fs'
    where run: "write_run ?t p bytes ?rs (WMkdir, fs) = (WDone res, fs')" and "res \<noteq> Panic"
    by (auto simp: write_fuel_def)
  moreover have "write_inv ?t p bytes fs (WDone res, fs')"
    using write_run_inv [OF temp_path_neq [OF assms] assms start, of ?rs] run by metis
  moreover have "write_atomically pid nonce env p bytes fs = (fs', res)"
    using run by (simp add: write_atomically_def)
  ultimately show thesis by (intro that)
qed


definition empty_fs :: Fs where
  "empty_fs = \<lparr>fs_files = Map.empty, fs_dirs = {[]}, fs_flushed = {}, fs_disk = Map.empty\<rparr>"


text \<open>The contents of a path that a power loss may leave.\<close>

definition after_crash :: "Fs \<Rightarrow> path \<Rightarrow> byte list option set" where
  "after_crash fs p = {fs_disk fs p} \<union> (if p \<in> fs_flushed fs then {fs_files fs p} else {})"



text \<open>Without faults a publication succeeds, unless a name it needs is taken.\<close>

lemma proceed_replies:
  "map (\<lambda>_. Proceed) [0..<write_fuel bytes]
     = Proceed # Proceed # Proceed # Proceed # Proceed # Proceed # replicate (length bytes) Proceed"
  unfolding write_fuel_def map_replicate_const by (simp add: numeral_eq_Suc)

lemma publication_succeeds:
  assumes "p \<noteq> []" and "fs_files fs (temp_path pid nonce p) = None"
    and "temp_path pid nonce p \<notin> fs_dirs (sys_create_dir_all (target_dir p) fs)"
    and "p \<notin> fs_dirs (sys_create_dir_all (target_dir p) fs)"
  shows "snd (write_atomically pid nonce (\<lambda>_. Proceed) p bytes fs) = Ok ()"
  unfolding write_atomically_def proceed_replies
  using assms temp_path_neq [OF assms(1), of pid nonce]
  by (cases "bytes = []")
    (simp_all add: sys_create_new_def sys_create_dir_all_def sys_sync_def sys_rename_def write_on_def sys_append_def write_run_done)

text \<open>
  The removal on failure is not limited to files that the call has created: if another process
  with the same process id (in another container, say) is still writing the temporary file of that
  name, the exclusive creation fails and the other's unfinished file is deleted.
\<close>

lemma failed_open_deletes_foreign_temp:
  assumes "fs_files fs (temp_path pid nonce p) = Some foreign"
  shows "\<exists>fs'. write_atomically pid nonce (\<lambda>_. Proceed) p bytes fs = (fs', Err (AlreadyExists []))
    \<and> fs_files fs' (temp_path pid nonce p) = None"
  unfolding write_atomically_def proceed_replies using assms
  by (simp add: sys_create_dir_all_def sys_create_new_def sys_remove_def write_run_done)

section \<open>Migration keeps the source\<close>

lemma write_frame:
  assumes "write_atomically pid nonce env p bytes fs = (fs', res)" and "p \<noteq> []" and "q \<noteq> p" and "q \<noteq> temp_path pid nonce p"
  shows "fs_files fs' q = fs_files fs q"
proof -
  obtain res' fs'' where "write_atomically pid nonce env p bytes fs = (fs'', res')"
    "write_inv (temp_path pid nonce p) p bytes fs (WDone res', fs'')" using write_atomically_run [OF assms(2)] .
  with assms show ?thesis by (auto simp: others_same_def)
qed

lemma write_target:
  assumes "write_atomically pid nonce env p bytes fs = (fs', res)" and "p \<noteq> []"
  shows "res \<noteq> Panic" and "res = Ok u \<Longrightarrow> fs_files fs' p = Some bytes"
    and "fs_files fs' p = fs_files fs p \<or> fs_files fs' p = Some bytes"
proof -
  obtain res' fs'' where "write_atomically pid nonce env p bytes fs = (fs'', res')" "res' \<noteq> Panic"
    "write_inv (temp_path pid nonce p) p bytes fs (WDone res', fs'')" using write_atomically_run [OF assms(2)] .
  with assms(1) show "res \<noteq> Panic" "res = Ok u \<Longrightarrow> fs_files fs' p = Some bytes"
    "fs_files fs' p = fs_files fs p \<or> fs_files fs' p = Some bytes"
    by (auto split: res.splits)
qed

text \<open>The three files of a migration and the temporary names of its two publications are different.\<close>

definition migration_paths :: "nat \<Rightarrow> nat \<Rightarrow> path \<Rightarrow> path \<Rightarrow> path \<Rightarrow> bool" where
  "migration_paths pid nonce legacy target backup \<longleftrightarrow>
     distinct [legacy, target, backup] \<and> target \<noteq> [] \<and> backup \<noteq> []
     \<and> legacy \<notin> {temp_path pid n p | n p. p \<in> {target, backup}}
     \<and> target \<notin> {temp_path pid n backup | n. True} \<and> backup \<notin> {temp_path pid n target | n. True}"

lemma publish_cases:
  assumes "publish_migration pid nonce env target backup converted fs = (fs', res)" and "target \<noteq> []"
  shows "\<forall>q. q = target \<or> q = temp_path pid nonce target \<or> fs_files fs' q = fs_files fs q"
    and "res = Ok outcome \<Longrightarrow> mo_migrated outcome \<and> mo_backup outcome = Some backup \<and> fs_files fs' target = Some converted"
proof -
  obtain fs1 r where w: "write_atomically pid nonce (me_write_target env) target converted fs = (fs1, r)" by fastforce
  then have fs': "fs' = fs1" using assms(1) by (auto simp: publish_migration_def st_try_eq)
  show "\<forall>q. q = target \<or> q = temp_path pid nonce target \<or> fs_files fs' q = fs_files fs q"
    unfolding fs' using write_frame [OF w assms(2)] by blast
  assume "res = Ok outcome"
  with assms(1) w show "mo_migrated outcome \<and> mo_backup outcome = Some backup \<and> fs_files fs' target = Some converted"
    unfolding fs' using write_target(2) [OF w assms(2)] by (auto simp: publish_migration_def st_try_eq)
qed

text \<open>
  A migration never loses data. Whatever fails, the legacy file keeps its contents; a dry run and
  every refusal leave all files as they were; and when the migration reports that it has migrated,
  the target holds the converted bytes and the backup holds exactly the legacy bytes.
\<close>

theorem migration_keeps_source:
  assumes "migrate_bytes_atomically pid nonce env legacy target backup dry_run encode fs = (fs', res)"
    and "migration_paths pid nonce legacy target backup"
  shows "fs_files fs' legacy = fs_files fs legacy \<and> (dry_run \<longrightarrow> fs' = fs)
    \<and> (\<forall>outcome. res = Ok outcome \<longrightarrow> mo_migrated outcome \<longrightarrow>
        (\<exists>source converted. fs_files fs legacy = Some source \<and> encode source = Ok converted
          \<and> fs_files fs' target = Some converted \<and> fs_files fs' backup = Some source))"
proof -
  note paths = assms(2) [unfolded migration_paths_def]
  have read: "fs_files fs q = Some bs" if "sys_read r q fs = Ok bs" for r q bs
    using that by (cases r) (auto simp: ok_or_iffs)
  have legacy_temp: "legacy \<noteq> temp_path pid n target" "legacy \<noteq> temp_path pid n backup" for n
    using paths by blast+
  consider (unchanged) "fs' = fs" "\<forall>outcome. res = Ok outcome \<longrightarrow> \<not> mo_migrated outcome"
    | (kept) source converted where "\<not> dry_run" "fs_files fs legacy = Some source" "encode source = Ok converted"
        "fs_files fs backup = Some source" "publish_migration pid nonce env target backup converted fs = (fs', res)"
    | (backed) source converted fs1 r where "\<not> dry_run" "fs_files fs legacy = Some source" "encode source = Ok converted"
        "write_atomically pid nonce (me_write_backup env) backup source fs = (fs1, r)"
        "st_try fs1 r (\<lambda>_. publish_migration pid (nonce + 1) env target backup converted fs1) = (fs', res)"
    using assms(1) unfolding migrate_bytes_atomically_def
    by (auto simp: st_try_eq dest!: read split: if_splits prod.splits)
  then show ?thesis
  proof cases
    case kept
    have "target \<noteq> []" "backup \<noteq> target" "legacy \<noteq> target" "backup \<noteq> temp_path pid nonce target" using paths by auto
    with publish_cases [OF kept(5)] kept legacy_temp show ?thesis by metis
  next
    case backed
    have ne: "target \<noteq> []" "backup \<noteq> []" "backup \<noteq> target" "legacy \<noteq> target" "legacy \<noteq> backup"
      "backup \<noteq> temp_path pid (nonce + 1) target" using paths by auto
    have leg: "fs_files fs1 legacy = fs_files fs legacy" using write_frame [OF backed(4) ne(2) ne(5)] legacy_temp by blast
    show ?thesis
    proof (cases r)
      case (Ok u)
      note pub = backed(5) [unfolded Ok st_try.simps]
      have "fs_files fs1 backup = Some source" using write_target(2) [OF backed(4) ne(2) Ok] .
      with publish_cases [OF pub ne(1)] backed(1-3) leg ne legacy_temp show ?thesis by metis
    qed (use backed leg write_target(1) [OF backed(4) ne(2)] in auto)
  qed (use assms(1) in auto)
qed

definition toy_env :: MigrationEnv where
  "toy_env = \<lparr>me_read_legacy = Proceed, me_target_exists = Proceed, me_read_target = Proceed, me_backup_exists = Proceed,
     me_read_backup = Proceed, me_write_backup = (\<lambda>_. Proceed), me_write_target = (\<lambda>_. Proceed)\<rparr>"

definition toy_fs :: Fs where
  "toy_fs = empty_fs\<lparr>fs_files := [[''old''] \<mapsto> [1, 2], [''bak''] \<mapsto> [1, 2]]\<rparr>"

definition toy_migration :: "Fs \<times> (IoError, MigrationOutcome) res" where
  "toy_migration = migrate_bytes_atomically 1 0 toy_env [''old''] [''new''] [''bak''] False (\<lambda>_. Ok [9]) toy_fs"

lemma temp_path_dot:
  assumes "c \<noteq> CHR ''.''"
  shows "[c # s] \<noteq> temp_path pid n p"
proof
  assume eq: "[c # s] = temp_path pid n p"
  have "hd (last (temp_path pid n p)) = CHR ''.''" by (simp add: last_temp_path)
  then have "hd (last [c # s]) = CHR ''.''" by (simp only: eq)
  with assms show False by simp
qed

lemma toy_migration_paths: "migration_paths 1 0 [''old''] [''new''] [''bak'']"
  by (simp add: migration_paths_def temp_path_dot)

lemma migration_keeps_source_witness:
  "\<exists>fs' outcome. toy_migration = (fs', Ok outcome) \<and> mo_migrated outcome
     \<and> fs_files fs' [''new''] = Some [9] \<and> fs_files fs' [''bak''] = Some [1, 2]"
proof -
  have temp: "temp_path 1 0 [''new''] \<noteq> []" "temp_path 1 0 [''new''] \<noteq> [''old'']" "temp_path 1 0 [''new''] \<noteq> [''bak'']"
    by (simp add: temp_path_def Let_def, (rule not_sym, rule temp_path_dot, simp)+)
  have "snd (write_atomically 1 0 (\<lambda>_. Proceed) [''new''] [9] toy_fs) = Ok ()"
    by (rule publication_succeeds)
      (use temp in \<open>simp_all add: toy_fs_def empty_fs_def sys_create_dir_all_def target_dir_def parent_def\<close>)
  then obtain fs' where w: "write_atomically 1 0 (\<lambda>_. Proceed) [''new''] [9] toy_fs = (fs', Ok ())"
    by (metis prod.collapse)
  have "toy_migration = publish_migration 1 0 toy_env [''new''] [''bak''] [9] toy_fs"
    by (simp add: toy_migration_def migrate_bytes_atomically_def toy_env_def toy_fs_def empty_fs_def MAX_LEGACY_BYTES_def)
  also have "\<dots> = (fs', Ok \<lparr>mo_dry_run = False, mo_migrated = True, mo_backup = Some [''bak'']\<rparr>)"
    by (simp add: publish_migration_def toy_env_def w [unfolded One_nat_def])
  finally have run: "toy_migration = (fs', Ok \<lparr>mo_dry_run = False, mo_migrated = True, mo_backup = Some [''bak'']\<rparr>)" .
  from migration_keeps_source [OF run [unfolded toy_migration_def] toy_migration_paths] show ?thesis
    unfolding run by (simp add: toy_fs_def)
qed

end
