(* ===== verification/Map_Cache.thy ===== *)
theory Map_Cache
  imports Hbi_Integrity Storage BTree_Map "HOL-Library.List_Lexorder" "HOL-Library.Char_ord"
begin

text \<open>
  The cache of repository maps, \<^verbatim>\<open>simplicio-runtime-client/src/map_cache.rs\<close>: the binary payload of a map
  result, the cache over HBI containers published atomically, its invalidation, the bounded summary and
  the identity of a repository. SHA-256, BLAKE3, the JSON parser and the canonicalization of paths are
  arguments, as are the replies of the operating system and the listing of the cache directory. The
  message of a wrapped encoder error is not represented.
\<close>

section \<open>Map results\<close>

definition MAP_RESULT_SCHEMA_V1 :: string where "MAP_RESULT_SCHEMA_V1 = ''simplicio.map-result/v1''"

datatype MapState = Waiting | Mapping | Ready | Degraded | Failed

record MapResult =
  mr_schema :: string
  mr_repo_hash :: string
  mr_runtime_version :: string
  mr_state :: MapState
  mr_summary :: string
  mr_file_count :: nat
  mr_generated_at_unix_ms :: u64

definition new_map_result :: "u64 \<Rightarrow> string \<Rightarrow> string \<Rightarrow> MapState \<Rightarrow> string \<Rightarrow> nat \<Rightarrow> MapResult" where
  "new_map_result now repo_hash runtime_version state summary file_count =
     \<lparr>mr_schema = MAP_RESULT_SCHEMA_V1, mr_repo_hash = repo_hash, mr_runtime_version = runtime_version, mr_state = state,
      mr_summary = summary, mr_file_count = file_count, mr_generated_at_unix_ms = now\<rparr>"

definition is_usable :: "MapResult \<Rightarrow> bool" where
  "is_usable r \<longleftrightarrow> mr_state r = Ready \<or> mr_state r = Degraded"

definition cache_key :: "string \<Rightarrow> string \<Rightarrow> string" where
  "cache_key repo_hash runtime_version = repo_hash @ ''-'' @ runtime_version"

definition cache_file_name :: "string \<Rightarrow> string \<Rightarrow> string" where
  "cache_file_name repo_hash runtime_version = cache_key repo_hash runtime_version @ ''.hbi''"

definition MAP_SECTION_KIND :: u32 where "MAP_SECTION_KIND = 1"
definition MAP_PAYLOAD_MAGIC :: "byte list" where "MAP_PAYLOAD_MAGIC = as_bytes ''SMAP''"
definition MAP_PAYLOAD_VERSION :: u16 where "MAP_PAYLOAD_VERSION = 1"
definition MAX_MAP_FIELD_BYTES :: nat where "MAX_MAP_FIELD_BYTES = 16 * 1024 * 1024"

section \<open>The legacy format\<close>

record LegacyMapResult =
  lm_schema :: string
  lm_repo_hash :: string
  lm_runtime_version :: string
  lm_state :: string
  lm_summary :: string
  lm_file_count :: nat
  lm_generated_at_unix_ms :: u64

definition legacy_state :: "string \<Rightarrow> MapState option" where
  "legacy_state s =
     (if s = ''waiting'' then Some Waiting else if s = ''mapping'' then Some Mapping else if s = ''ready'' then Some Ready
      else if s = ''degraded'' then Some Degraded else if s = ''failed'' then Some Failed else None)"

text \<open>\<open>from_json\<close> is the JSON parser: the record, or the text of its error.\<close>

definition decode_legacy_map ::
  "(byte list \<Rightarrow> string + LegacyMapResult) \<Rightarrow> byte list \<Rightarrow> string \<Rightarrow> string \<Rightarrow> (IoError, MapResult) res" where
  "decode_legacy_map from_json bytes repo_hash runtime_version =
     (case from_json bytes of
        Inl error \<Rightarrow> Err (InvalidData (''legacy map JSON is invalid: '' @ error))
      | Inr legacy \<Rightarrow>
          if lm_schema legacy \<noteq> MAP_RESULT_SCHEMA_V1 \<or> lm_repo_hash legacy \<noteq> repo_hash
             \<or> lm_runtime_version legacy \<noteq> runtime_version
          then Err (InvalidData ''legacy map identity or schema mismatch'')
          else
            (case legacy_state (lm_state legacy) of
               None \<Rightarrow> Err (InvalidData ''legacy map state is unknown'')
             | Some state \<Rightarrow>
                 Ok \<lparr>mr_schema = MAP_RESULT_SCHEMA_V1, mr_repo_hash = lm_repo_hash legacy,
                     mr_runtime_version = lm_runtime_version legacy, mr_state = state, mr_summary = lm_summary legacy,
                     mr_file_count = lm_file_count legacy,
                     mr_generated_at_unix_ms = lm_generated_at_unix_ms legacy\<rparr>))"

section \<open>The payload\<close>

fun state_byte :: "MapState \<Rightarrow> byte" where
  "state_byte Waiting = 0"
| "state_byte Mapping = 1"
| "state_byte Ready = 2"
| "state_byte Degraded = 3"
| "state_byte Failed = 4"

definition byte_state :: "byte \<Rightarrow> MapState option" where
  "byte_state b =
     (if b = 0 then Some Waiting else if b = 1 then Some Mapping else if b = 2 then Some Ready
      else if b = 3 then Some Degraded else if b = 4 then Some Failed else None)"

definition encode_map_result :: "MapResult \<Rightarrow> (IoError, byte list) res" where
  "encode_map_result r =
     (if length (mr_repo_hash r) > MAX_MAP_FIELD_BYTES \<or> length (mr_runtime_version r) > MAX_MAP_FIELD_BYTES
         \<or> length (mr_summary r) > MAX_MAP_FIELD_BYTES
      then Err (InvalidData ''map result field exceeds limit'')
      else Ok (MAP_PAYLOAD_MAGIC @ le16 MAP_PAYLOAD_VERSION @ [0, 0]
        @ le32 (of_nat (length (mr_repo_hash r))) @ le32 (of_nat (length (mr_runtime_version r)))
        @ [state_byte (mr_state r)] @ [0, 0, 0]
        @ le64 (of_nat (mr_file_count r)) @ le64 (mr_generated_at_unix_ms r)
        @ le32 (of_nat (length (mr_summary r)))
        @ as_bytes (mr_repo_hash r) @ as_bytes (mr_runtime_version r) @ as_bytes (mr_summary r)))"

text \<open>\<open>uN::from_le_bytes(bytes[i..j].try_into().unwrap())\<close>.\<close>

definition read_le :: "byte list \<Rightarrow> nat \<Rightarrow> nat \<Rightarrow> (IoError, 'a::len word) res" where
  "read_le bytes i j = try_res (slice bytes i j) (\<lambda>s. Ok (from_le s))"

definition text_field :: "byte list \<Rightarrow> nat \<Rightarrow> nat \<Rightarrow> string \<Rightarrow> (IoError, string) res" where
  "text_field bytes i j what = try_res (slice bytes i j) (\<lambda>s. ok_or (InvalidData (what @ '' is not UTF-8'')) (from_utf8 s))"

definition payload_end :: "nat \<Rightarrow> nat \<Rightarrow> nat \<Rightarrow> nat option" where
  "payload_end repo_len runtime_len summary_len =
     Option.bind (Option.bind (checked_add 40 repo_len) (\<lambda>n. checked_add n runtime_len)) (\<lambda>n. checked_add n summary_len)"

definition decode_texts ::
  "byte list \<Rightarrow> nat \<Rightarrow> nat \<Rightarrow> MapState \<Rightarrow> u64 \<Rightarrow> u64 \<Rightarrow> (IoError, MapResult) res" where
  "decode_texts bytes repo_len runtime_len state file_count generated_at =
     (let repo_start = 40; runtime_start = repo_start + repo_len; summary_start = runtime_start + runtime_len in
      try_res (text_field bytes repo_start runtime_start ''map repo hash'') (\<lambda>repo_hash.
      try_res (text_field bytes runtime_start summary_start ''map runtime version'') (\<lambda>runtime_version.
      try_res (text_field bytes summary_start (length bytes) ''map summary'') (\<lambda>summary.
        Ok \<lparr>mr_schema = MAP_RESULT_SCHEMA_V1, mr_repo_hash = repo_hash, mr_runtime_version = runtime_version,
            mr_state = state, mr_summary = summary, mr_file_count = unat file_count,
            mr_generated_at_unix_ms = generated_at\<rparr>))))"

definition decode_map_result :: "byte list \<Rightarrow> (IoError, MapResult) res" where
  "decode_map_result bytes =
     (if length bytes < 40 then Err (InvalidData ''invalid map payload'')
      else try_res (slice bytes 0 4) (\<lambda>magic.
        if magic \<noteq> MAP_PAYLOAD_MAGIC then Err (InvalidData ''invalid map payload'')
        else try_res (read_le bytes 4 6) (\<lambda>version.
        if version \<noteq> MAP_PAYLOAD_VERSION then Err (InvalidData ''unsupported map payload version'')
        else try_res (read_le bytes 8 12) (\<lambda>repo_len :: u32.
        try_res (read_le bytes 12 16) (\<lambda>runtime_len :: u32.
        try_res (index bytes 16) (\<lambda>b.
        case byte_state b of
          None \<Rightarrow> Err (InvalidData ''invalid map state'')
        | Some state \<Rightarrow>
            try_res (read_le bytes 20 28) (\<lambda>file_count :: u64.
            try_res (read_le bytes 28 36) (\<lambda>generated_at :: u64.
            try_res (read_le bytes 36 40) (\<lambda>summary_len :: u32.
              if unat repo_len > MAX_MAP_FIELD_BYTES \<or> unat runtime_len > MAX_MAP_FIELD_BYTES
                 \<or> unat summary_len > MAX_MAP_FIELD_BYTES
              then Err (InvalidData ''map payload field exceeds limit'')
              else try_res (ok_or (InvalidData ''map payload length overflow'')
                  (payload_end (unat repo_len) (unat runtime_len) (unat summary_len))) (\<lambda>stop.
                if stop \<noteq> length bytes then Err (InvalidData ''map payload is truncated or has trailing bytes'')
                else decode_texts bytes (unat repo_len) (unat runtime_len) state file_count generated_at))))))))))"

section \<open>The cache\<close>

record MapCache =
  mc_dir :: path
  mc_entries :: "(string, MapResult) btree"

definition new_map_cache :: "path \<Rightarrow> MapCache" where
  "new_map_cache dir = \<lparr>mc_dir = dir, mc_entries = []\<rparr>"

definition cache_get :: "MapCache \<Rightarrow> string \<Rightarrow> string \<Rightarrow> MapResult option" where
  "cache_get c repo_hash runtime_version = bt_get (mc_entries c) (cache_key repo_hash runtime_version)"

definition cache_path :: "MapCache \<Rightarrow> string \<Rightarrow> string \<Rightarrow> path" where
  "cache_path c repo_hash runtime_version = mc_dir c @ [cache_file_name repo_hash runtime_version]"

text \<open>The map result of the only section of a container of the right schema, if it decodes.\<close>

definition read_container :: "(byte list \<Rightarrow> byte list) \<Rightarrow> byte list \<Rightarrow> (IoError, MapResult option) res" where
  "read_container sha bytes =
     (case hbi_open sha bytes of
        Err e \<Rightarrow> Ok None
      | Panic \<Rightarrow> Panic
      | Ok reader \<Rightarrow>
          if \<not> schema_matches sha reader MAP_RESULT_SCHEMA_V1 \<or> section_count reader \<noteq> 1 then Ok None
          else
            (case hbi_section reader 0 of
               Ok (Some (kind, payload)) \<Rightarrow>
                 if kind = MAP_SECTION_KIND then
                   (case decode_map_result payload of Ok r \<Rightarrow> Ok (Some r) | Err e \<Rightarrow> Ok None | Panic \<Rightarrow> Panic)
                 else Ok None
             | Ok None \<Rightarrow> Ok None
             | Err e \<Rightarrow> Ok None
             | Panic \<Rightarrow> Panic))"

definition cache_load ::
  "(byte list \<Rightarrow> byte list) \<Rightarrow> Reply \<Rightarrow> string \<Rightarrow> string \<Rightarrow> Fs \<Rightarrow> MapCache \<Rightarrow> MapCache \<times> (IoError, MapResult option) res" where
  "cache_load sha reply repo_hash runtime_version fs c =
     (case sys_read reply (cache_path c repo_hash runtime_version) fs of
        Err NotFound \<Rightarrow> (c, Ok None)
      | Err e \<Rightarrow> (c, Err e)
      | Panic \<Rightarrow> (c, Panic)
      | Ok bytes \<Rightarrow>
          st_try c (read_container sha bytes) (\<lambda>found.
            case found of
              None \<Rightarrow> (c, Ok None)
            | Some result \<Rightarrow>
                if mr_schema result \<noteq> MAP_RESULT_SCHEMA_V1 then (c, Ok None)
                else if mr_repo_hash result \<noteq> repo_hash \<or> mr_runtime_version result \<noteq> runtime_version then (c, Ok None)
                else
                  let key = cache_key repo_hash runtime_version;
                      c = c\<lparr>mc_entries := bt_insert key result (mc_entries c)\<rparr>
                  in (c, Ok (bt_get (mc_entries c) key))))"

definition encode_container :: "(byte list \<Rightarrow> byte list) \<Rightarrow> MapResult \<Rightarrow> (IoError, byte list) res" where
  "encode_container sha result =
     try_res (encode_map_result result) (\<lambda>payload.
       case encode_hbi sha MAP_RESULT_SCHEMA_V1 [\<lparr>sec_kind = MAP_SECTION_KIND, sec_bytes = payload\<rparr>] of
         Ok bytes \<Rightarrow> Ok bytes
       | Err e \<Rightarrow> Err (InvalidData [])
       | Panic \<Rightarrow> Panic)"

definition cache_put ::
  "(byte list \<Rightarrow> byte list) \<Rightarrow> nat \<Rightarrow> nat \<Rightarrow> Reply \<Rightarrow> (nat \<Rightarrow> Reply) \<Rightarrow> MapResult \<Rightarrow> Fs \<times> MapCache
     \<Rightarrow> (Fs \<times> MapCache) \<times> (IoError, unit) res" where
  "cache_put sha pid nonce mkdir env result = (\<lambda>(fs, c).
     if mr_schema result \<noteq> MAP_RESULT_SCHEMA_V1
     then ((fs, c), Err (InvalidData (''unsupported map result schema '' @ [CHR 0x27] @ mr_schema result @ [CHR 0x27] @ ''; expected '' @ [CHR 0x27] @ MAP_RESULT_SCHEMA_V1 @ [CHR 0x27])))
     else
       let key = cache_key (mr_repo_hash result) (mr_runtime_version result) in
       if bt_get (mc_entries c) key = Some result then ((fs, c), Ok ())
       else
         (case mkdir of
            Fault e \<Rightarrow> ((fs, c), Err (OsError e))
          | _ \<Rightarrow>
              let fs = sys_create_dir_all (mc_dir c) fs in
              st_try (fs, c) (encode_container sha result) (\<lambda>bytes.
                case write_atomically pid nonce env (cache_path c (mr_repo_hash result) (mr_runtime_version result)) bytes fs of
                  (fs, r) \<Rightarrow> st_try (fs, c) r (\<lambda>_.
                    ((fs, c\<lparr>mc_entries := bt_insert key result (mc_entries c)\<rparr>), Ok ())))))"

text \<open>\<open>Path::with_extension\<close>: what follows the last dot of the file name, unless the dot is its first character.\<close>

definition file_stem :: "string \<Rightarrow> string" where
  "file_stem name =
     (let before = rev (tl (dropWhile (\<lambda>c. c \<noteq> CHR ''.'') (rev name))) in
      if CHR ''.'' \<notin> set name \<or> before = [] then name else before)"

definition with_extension :: "path \<Rightarrow> string \<Rightarrow> path" where
  "with_extension p ext = (case file_name p of None \<Rightarrow> p | Some name \<Rightarrow> butlast p @ [file_stem name @ ''.'' @ ext])"

definition cache_migrate_legacy ::
  "(byte list \<Rightarrow> byte list) \<Rightarrow> (byte list \<Rightarrow> string + LegacyMapResult) \<Rightarrow> nat \<Rightarrow> nat \<Rightarrow> MigrationEnv \<Rightarrow> Reply
     \<Rightarrow> path \<Rightarrow> string \<Rightarrow> string \<Rightarrow> bool \<Rightarrow> Fs \<times> MapCache \<Rightarrow> (Fs \<times> MapCache) \<times> (IoError, MigrationOutcome) res" where
  "cache_migrate_legacy sha from_json pid nonce env reply legacy_path repo_hash runtime_version dry_run = (\<lambda>(fs, c).
     case migrate_bytes_atomically pid nonce env legacy_path (cache_path c repo_hash runtime_version)
       (with_extension legacy_path ''json.legacy.bak'') dry_run
       (\<lambda>bytes. try_res (decode_legacy_map from_json bytes repo_hash runtime_version) (encode_container sha)) fs of
       (fs, r) \<Rightarrow> st_try (fs, c) r (\<lambda>outcome.
         if \<not> dry_run then
           (case cache_load sha reply repo_hash runtime_version fs c of
              (c, r) \<Rightarrow> st_try (fs, c) r (\<lambda>_. ((fs, c), Ok outcome)))
         else ((fs, c), Ok outcome)))"

text \<open>\<open>str::strip_suffix\<close> and \<open>str::strip_prefix\<close>.\<close>

definition strip_suffix :: "string \<Rightarrow> string \<Rightarrow> string option" where
  "strip_suffix suf s =
     (if length suf \<le> length s \<and> drop (length s - length suf) s = suf then Some (take (length s - length suf) s) else None)"

definition strip_prefix :: "string \<Rightarrow> string \<Rightarrow> string option" where
  "strip_prefix pre s = (if starts_with s pre then Some (drop (length pre) s) else None)"

text \<open>
  \<open>invalidate_repo\<close>: \<open>listing\<close> is what \<open>read_dir\<close> yields, \<open>None\<close> if it fails; \<open>keeps\<close> tells the names whose
  removal fails.
\<close>

fun remove_listed :: "string \<Rightarrow> (string \<Rightarrow> bool) \<Rightarrow> path \<Rightarrow> string list \<Rightarrow> Fs \<times> string set \<Rightarrow> Fs \<times> string set" where
  "remove_listed pre keeps dir [] s = s"
| "remove_listed pre keeps dir (name # names) (fs, removed) =
     remove_listed pre keeps dir names
       (case strip_suffix ''.hbi'' name of
          None \<Rightarrow> (fs, removed)
        | Some key \<Rightarrow>
            if starts_with key pre \<and> \<not> keeps name then (sys_remove (dir @ [name]) fs, insert key removed) else (fs, removed))"

definition cache_invalidate_repo ::
  "(string list) option \<Rightarrow> (string \<Rightarrow> bool) \<Rightarrow> string \<Rightarrow> Fs \<times> MapCache \<Rightarrow> (Fs \<times> MapCache) \<times> nat" where
  "cache_invalidate_repo listing keeps repo_hash = (\<lambda>(fs, c).
     let pre = repo_hash @ ''-'';
         stale = filter (\<lambda>(key, _). starts_with key pre) (mc_entries c);
         c = c\<lparr>mc_entries := filter (\<lambda>(key, _). \<not> starts_with key pre) (mc_entries c)\<rparr>;
         (fs, removed) =
           (case listing of
              None \<Rightarrow> (fs, set (map fst stale))
            | Some names \<Rightarrow> remove_listed pre keeps (mc_dir c) names (fs, set (map fst stale)))
     in ((fs, c), card removed))"

section \<open>The bounded summary\<close>

definition MARKER :: string where
  "MARKER = [CHR 0x0A, CHR 0xE2, CHR 0x80, CHR 0xA6] @ ''(truncated to fit context budget)''"

definition budgeted_summary :: "string \<Rightarrow> nat \<Rightarrow> string" where
  "budgeted_summary summary budget_chars =
     (if length (chars_of summary) \<le> budget_chars then summary
      else if budget_chars = 0 then []
      else
        let marker_chars = length (chars_of MARKER) in
        if marker_chars \<ge> budget_chars then concat (take budget_chars (chars_of summary))
        else
          let keep = budget_chars - marker_chars in concat (take keep (chars_of summary)) @ MARKER)"

section \<open>The identity of a repository\<close>

text \<open>
  Components of a path text, and the lookup of a path with its parent references resolved (there are
  no symbolic links in the model).
\<close>

fun split_slash :: "string \<Rightarrow> string list" where
  "split_slash [] = [[]]"
| "split_slash (c # s) =
     (if c = CHR ''/'' then [] # split_slash s
      else case split_slash s of [] \<Rightarrow> [[c]] | p # ps \<Rightarrow> (c # p) # ps)"

definition components :: "string \<Rightarrow> path" where
  "components s = filter (\<lambda>c. c \<noteq> [] \<and> c \<noteq> ''.'') (split_slash s)"

definition is_absolute :: "string \<Rightarrow> bool" where
  "is_absolute s \<longleftrightarrow> starts_with s ''/''"

definition path_join :: "path \<Rightarrow> string \<Rightarrow> path" where
  "path_join base s = (if is_absolute s then components s else base @ components s)"

definition resolve :: "path \<Rightarrow> path" where
  "resolve p = foldl (\<lambda>acc c. if c = ''..'' then butlast acc else acc @ [c]) [] p"

definition read_to_string :: "Fs \<Rightarrow> path \<Rightarrow> string option" where
  "read_to_string fs p = Option.bind (fs_files fs (resolve p)) from_utf8"

definition resolve_git_dir :: "Fs \<Rightarrow> path \<Rightarrow> path option" where
  "resolve_git_dir fs repo_root =
     (let dot_git = repo_root @ [''.git''] in
      if resolve dot_git \<in> fs_dirs fs then Some dot_git
      else Option.bind (read_to_string fs dot_git) (\<lambda>contents.
        Option.bind (strip_prefix ''gitdir:'' (trim_str contents)) (\<lambda>pointer.
          Some (path_join repo_root (trim_str pointer)))))"

definition read_git_head :: "Fs \<Rightarrow> path \<Rightarrow> string option" where
  "read_git_head fs repo_root =
     Option.bind (resolve_git_dir fs repo_root) (\<lambda>git_dir. map_option trim_str (read_to_string fs (git_dir @ [''HEAD''])))"

definition read_git_branch :: "Fs \<Rightarrow> path \<Rightarrow> string option" where
  "read_git_branch fs repo_root =
     Option.bind (read_git_head fs repo_root) (\<lambda>head.
       case strip_prefix ''ref: refs/heads/'' head of
         Some branch \<Rightarrow> Some (trim_str branch)
       | None \<Rightarrow> Some head)"

text \<open>\<open>str::lines\<close> and the first two fields of \<open>split_whitespace\<close>.\<close>

fun split_lines :: "string \<Rightarrow> string list" where
  "split_lines [] = []"
| "split_lines (c # s) =
     (if c = CHR 0x0A then [] # split_lines s
      else case split_lines s of [] \<Rightarrow> [[c]] | l # ls \<Rightarrow> (c # l) # ls)"

definition chomp :: "string \<Rightarrow> string" where
  "chomp l = (if l \<noteq> [] \<and> last l = CHR 0x0D then butlast l else l)"

fun fields_of :: "string list \<Rightarrow> string list" where
  "fields_of [] = []"
| "fields_of (c # cs) =
     (if whitespace_at c then [] # fields_of cs
      else case fields_of cs of [] \<Rightarrow> [c] | f # fs \<Rightarrow> (c @ f) # fs)"

definition split_whitespace :: "string \<Rightarrow> string list" where
  "split_whitespace s = filter (\<lambda>f. f \<noteq> []) (fields_of (chars_of s))"

definition packed_object_id :: "string \<Rightarrow> string \<Rightarrow> string option" where
  "packed_object_id reference line =
     (case split_whitespace line of
        object_id # packed_ref # _ \<Rightarrow> if packed_ref = reference then Some object_id else None
      | _ \<Rightarrow> None)"

fun find_map :: "('a \<Rightarrow> 'b option) \<Rightarrow> 'a list \<Rightarrow> 'b option" where
  "find_map f [] = None"
| "find_map f (x # xs) = (case f x of Some y \<Rightarrow> Some y | None \<Rightarrow> find_map f xs)"

definition read_git_head_object_id :: "Fs \<Rightarrow> path \<Rightarrow> string \<Rightarrow> string option" where
  "read_git_head_object_id fs repo_root head =
     Option.bind (resolve_git_dir fs repo_root) (\<lambda>git_dir.
       case strip_prefix ''ref: '' head of
         Some reference \<Rightarrow>
           (case map_option trim_str (read_to_string fs (path_join git_dir reference)) of
              Some (c # cs) \<Rightarrow> Some (c # cs)
            | _ \<Rightarrow>
                Option.bind (read_to_string fs (git_dir @ [''packed-refs''])) (\<lambda>packed_refs.
                  find_map (packed_object_id reference) (map chomp (split_lines packed_refs))))
       | None \<Rightarrow> (if head \<noteq> [] then Some head else None))"

definition unwrap_or_default :: "string option \<Rightarrow> string" where
  "unwrap_or_default s = (case s of Some t \<Rightarrow> t | None \<Rightarrow> [])"

definition path_string :: "path \<Rightarrow> string" where
  "path_string p = concat (map (\<lambda>c. CHR ''/'' # c) p)"

definition repo_identity :: "(path \<Rightarrow> path option) \<Rightarrow> Fs \<Rightarrow> path \<Rightarrow> byte list" where
  "repo_identity canonicalize fs repo_root =
     (let head = unwrap_or_default (read_git_head fs repo_root);
          head_object_id = unwrap_or_default (read_git_head_object_id fs repo_root head);
          branch = unwrap_or_default (read_git_branch fs repo_root);
          worktree = (case canonicalize repo_root of Some p \<Rightarrow> p | None \<Rightarrow> repo_root)
      in as_bytes head @ [0] @ as_bytes head_object_id @ [0] @ as_bytes branch @ [0] @ as_bytes (path_string worktree))"

definition compute_repo_hash :: "(byte list \<Rightarrow> string) \<Rightarrow> (path \<Rightarrow> path option) \<Rightarrow> Fs \<Rightarrow> path \<Rightarrow> string" where
  "compute_repo_hash blake3_hex canonicalize fs repo_root = blake3_hex (repo_identity canonicalize fs repo_root)"

end
