(* ===== verification/Map_Cache_Properties.thy ===== *)
theory Map_Cache_Properties
  imports Map_Cache
begin

text \<open>
  What the map cache promises: a stored map is loaded back, no hostile file makes the reader panic, no
  map is served for another repository or Runtime version, the summary never exceeds its budget; and
  what the identity of a repository does not notice.
\<close>

section \<open>The payload\<close>

definition payload_front :: "MapResult \<Rightarrow> byte list" where
  "payload_front r = MAP_PAYLOAD_MAGIC @ le16 MAP_PAYLOAD_VERSION @ [0, 0]
     @ le32 (of_nat (length (mr_repo_hash r))) @ le32 (of_nat (length (mr_runtime_version r)))
     @ [state_byte (mr_state r)] @ [0, 0, 0]
     @ le64 (of_nat (mr_file_count r)) @ le64 (mr_generated_at_unix_ms r) @ le32 (of_nat (length (mr_summary r)))"

definition payload_texts :: "MapResult \<Rightarrow> byte list" where
  "payload_texts r = as_bytes (mr_repo_hash r) @ as_bytes (mr_runtime_version r) @ as_bytes (mr_summary r)"

lemma length_magic [simp]: "length MAP_PAYLOAD_MAGIC = 4"
  by (simp add: MAP_PAYLOAD_MAGIC_def)

lemma length_front [simp]: "length (payload_front r) = 40"
  by (simp add: payload_front_def)

lemma encode_map_result_Ok:
  "encode_map_result r = Ok bytes \<longleftrightarrow>
     bytes = payload_front r @ payload_texts r \<and> length (mr_repo_hash r) \<le> MAX_MAP_FIELD_BYTES
     \<and> length (mr_runtime_version r) \<le> MAX_MAP_FIELD_BYTES \<and> length (mr_summary r) \<le> MAX_MAP_FIELD_BYTES"
  by (auto simp: encode_map_result_def payload_front_def payload_texts_def not_less)

lemma slice_front: "j \<le> length xs \<Longrightarrow> slice (xs @ ys) i j = slice xs i j"
  by (simp add: slice_def get_slice_def)

lemma front_slices:
  "slice (payload_front r) 0 4 = Ok MAP_PAYLOAD_MAGIC"
  "slice (payload_front r) 4 6 = Ok (le16 MAP_PAYLOAD_VERSION)"
  "slice (payload_front r) 8 12 = Ok (le32 (of_nat (length (mr_repo_hash r))))"
  "slice (payload_front r) 12 16 = Ok (le32 (of_nat (length (mr_runtime_version r))))"
  "slice (payload_front r) 20 28 = Ok (le64 (of_nat (mr_file_count r)))"
  "slice (payload_front r) 28 36 = Ok (le64 (mr_generated_at_unix_ms r))"
  "slice (payload_front r) 36 40 = Ok (le32 (of_nat (length (mr_summary r))))"
  "payload_front r ! 16 = state_byte (mr_state r)"
  by (simp_all add: slice_iffs) (simp_all add: payload_front_def nth_append)

lemma byte_state_byte [simp]: "byte_state (state_byte s) = Some s"
  by (cases s) (simp_all add: byte_state_def)

text \<open>What the types of the fields guarantee: valid text, and a count that fits.\<close>

definition storable :: "MapResult \<Rightarrow> bool" where
  "storable r \<longleftrightarrow> mr_schema r = MAP_RESULT_SCHEMA_V1 \<and> utf8_valid (mr_repo_hash r) \<and> utf8_valid (mr_runtime_version r)
     \<and> utf8_valid (mr_summary r) \<and> mr_file_count r < 2 ^ 64"

lemma decode_encode_map:
  assumes "encode_map_result r = Ok bytes" and "storable r"
  shows "decode_map_result bytes = Ok r"
proof -
  from assms(1) have b: "bytes = payload_front r @ payload_texts r"
    and lens: "length (mr_repo_hash r) \<le> MAX_MAP_FIELD_BYTES" "length (mr_runtime_version r) \<le> MAX_MAP_FIELD_BYTES"
      "length (mr_summary r) \<le> MAX_MAP_FIELD_BYTES"
    by (simp_all add: encode_map_result_Ok)
  have fit: "unat (of_nat n :: u32) = n" if "n \<le> MAX_MAP_FIELD_BYTES" for n
    using that by (simp add: MAX_MAP_FIELD_BYTES_def unat_of_nat take_bit_nat_eq_self)
  have cnt: "unat (of_nat (mr_file_count r) :: u64) = mr_file_count r"
    using assms(2) by (simp add: storable_def unat_of_nat take_bit_nat_eq_self)
  have stop: "payload_end (length (mr_repo_hash r)) (length (mr_runtime_version r)) (length (mr_summary r)) = Some (length bytes)"
    using lens by (simp add: payload_end_def checked_add_def usize_lim_def MAX_MAP_FIELD_BYTES_def b payload_texts_def)
  have texts: "decode_texts bytes (length (mr_repo_hash r)) (length (mr_runtime_version r)) (mr_state r)
      (of_nat (mr_file_count r)) (mr_generated_at_unix_ms r) = Ok r"
  proof -
    have "slice bytes 40 (40 + length (mr_repo_hash r)) = (Ok (as_bytes (mr_repo_hash r)) :: (IoError, _) res)"
      "slice bytes (40 + length (mr_repo_hash r)) (40 + length (mr_repo_hash r) + length (mr_runtime_version r))
         = (Ok (as_bytes (mr_runtime_version r)) :: (IoError, _) res)"
      "slice bytes (40 + length (mr_repo_hash r) + length (mr_runtime_version r)) (length bytes)
         = (Ok (as_bytes (mr_summary r)) :: (IoError, _) res)"
      by (simp_all add: slice_iffs b payload_texts_def)
    with assms(2) cnt show ?thesis
      by (simp add: decode_texts_def Let_def text_field_def storable_def)
  qed
  have "length bytes \<ge> 40" by (simp add: b)
  then show ?thesis
    using lens texts
    by (simp add: decode_map_result_def read_le_def b slice_front front_slices index_def nth_append fit
        stop [unfolded b] MAP_PAYLOAD_VERSION_def)
qed

lemma decode_map_no_panic: "decode_map_result bytes \<noteq> Panic"
proof -
  have "decode_texts bytes a b s f g \<noteq> Panic" if "payload_end a b c = Some (length bytes)" for a b c s f g
  proof -
    from that have "40 + a + b + c = length bytes"
      by (auto simp: payload_end_def checked_add_def bind_eq_Some_conv split: if_splits)
    then show ?thesis by (auto simp: decode_texts_def Let_def text_field_def res_simps)
  qed
  then show ?thesis
    by (auto simp: decode_map_result_def read_le_def res_simps split: option.splits)
qed

section \<open>The container\<close>

lemma read_container_no_panic: "read_container sha bytes \<noteq> Panic"
proof -
  have "hbi_section r 0 \<noteq> Panic" if "hbi_open sha bytes = Ok r" for r
    using hbi_open_wf [OF that] accepted_section_data [of sha r 0]
    by (cases "0 < length (rd_sections r)") (auto simp: hbi_section_def)
  then show ?thesis
    using hbi_open_never_panics [of sha bytes] decode_map_no_panic
    by (auto simp: read_container_def split: res.splits option.splits prod.splits)
qed

lemma read_encode_container:
  assumes enc: "encode_container sha r = Ok bytes" and sha: "\<forall>x. length (sha x) = 32" and r: "storable r"
  shows "read_container sha bytes = Ok (Some r)"
proof -
  let ?d = "sha (as_bytes MAP_RESULT_SCHEMA_V1)"
  from enc obtain payload where p: "encode_map_result r = Ok payload"
    by (auto simp: encode_container_def try_res_Ok_iff)
  with enc have e: "encode_hbi_with_identity sha (take 16 ?d) ?d 0 [\<lparr>wf_kind = MAP_SECTION_KIND, wf_flags = 0, wf_bytes = payload\<rparr>] = Ok bytes"
    by (simp add: encode_container_def encode_hbi_def schema_identity_def Let_def split: res.splits)
  have id: "length (take 16 ?d) = 16" "length ?d = 32" using sha by simp_all
  note o = encode_open_hbi [OF e sha id] and s = encoded_section(1) [OF e sha id, where i = 0]
  have "length (place n [x]) = 1" for n and x :: HbiSectionWithFlags by simp
  then show ?thesis
    using s [OF o] decode_encode_map [OF p r]
    by (simp add: read_container_def o schema_matches_def schema_identity_def Let_def section_count_def)
qed

section \<open>Loading and storing\<close>

text \<open>A load either serves a map of exactly the identity asked for, or changes nothing; it never panics.\<close>

definition serves :: "string \<Rightarrow> string \<Rightarrow> MapResult \<Rightarrow> bool" where
  "serves repo ver r \<longleftrightarrow> mr_repo_hash r = repo \<and> mr_runtime_version r = ver \<and> mr_schema r = MAP_RESULT_SCHEMA_V1"

definition remember :: "MapResult \<Rightarrow> MapCache \<Rightarrow> MapCache" where
  "remember r c = c\<lparr>mc_entries := bt_insert (cache_key (mr_repo_hash r) (mr_runtime_version r)) r (mc_entries c)\<rparr>"

lemma cache_load_bytes:
  assumes "sys_read reply (cache_path c repo ver) fs = Ok bytes"
  shows "cache_load sha reply repo ver fs c =
    (case read_container sha bytes of
       Ok (Some r) \<Rightarrow> if serves repo ver r then (remember r c, Ok (Some r)) else (c, Ok None)
     | Ok None \<Rightarrow> (c, Ok None) | Err e \<Rightarrow> (c, Err e) | Panic \<Rightarrow> (c, Panic))"
  using assms
  by (simp add: cache_load_def serves_def remember_def Let_def bt_get_insert st_try_eq split: res.split option.split)

lemma cache_load_cases:
  obtains (miss) "cache_load sha reply repo ver fs c = (c, Ok None)"
    | (fail) e where "cache_load sha reply repo ver fs c = (c, Err e)"
    | (hit) r where "cache_load sha reply repo ver fs c = (remember r c, Ok (Some r))" and "serves repo ver r"
proof (cases "sys_read reply (cache_path c repo ver) fs")
  case (Ok bytes)
  note l = cache_load_bytes [OF Ok, of sha]
  show thesis
  proof (cases "read_container sha bytes")
    case (Ok found)
    show thesis
    proof (cases found)
      case (Some r)
      with l Ok miss hit show thesis by (cases "serves repo ver r") simp_all
    qed (use l Ok miss in simp)
  next
    case Panic
    with read_container_no_panic show thesis by blast
  qed (use l fail in simp)
next
  case (Err e)
  with miss fail show thesis by (cases e) (simp_all add: cache_load_def)
qed (cases reply; simp add: res_simps)

lemma cache_put_Ok:
  assumes "cache_put sha pid nonce mkdir env r (fs, c) = ((fs', c'), Ok ())"
    and "cache_get c (mr_repo_hash r) (mr_runtime_version r) \<noteq> Some r"
  obtains bytes where "encode_container sha r = Ok bytes"
    and "fs_files fs' (cache_path c (mr_repo_hash r) (mr_runtime_version r)) = Some bytes"
    and "c' = remember r c"
    and "mr_schema r = MAP_RESULT_SCHEMA_V1"
proof -
  let ?p = "cache_path c (mr_repo_hash r) (mr_runtime_version r)"
  have p: "?p \<noteq> []" by (simp add: cache_path_def)
  from assms obtain bytes where e: "encode_container sha r = Ok bytes"
    by (cases "encode_container sha r") (auto simp: cache_put_def cache_get_def Let_def split: if_splits Reply.splits)
  obtain fs1 res where w: "write_atomically pid nonce env ?p bytes (sys_create_dir_all (mc_dir c) fs) = (fs1, res)" by fastforce
  with assms e obtain u where "write_atomically pid nonce env ?p bytes (sys_create_dir_all (mc_dir c) fs) = (fs', Ok u)"
    and "c' = remember r c" and "mr_schema r = MAP_RESULT_SCHEMA_V1"
    by (cases res) (auto simp: cache_put_def cache_get_def remember_def Let_def split: if_splits Reply.splits)
  moreover from this(1) write_target(2) [OF _ p] have "fs_files fs' ?p = Some bytes" by blast
  ultimately show thesis using e by (intro that)
qed


definition demo_map :: MapResult where
  "demo_map = new_map_result 99 ''r1'' ''1.0'' Ready ''src: 12 files'' 12"

lemma demo_storable: "storable demo_map"
  by (simp add: demo_map_def new_map_result_def storable_def)

lemma demo_container: obtains bytes where "encode_container flat_sha demo_map = Ok bytes"
proof -
  let ?d = "flat_sha (as_bytes MAP_RESULT_SCHEMA_V1)"
  have "length ?d = 32" "length (take 16 ?d) = 16" using flat_sha_length by simp_all
  moreover obtain payload where p: "encode_map_result demo_map = Ok payload" and "length payload = 58"
    by (simp add: encode_map_result_Ok demo_map_def new_map_result_def payload_texts_def MAX_MAP_FIELD_BYTES_def)
  moreover define ss where "ss = [\<lparr>wf_kind = MAP_SECTION_KIND, wf_flags = 0, wf_bytes = payload\<rparr>]"
  ultimately have "encode_hbi_with_identity flat_sha (take 16 ?d) ?d 0 ss = Ok (hbi_layout flat_sha (take 16 ?d) ?d 0 ss)"
    using encode_hbi_Ok [of ss flat_sha "take 16 ?d" ?d 0] flat_sha_length by (simp add: layout_total_def align8_def)
  with p that show thesis
    by (simp add: encode_container_def encode_hbi_def schema_identity_def Let_def ss_def)
qed

lemma demo_put:
  obtains fs' c' where "cache_put flat_sha 1 0 Proceed (\<lambda>_. Proceed) demo_map (empty_fs, new_map_cache [''c'']) = ((fs', c'), Ok ())"
proof -
  obtain bytes where e: "encode_container flat_sha demo_map = Ok bytes" using demo_container .
  let ?p = "cache_path (new_map_cache [''c'']) ''r1'' ''1.0''"
  have "snd (write_atomically 1 0 (\<lambda>_. Proceed) ?p bytes (sys_create_dir_all [''c''] empty_fs)) = Ok ()"
    by (rule publication_succeeds)
      (simp_all add: cache_path_def new_map_cache_def empty_fs_def sys_create_dir_all_def temp_path_def target_dir_def
        cache_file_name_def cache_key_def parent_def file_name_def)
  then show thesis using that e
    by (cases "write_atomically 1 0 (\<lambda>_. Proceed) ?p bytes (sys_create_dir_all [''c''] empty_fs)")
      (simp add: cache_put_def demo_map_def new_map_result_def new_map_cache_def st_try_eq)
qed


section \<open>The cache as a state machine\<close>

text \<open>
  The operations of a cache over a file system on which other programs write as they like: \<open>MMeddle\<close> is
  any change of the files.
\<close>

inductive cache_step :: "Fs \<times> MapCache \<Rightarrow> Fs \<times> MapCache \<Rightarrow> bool" where
  MPut: "cache_put sha pid nonce mkdir env r s = (t, res) \<Longrightarrow> cache_step s t"
| MLoad: "cache_load sha reply repo ver fs c = (c', res) \<Longrightarrow> cache_step (fs, c) (fs, c')"
| MInvalidate: "cache_invalidate_repo listing keeps repo s = (t, n) \<Longrightarrow> cache_step s t"
| MMigrate: "cache_migrate_legacy sha from_json pid nonce menv reply legacy repo ver dry_run s = (t, mres) \<Longrightarrow> cache_step s t"
| MMeddle: "cache_step (fs, c) (fs', c)"

definition cache_init :: "Fs \<times> MapCache \<Rightarrow> bool" where
  "cache_init = (\<lambda>(fs, c). c = new_map_cache (mc_dir c))"

text \<open>Every map in memory is filed under its own identity.\<close>

definition filed :: "string \<Rightarrow> MapResult \<Rightarrow> bool" where
  "filed key r \<longleftrightarrow> key = cache_key (mr_repo_hash r) (mr_runtime_version r) \<and> mr_schema r = MAP_RESULT_SCHEMA_V1"

definition cache_inv :: "Fs \<times> MapCache \<Rightarrow> bool" where
  "cache_inv s \<longleftrightarrow> bt_inv (mc_entries (snd s)) \<and> (\<forall>key r. bt_get (mc_entries (snd s)) key = Some r \<longrightarrow> filed key r)"

lemma cache_inv_remember:
  assumes "cache_inv (fs, c)" and "mr_schema r = MAP_RESULT_SCHEMA_V1"
  shows "cache_inv (fs', remember r c)"
  using assms by (simp add: cache_inv_def remember_def bt_inv_insert bt_get_insert filed_def)

lemma cache_inv_load:
  assumes "cache_inv (fs, c)" and "cache_load sha reply repo ver fs2 c = (c', res)"
  shows "cache_inv (fs', c')"
proof (cases rule: cache_load_cases [of sha reply repo ver fs2 c])
  case (hit r)
  with assms cache_inv_remember show ?thesis by (auto simp: serves_def)
qed (use assms in \<open>simp_all add: cache_inv_def\<close>)

lemma cache_put_state:
  assumes "cache_put sha pid nonce mkdir env r (fs, c) = ((fs', c'), res)"
  shows "c' = c \<or> c' = remember r c \<and> mr_schema r = MAP_RESULT_SCHEMA_V1"
proof (cases "encode_container sha r")
  case (Ok bytes)
  obtain fs1 w where "write_atomically pid nonce env (cache_path c (mr_repo_hash r) (mr_runtime_version r)) bytes
      (sys_create_dir_all (mc_dir c) fs) = (fs1, w)" by fastforce
  with Ok assms show ?thesis
    by (cases w) (auto simp: cache_put_def remember_def Let_def split: if_splits Reply.splits)
qed (use assms in \<open>auto simp: cache_put_def Let_def split: if_splits Reply.splits\<close>)

lemma cache_migrate_state:
  assumes "cache_migrate_legacy sha from_json pid nonce menv reply legacy repo ver dry_run (fs, c) = ((fs', c'), res)"
  shows "c' = c \<or> (\<exists>fs2 res'. cache_load sha reply repo ver fs2 c = (c', res'))"
proof -
  obtain fs1 m where m: "migrate_bytes_atomically pid nonce menv legacy (cache_path c repo ver)
       (with_extension legacy ''json.legacy.bak'') dry_run
       (\<lambda>bytes. try_res (decode_legacy_map from_json bytes repo ver) (encode_container sha)) fs = (fs1, m)" by fastforce
  obtain c1 l where l: "cache_load sha reply repo ver fs1 c = (c1, l)" by fastforce
  with m assms show ?thesis
    by (cases m; cases l; cases dry_run) (auto simp: cache_migrate_legacy_def)
qed

lemma bt_get_filter: "bt_inv m \<Longrightarrow> bt_get (filter P m) k = Some v \<Longrightarrow> bt_get m k = Some v"
  by (induction m) (auto simp: bt_inv_def bt_get_Some split: if_splits)

lemma bt_inv_filter: "bt_inv m \<Longrightarrow> bt_inv (filter P m)"
  unfolding bt_inv_def by (induction m) auto

lemma cache_invalidate_entries:
  "cache_invalidate_repo listing keeps repo (fs, c) = ((fs', c'), n) \<Longrightarrow>
     c' = c\<lparr>mc_entries := filter (\<lambda>(key, _). \<not> starts_with key (repo @ ''-'')) (mc_entries c)\<rparr>"
  by (auto simp: cache_invalidate_repo_def Let_def split: prod.splits option.splits)

lemma cache_inv_step:
  assumes "cache_inv s" and "cache_step s t"
  shows "cache_inv t"
  using assms(2,1)
proof (induction rule: cache_step.induct)
  case (MPut sha pid nonce mkdir env r s t res)
  then show ?case
    using cache_put_state [of sha pid nonce mkdir env r "fst s" "snd s" "fst t" "snd t" res] cache_inv_remember
    by (cases s; cases t) (auto simp: cache_inv_def)
next
  case (MLoad sha reply repo ver fs c c' res)
  then show ?case using cache_inv_load by blast
next
  case (MInvalidate listing keeps repo s t n)
  obtain fs c fs' c' where "s = (fs, c)" "t = (fs', c')" by fastforce
  with MInvalidate cache_invalidate_entries [of listing keeps repo fs c fs' c' n] show ?case
    by (auto simp: cache_inv_def bt_inv_filter dest: bt_get_filter)
next
  case (MMigrate sha from_json pid nonce menv reply legacy repo ver dry_run s t mres)
  obtain fs c fs' c' where "s = (fs, c)" "t = (fs', c')" by fastforce
  with MMigrate cache_migrate_state [of sha from_json pid nonce menv reply legacy repo ver dry_run fs c fs' c' mres]
  show ?case using cache_inv_load [of fs c] by (auto simp: cache_inv_def)
qed (simp add: cache_inv_def)

lemma cache_inv_init: "cache_init s \<Longrightarrow> cache_inv s"
proof -
  assume "cache_init s"
  then obtain fs dir where "s = (fs, new_map_cache dir)" by (cases s) (auto simp: cache_init_def)
  then show "cache_inv s" by (simp add: cache_inv_def new_map_cache_def bt_inv_def)
qed

interpretation map_cache: invariant_system cache_init cache_step cache_inv
  by unfold_locales (fact cache_inv_init, fact cache_inv_step)

text \<open>A repository hash is a hexadecimal text, so it has no dash; then a key names one identity.\<close>

lemma cache_key_inject:
  assumes "cache_key a v = cache_key b w" and "CHR ''-'' \<notin> set a" and "CHR ''-'' \<notin> set b"
  shows "a = b \<and> v = w"
proof -
  have "takeWhile ((\<noteq>) (CHR ''-'')) (cache_key x u) = x" if "CHR ''-'' \<notin> set x" for x u
    using that by (induction x) (auto simp: cache_key_def)
  with assms show ?thesis by (metis append_same_eq cache_key_def same_append_eq)
qed



text \<open>
  With dashes two identities share a key, and \<open>get\<close>, which compares nothing but the key, returns the map of
  the other: repository \<open>a\<close> at version \<open>b-c\<close> receives the map of repository \<open>a-b\<close> at version \<open>c\<close>.
\<close>

lemma get_confuses_dashed_identities:
  assumes "mr_repo_hash r = ''a-b''" and "mr_runtime_version r = ''c''"
  shows "cache_get (remember r c) ''a'' ''b-c'' = Some r"
  using assms by (simp add: cache_get_def remember_def cache_key_def bt_get_insert)

section \<open>Invalidation\<close>

definition stale_name :: "string \<Rightarrow> string \<Rightarrow> bool" where
  "stale_name pre name \<longleftrightarrow> (\<exists>key. strip_suffix ''.hbi'' name = Some key \<and> starts_with key pre)"

lemma remove_listed_files:
  "fs_files (fst (remove_listed pre keeps dir names (fs, removed))) q =
     (if \<exists>name \<in> set names. q = dir @ [name] \<and> stale_name pre name \<and> \<not> keeps name then None else fs_files fs q)"
proof (induction names arbitrary: fs removed q)
  case (Cons name names)
  have step: "remove_listed pre keeps dir (name # names) (fs, removed) =
      remove_listed pre keeps dir names
        (if stale_name pre name \<and> \<not> keeps name then (sys_remove (dir @ [name]) fs, insert (the (strip_suffix ''.hbi'' name)) removed)
         else (fs, removed))"
    by (auto simp: stale_name_def split: option.splits)
  show ?case unfolding step by (auto simp: Cons.IH sys_remove_def)
qed simp

lemma cache_name_stale: "stale_name (repo @ ''-'') (cache_file_name repo ver)"
  by (simp add: stale_name_def strip_suffix_def cache_file_name_def cache_key_def starts_with_def)

text \<open>
  Invalidating a repository is complete. When the directory can be listed and its files removed, then
  for no version is a map of that repository found afterwards, in memory or on disk; and every other file
  keeps its contents.
\<close>

theorem invalidation_is_complete:
  assumes "cache_invalidate_repo (Some names) keeps repo (fs, c) = ((fs', c'), n)"
    and "\<forall>name. fs_files fs (mc_dir c @ [name]) \<noteq> None \<longrightarrow> name \<in> set names" and "\<forall>name. \<not> keeps name"
  shows "cache_get c' repo ver = None \<and> cache_load sha Proceed repo ver fs' c' = (c', Ok None)
    \<and> (\<forall>q. fs_files fs' q \<noteq> fs_files fs q \<longrightarrow> (\<exists>name. q = mc_dir c @ [name] \<and> stale_name (repo @ ''-'') name))"
proof -
  have c': "c' = c\<lparr>mc_entries := filter (\<lambda>(key, _). \<not> starts_with key (repo @ ''-'')) (mc_entries c)\<rparr>"
    using assms(1) by (rule cache_invalidate_entries)
  define keys where "keys = set (map fst (filter (\<lambda>(key, _). starts_with key (repo @ ''-'')) (mc_entries c)))"
  obtain fs1 removed where r: "remove_listed (repo @ ''-'') keeps (mc_dir c) names (fs, keys) = (fs1, removed)" by fastforce
  have "fs' = fs1" using assms(1) r unfolding cache_invalidate_repo_def Let_def keys_def by (simp del: set_map set_filter)
  with r have "fs' = fst (remove_listed (repo @ ''-'') keeps (mc_dir c) names (fs, keys))" by simp
  then have files: "fs_files fs' q = (if \<exists>name \<in> set names. q = mc_dir c @ [name] \<and> stale_name (repo @ ''-'') name
      then None else fs_files fs q)" for q using assms(3) by (simp add: remove_listed_files)
  have key: "cache_key repo ver \<notin> fst ` set (mc_entries c')"
    by (auto simp: c' cache_key_def starts_with_def)
  have "fs_files fs' (cache_path c' repo ver) = None"
    using assms(2) cache_name_stale [of repo ver] by (cases "fs_files fs (cache_path c' repo ver)") (auto simp: files cache_path_def c')
  with key files show ?thesis
    by (auto simp: cache_get_def bt_get_None cache_load_def split: if_splits)
qed

definition demo_fs :: Fs where
  "demo_fs = empty_fs\<lparr>fs_files := [[''c'', ''r1-1.0.hbi''] \<mapsto> [1, 2]]\<rparr>"

definition demo_cache :: MapCache where
  "demo_cache = remember demo_map (new_map_cache [''c''])"

lemma invalidation_is_complete_witness:
  "\<exists>fs' c' n. cache_invalidate_repo (Some [''r1-1.0.hbi'']) (\<lambda>_. False) ''r1'' (demo_fs, demo_cache) = ((fs', c'), n)
     \<and> cache_get demo_cache ''r1'' ''1.0'' \<noteq> None \<and> cache_get c' ''r1'' ''1.0'' = None"
proof -
  obtain s' n where "cache_invalidate_repo (Some [''r1-1.0.hbi'']) (\<lambda>_. False) ''r1'' (demo_fs, demo_cache) = (s', n)"
    by (rule prod.exhaust)
  then obtain fs' c' where i: "cache_invalidate_repo (Some [''r1-1.0.hbi'']) (\<lambda>_. False) ''r1'' (demo_fs, demo_cache) = ((fs', c'), n)"
    by (cases s') simp
  have "\<forall>name. fs_files demo_fs (mc_dir demo_cache @ [name]) \<noteq> None \<longrightarrow> name \<in> set [''r1-1.0.hbi'']"
    by (simp add: demo_fs_def empty_fs_def demo_cache_def remember_def new_map_cache_def)
  moreover have "cache_get demo_cache ''r1'' ''1.0'' \<noteq> None"
    by (simp add: demo_cache_def cache_get_def remember_def demo_map_def new_map_result_def bt_get_insert)
  ultimately show ?thesis
    using invalidation_is_complete [OF i, of "''1.0''"] i by auto
qed

section \<open>The summary budget\<close>

lemma utf8_tail_prefix:
  assumes "utf8_tail s = Some r"
  obtains ch where "s = ch @ r" and "\<forall>t. utf8_tail (ch @ t) = Some t"
proof (cases s)
  case (Cons a cs)
  show thesis
    using assms that [of "take (length s - length r) s"] unfolding Cons
    by (simp split: if_splits list.splits)
qed (use assms in simp)

lemma chars_of_append:
  "k \<le> length (chars_of s) \<Longrightarrow> chars_of (concat (take k (chars_of s)) @ t) = take k (chars_of s) @ chars_of t"
proof (induction s arbitrary: k rule: chars_of.induct)
  case (1 s)
  show ?case
  proof (cases "utf8_tail s")
    case None
    then have "chars_of s = []" by (subst chars_of.simps) simp
    with 1 show ?thesis by simp
  next
    case (Some r)
    obtain ch where ch: "s = ch @ r" "\<forall>t. utf8_tail (ch @ t) = Some t" using utf8_tail_prefix [OF Some] .
    have head: "chars_of (ch @ t) = ch # chars_of t" for t by (subst chars_of.simps) (simp add: ch(2))
    show ?thesis
    proof (cases k)
      case (Suc j)
      with 1 Some head ch(1) show ?thesis by simp
    qed simp
  qed
qed

text \<open>
  The summary given to a prompt never exceeds its budget, counted in characters, and is the whole
  summary or a prefix of it at a character boundary, marked as truncated when the mark fits.
\<close>

lemma budgeted_summary_bounded:
  "length (chars_of (budgeted_summary s n)) \<le> n
   \<and> (budgeted_summary s n = s \<or> (\<exists>k. k < length (chars_of s) \<and> (budgeted_summary s n = concat (take k (chars_of s))
        \<or> budgeted_summary s n = concat (take k (chars_of s)) @ MARKER)))"
proof -
  have e: "chars_of [] = []" by (simp add: chars_of.simps)
  then have "k \<le> length (chars_of s) \<Longrightarrow> chars_of (concat (take k (chars_of s))) = take k (chars_of s)" for k
    using chars_of_append [of k s "[]"] by simp
  then show ?thesis
    using chars_of_append [of "n - length (chars_of MARKER)" s MARKER]
    by (auto simp: budgeted_summary_def Let_def not_le e intro: exI [of _ 0] exI [of _ n] exI [of _ "n - length (chars_of MARKER)"])
qed

lemma char_prefix_valid: "utf8_valid t \<Longrightarrow> utf8_valid (concat (take k (chars_of s)) @ t)"
proof (induction s arbitrary: k rule: chars_of.induct)
  case (1 s)
  show ?case
  proof (cases "utf8_tail s")
    case None
    then have "chars_of s = []" by (subst chars_of.simps) simp
    with 1 show ?thesis by simp
  next
    case (Some r)
    obtain ch where ch: "s = ch @ r" "\<forall>t. utf8_tail (ch @ t) = Some t" using utf8_tail_prefix [OF Some] .
    have head: "chars_of s = ch # chars_of r" by (subst chars_of.simps) (simp add: ch)
    have "utf8_valid (ch @ x) \<longleftrightarrow> utf8_valid x \<or> ch @ x = []" for x by (subst utf8_valid.simps) (auto simp: ch(2))
    with 1 Some head show ?thesis by (cases k) auto
  qed
qed

lemma MARKER_valid: "utf8_valid MARKER"
  by code_simp

text \<open>
  The summary given to a prompt is text again: cutting a valid UTF-8 string to a budget gives a valid
  UTF-8 string of at most that many characters, and a string that fits is not changed.
\<close>

theorem budgeted_summary_is_text:
  assumes "utf8_valid s"
  shows "utf8_valid (budgeted_summary s n) \<and> length (chars_of (budgeted_summary s n)) \<le> n
    \<and> (length (chars_of s) \<le> n \<longrightarrow> budgeted_summary s n = s)"
proof -
  have "utf8_valid (concat (take k (chars_of s)))" for k using char_prefix_valid [of "[]" k s] by simp
  then show ?thesis
    using assms budgeted_summary_bounded [of s n] char_prefix_valid [OF MARKER_valid]
    by (auto simp: budgeted_summary_def Let_def)
qed

theorem budgeted_summary_is_text_witness:
  "utf8_valid (budgeted_summary (replicate 60 CHR ''a'') 50) \<and> length (chars_of (budgeted_summary (replicate 60 CHR ''a'') 50)) \<le> 50"
  using budgeted_summary_is_text [of "replicate 60 CHR ''a''" 50] utf8_valid_ascii [of "replicate 60 CHR ''a''"] by simp

section \<open>What the repository hash does not see\<close>

text \<open>
  A repository \<open>/m\<close> with branch \<open>main\<close> checked out, and a linked worktree \<open>/wt\<close> with branch \<open>f\<close> checked out.
  As git lays it out, the worktree's own directory holds its \<open>HEAD\<close>; both branch references are in the
  common directory \<open>/m/.git\<close>.
\<close>

definition git_layout :: "string \<Rightarrow> string \<Rightarrow> Fs" where
  "git_layout main_commit f_commit =
     \<lparr>fs_files =
        [[''wt'', ''.git''] \<mapsto> as_bytes ''gitdir: /m/.git/worktrees/wt'',
         [''m'', ''.git'', ''worktrees'', ''wt'', ''HEAD''] \<mapsto> as_bytes ''ref: refs/heads/f'',
         [''m'', ''.git'', ''HEAD''] \<mapsto> as_bytes ''ref: refs/heads/main'',
         [''m'', ''.git'', ''refs'', ''heads'', ''main''] \<mapsto> as_bytes main_commit,
         [''m'', ''.git'', ''refs'', ''heads'', ''f''] \<mapsto> as_bytes f_commit],
      fs_dirs = {[], [''wt''], [''m''], [''m'', ''.git'']}, fs_flushed = {}, fs_disk = Map.empty\<rparr>"

lemma layout_trims [simp]:
  "trim_str ''gitdir: /m/.git/worktrees/wt'' = ''gitdir: /m/.git/worktrees/wt''"
  "trim_str '' /m/.git/worktrees/wt'' = ''/m/.git/worktrees/wt''"
  "trim_str ''ref: refs/heads/f'' = ''ref: refs/heads/f''"
  "trim_str ''ref: refs/heads/main'' = ''ref: refs/heads/main''"
  "trim_str ''f'' = ''f''" "trim_str ''main'' = ''main''"
  by code_simp+

lemmas git_simps = git_layout_def read_to_string_def resolve_def resolve_git_dir_def read_git_head_def read_git_branch_def
  read_git_head_object_id_def strip_prefix_def starts_with_def path_join_def is_absolute_def components_def unwrap_or_default_def

lemma worktree_dir: "resolve_git_dir (git_layout a b) [''wt''] = Some [''m'', ''.git'', ''worktrees'', ''wt'']"
  by (simp add: git_simps Let_def)

lemma worktree_head:
  "read_git_head (git_layout a b) [''wt''] = Some ''ref: refs/heads/f''"
  "read_git_branch (git_layout a b) [''wt''] = Some ''f''"
  by (simp_all add: read_git_branch_def read_git_head_def worktree_dir)
    (simp_all add: git_simps)

lemma worktree_object: "read_git_head_object_id (git_layout a b) [''wt''] ''ref: refs/heads/f'' = None"
  by (simp add: read_git_head_object_id_def worktree_dir) (simp add: git_simps)

lemma main_head: "read_git_head (git_layout a b) [''m''] = Some ''ref: refs/heads/main''"
  by (simp add: git_simps Let_def)

lemma main_object:
  "utf8_valid a \<Longrightarrow> trim_str a = a \<Longrightarrow> a \<noteq> [] \<Longrightarrow>
     read_git_head_object_id (git_layout a b) [''m''] ''ref: refs/heads/main'' = Some a"
  by (cases a) (simp_all add: git_simps Let_def)

text \<open>
  A commit in a linked worktree does not change the worktree's repository hash, although it changes
  the hash of an ordinary checkout: the object id is looked up in the worktree's own git directory, where
  there are no branch references. So maps of the previous commit stay valid for a linked worktree.
\<close>

theorem worktree_commit_unnoticed:
  "compute_repo_hash blake3_hex canonicalize (git_layout m before) [''wt'']
     = compute_repo_hash blake3_hex canonicalize (git_layout m after) [''wt'']
   \<and> repo_identity canonicalize (git_layout ''1a'' f) [''m''] \<noteq> repo_identity canonicalize (git_layout ''2b'' f) [''m'']"
proof
  show "compute_repo_hash blake3_hex canonicalize (git_layout m before) [''wt'']
     = compute_repo_hash blake3_hex canonicalize (git_layout m after) [''wt'']"
    by (simp add: compute_repo_hash_def repo_identity_def worktree_head unwrap_or_default_def worktree_object)
  have "trim_str ''1a'' = ''1a''" "trim_str ''2b'' = ''2b''" by code_simp+
  then show "repo_identity canonicalize (git_layout ''1a'' f) [''m''] \<noteq> repo_identity canonicalize (git_layout ''2b'' f) [''m'']"
    by (simp add: repo_identity_def main_head main_object unwrap_or_default_def Let_def)
qed

end
