(* ===== verification/Webhook_Idempotency.thy ===== *)
theory Webhook_Idempotency
  imports Rust_Text
begin

text \<open>
  The webhook idempotency of the account client (\<open>simplicio-account-client/src/idempotency.rs\<close>): the trait of
  the store of seen events as a locale, the in-memory store as its interpretation, and \<open>decide\<close>, which
  takes the two operations of the store as arguments, as the code takes a \<open>dyn SeenEventStore\<close>.
\<close>

section \<open>The store and the decision\<close>

record InMemorySeenEventStore =
  seen :: "string set"

definition new_seen_store :: InMemorySeenEventStore where
  "new_seen_store = \<lparr>seen = {}\<rparr>"

definition seen_len :: "InMemorySeenEventStore \<Rightarrow> nat" where
  "seen_len s = card (seen s)"

definition seen_is_empty :: "InMemorySeenEventStore \<Rightarrow> bool" where
  "seen_is_empty s \<longleftrightarrow> seen s = {}"

definition has_seen :: "InMemorySeenEventStore \<Rightarrow> string \<Rightarrow> bool" where
  "has_seen s event_id \<longleftrightarrow> event_id \<in> seen s"

definition mark_seen :: "string \<Rightarrow> InMemorySeenEventStore \<Rightarrow> InMemorySeenEventStore" where
  "mark_seen event_id s = s\<lparr>seen := insert event_id (seen s)\<rparr>"

datatype WebhookDecision = Process | SkipDuplicate | RejectInvalid

definition decide ::
  "('s \<Rightarrow> string \<Rightarrow> bool) \<Rightarrow> (string \<Rightarrow> 's \<Rightarrow> 's) \<Rightarrow> string \<Rightarrow> 's \<Rightarrow> 's \<times> WebhookDecision" where
  "decide has mark event_id store =
     (if trim_str event_id = [] then (store, RejectInvalid)
      else if has store event_id then (store, SkipDuplicate)
      else (mark event_id store, Process))"

text \<open>The decisions on a sequence of deliveries, redeliveries included.\<close>

fun deliveries :: "('s \<Rightarrow> string \<Rightarrow> bool) \<Rightarrow> (string \<Rightarrow> 's \<Rightarrow> 's) \<Rightarrow> string list \<Rightarrow> 's \<Rightarrow> (string \<times> WebhookDecision) list" where
  "deliveries has mark [] store = []"
| "deliveries has mark (event_id # ids) store =
     (case decide has mark event_id store of (store, d) \<Rightarrow> (event_id, d) # deliveries has mark ids store)"

section \<open>The contract of a store\<close>

locale seen_event_store =
  fixes has :: "'s \<Rightarrow> string \<Rightarrow> bool" and mark :: "string \<Rightarrow> 's \<Rightarrow> 's"
  assumes has_mark: "has (mark i s) j \<longleftrightarrow> j = i \<or> has s j"
begin

lemma processed_count:
  "count_list (deliveries has mark ids s) (i, Process) =
     (if i \<in> set ids \<and> trim_str i \<noteq> [] \<and> \<not> has s i then 1 else 0)"
  by (induction ids arbitrary: s) (auto simp: decide_def has_mark)

lemma decision_reason:
  "(i, d) \<in> set (deliveries has mark ids s) \<Longrightarrow> i \<in> set ids \<and> (d = RejectInvalid \<longleftrightarrow> trim_str i = [])"
  by (induction ids arbitrary: s) (auto simp: decide_def split: if_splits)

lemma marked_once: "fst (decide has mark i (fst (decide has mark i s))) = fst (decide has mark i s)"
  by (simp add: decide_def has_mark)

end

interpretation in_memory: seen_event_store has_seen mark_seen
  by unfold_locales (auto simp: has_seen_def mark_seen_def)

lemma decide_len:
  assumes "finite (seen s)"
  shows "seen_len (fst (decide has_seen mark_seen i s)) =
    seen_len s + (if snd (decide has_seen mark_seen i s) = Process then 1 else 0)"
  using assms by (simp add: decide_def seen_len_def has_seen_def mark_seen_def)

text \<open>
  C35: At-least-once delivery becomes exactly-once processing. Over any sequence of deliveries, an event
  that has a non-blank id and was not seen before is processed exactly once, all its other deliveries are
  skipped as duplicates, and a blank id is always rejected and never processed.
\<close>

theorem webhook_processed_exactly_once:
  "count_list (deliveries has_seen mark_seen ids s) (i, Process) =
     (if i \<in> set ids \<and> trim_str i \<noteq> [] \<and> \<not> has_seen s i then 1 else 0)
   \<and> ((i, RejectInvalid) \<in> set (deliveries has_seen mark_seen ids s) \<longleftrightarrow> i \<in> set ids \<and> trim_str i = [])"
proof
  show "(i, RejectInvalid) \<in> set (deliveries has_seen mark_seen ids s) \<longleftrightarrow> i \<in> set ids \<and> trim_str i = []"
    by (induction ids arbitrary: s) (auto simp: decide_def)
qed (rule in_memory.processed_count)

end
