(* ===== verification/Hub_Transport.thy ===== *)
theory Hub_Transport
  imports Loop_Hub
begin

text \<open>
  The socket transport of the Loop Hub client, \<^verbatim>\<open>simplicio-runtime-client/src/loop_hub_transport.rs\<close>:
  newline-framed requests with numbered ids, the versioned handshake and attach, and the one reconnect
  that a broken connection allows. The operating system's sockets are a record of functions on the state
  \<open>'w\<close> of the world (\<open>Net\<close>); serde's conversions to and from JSON values of type \<open>'v\<close> are the record \<open>Serde\<close>.
\<close>

section \<open>Wire data\<close>

definition MAX_FRAME_BYTES :: nat where "MAX_FRAME_BYTES = 4 * 1024 * 1024"

record HubCursor =
  cu_workflow_id :: string
  cu_after_sequence :: u64

record HubAttachRequest =
  aq_schema :: string
  aq_protocol :: string
  aq_client_id :: string
  aq_workspace_id :: string
  aq_session_id :: string
  aq_reconnect :: bool
  aq_cursors :: "HubCursor list"

record HubAttachReceipt =
  at_schema :: string
  at_protocol :: string
  at_hub_id :: string
  at_session_id :: string
  at_accepted :: bool
  at_replay_from :: "HubCursor list"

definition attach_validate :: "HubAttachReceipt \<Rightarrow> string \<Rightarrow> string \<Rightarrow> (HubError, unit) res" where
  "attach_validate r expected_hub_id expected_session_id =
     (if at_schema r \<noteq> LOOP_HUB_CLIENT_SCHEMA \<or> at_protocol r \<noteq> LOOP_HUB_PROTOCOL
      then Err (Incompatible ''Hub attach receipt uses an unsupported schema or protocol'')
      else if \<not> at_accepted r then Err (Incompatible ''Loop Hub rejected the Code session attach'')
      else if at_hub_id r \<noteq> expected_hub_id \<or> at_session_id r \<noteq> expected_session_id
      then Err (Protocol ''Hub attach identity does not match the handshake'')
      else if list_ex (\<lambda>cursor. is_blank (cu_workflow_id cursor)) (at_replay_from r)
      then Err (Protocol ''Hub attach returned an invalid replay cursor'')
      else Ok ())"

record 'v WireRequest =
  wq_schema :: string
  wq_id :: u64
  wq_method :: string
  wq_payload :: 'v

record 'v WireResponse =
  wr_schema :: string
  wr_id :: u64
  wr_ok :: bool
  wr_result :: "'v option"
  wr_error :: "string option"

datatype RpcFailure = RpcIo string | RpcProtocol HubError

section \<open>The environment\<close>

datatype Address = UnixSocket string | TcpSocket string

text \<open>
  Opening a stream, writing one request line and flushing it, reading up to the next newline through the
  stream's buffer (an empty frame at the end of the stream), and parsing a frame.
\<close>

record ('w, 'v) Net =
  nt_open :: "Address \<Rightarrow> 'w \<Rightarrow> 'w \<times> (string + nat)"
  nt_write :: "nat \<Rightarrow> 'v WireRequest \<Rightarrow> 'w \<Rightarrow> 'w \<times> (string + unit)"
  nt_read :: "nat \<Rightarrow> 'w \<Rightarrow> 'w \<times> (string + byte list)"
  nt_parse :: "byte list \<Rightarrow> string + 'v WireResponse"

record 'v Serde =
  sd_handshake :: "HubHandshakeRequest \<Rightarrow> string + 'v"
  sd_attach :: "HubAttachRequest \<Rightarrow> string + 'v"
  sd_submit :: "'v SubmitRequest \<Rightarrow> string + 'v"
  sd_progress :: "ProgressRequest \<Rightarrow> string + 'v"
  sd_cancel :: "CancelRequest \<Rightarrow> string + 'v"
  sd_resume :: "ResumeRequest \<Rightarrow> string + 'v"
  sd_execute :: "RuntimeExecuteRequest \<Rightarrow> string + 'v"
  sd_process_start :: "RuntimeProcessStartRequest \<Rightarrow> string + 'v"
  sd_process_status :: "RuntimeProcessHandleRequest \<Rightarrow> string + 'v"
  sd_process_cancel :: "RuntimeProcessCancelRequest \<Rightarrow> string + 'v"
  sd_process_wait :: "RuntimeProcessWaitRequest \<Rightarrow> string + 'v"
  de_handshake :: "'v \<Rightarrow> string + HubHandshake"
  de_attach :: "'v \<Rightarrow> string + HubAttachReceipt"
  de_admission :: "'v \<Rightarrow> string + AdmissionReceipt"
  de_progress :: "'v \<Rightarrow> string + ProgressSnapshot"
  de_lifecycle :: "'v \<Rightarrow> string + LifecycleReceipt"
  de_execute :: "'v \<Rightarrow> string + 'v RuntimeExecuteReceipt"
  de_receipt :: "'v \<Rightarrow> string + RuntimeProcessReceipt"

text \<open>\<open>Result::map_err\<close> and the errors of serde.\<close>

fun map_err :: "('e \<Rightarrow> 'f) \<Rightarrow> ('e, 'a) res \<Rightarrow> ('f, 'a) res" where
  "map_err f (Ok x) = Ok x"
| "map_err f (Err e) = Err (f e)"
| "map_err f Panic = Panic"

fun serde :: "(string \<Rightarrow> 'e) \<Rightarrow> string + 'a \<Rightarrow> ('e, 'a) res" where
  "serde f (Inl e) = Err (f e)"
| "serde f (Inr x) = Ok x"

section \<open>The channel\<close>

definition channel_connect :: "('w, 'v) Net \<Rightarrow> string \<Rightarrow> 'w \<Rightarrow> 'w \<times> (HubError, nat) res" where
  "channel_connect net endpoint0 w =
     (let endpoint = trim_str endpoint0;
          opened = (\<lambda>a. case nt_open net a w of (w, r) \<Rightarrow> (w, serde TransportUnavailable r)) in
      if starts_with endpoint ''unix://'' then opened (UnixSocket (drop 7 endpoint))
      else if starts_with endpoint ''pipe://''
      then (w, Err (TransportUnavailable ''pipe:// endpoints are only supported on Windows''))
      else if starts_with endpoint ''tcp://'' then opened (TcpSocket (drop 6 endpoint))
      else (w, Err (TransportUnavailable ''Loop Hub endpoint must use unix://, pipe://, or tcp://'')))"

definition check_response :: "u64 \<Rightarrow> 'v WireResponse \<Rightarrow> (RpcFailure, 'v) res" where
  "check_response rid response =
     (if wr_schema response \<noteq> LOOP_HUB_CLIENT_SCHEMA
      then Err (RpcProtocol (Incompatible ''Loop Hub response uses an unsupported client schema''))
      else if wr_id response \<noteq> rid
      then Err (RpcProtocol (Protocol ''Loop Hub response id does not match the request''))
      else if \<not> wr_ok response
      then Err (RpcProtocol (Protocol (case wr_error response of Some e \<Rightarrow> e | None \<Rightarrow> ''Loop Hub rejected the request'')))
      else ok_or (RpcProtocol (Protocol ''Loop Hub response omitted result'')) (wr_result response))"

definition check_frame :: "('w, 'v) Net \<Rightarrow> u64 \<Rightarrow> byte list \<Rightarrow> (RpcFailure, 'v) res" where
  "check_frame net rid frame =
     (if frame = [] then Err (RpcIo ''Loop Hub closed the transport'')
      else if length frame > MAX_FRAME_BYTES
      then Err (RpcProtocol (Protocol ''Loop Hub response exceeded the frame limit''))
      else try_res (serde (\<lambda>e. RpcProtocol (Protocol (''invalid Loop Hub response: '' @ e))) (nt_parse net frame))
        (check_response rid))"

definition channel_request ::
  "('w, 'v) Net \<Rightarrow> nat \<Rightarrow> u64 \<Rightarrow> string \<Rightarrow> 'v \<Rightarrow> 'w \<Rightarrow> 'w \<times> (RpcFailure, 'v) res" where
  "channel_request net channel rid method payload w =
     (case nt_write net channel \<lparr>wq_schema = LOOP_HUB_CLIENT_SCHEMA, wq_id = rid, wq_method = method, wq_payload = payload\<rparr> w of
        (w, Inl e) \<Rightarrow> (w, Err (RpcIo e))
      | (w, Inr _) \<Rightarrow>
          (case nt_read net channel w of
             (w, Inl e) \<Rightarrow> (w, Err (RpcIo e))
           | (w, Inr frame) \<Rightarrow> (w, check_frame net rid frame)))"

section \<open>The transport\<close>

record State =
  ss_channel :: nat
  ss_next_id :: u64
  ss_handshake_request :: "HubHandshakeRequest option"
  ss_handshake :: "HubHandshake option"
  ss_cursors :: "(string, u64) btree"

record SocketPipeHubTransport =
  sp_endpoint :: string
  sp_state :: State
  sp_poisoned :: bool

fun rpc_to_hub_error :: "RpcFailure \<Rightarrow> HubError" where
  "rpc_to_hub_error (RpcIo e) = TransportUnavailable e"
| "rpc_to_hub_error (RpcProtocol e) = e"

definition saturating_inc :: "u64 \<Rightarrow> u64" where
  "saturating_inc n = (if n = -1 then -1 else n + 1)"

definition socket_connect :: "('w, 'v) Net \<Rightarrow> string \<Rightarrow> 'w \<Rightarrow> 'w \<times> (HubError, SocketPipeHubTransport) res" where
  "socket_connect net endpoint0 w =
     (let endpoint = trim_str endpoint0 in
      if endpoint = [] then (w, Err EndpointNotFound)
      else case channel_connect net endpoint w of
        (w, r) \<Rightarrow> (w, try_res r (\<lambda>channel.
          Ok \<lparr>sp_endpoint = endpoint,
              sp_state = \<lparr>ss_channel = channel, ss_next_id = 1, ss_handshake_request = None, ss_handshake = None,
                ss_cursors = []\<rparr>,
              sp_poisoned = False\<rparr>)))"

definition rpc_once ::
  "('w, 'v) Net \<Rightarrow> string \<Rightarrow> 'v \<Rightarrow> State \<times> 'w \<Rightarrow> (State \<times> 'w) \<times> (RpcFailure, 'v) res" where
  "rpc_once net method payload = (\<lambda>(s, w).
     let rid = ss_next_id s; s = s\<lparr>ss_next_id := saturating_inc rid\<rparr> in
     case channel_request net (ss_channel s) rid method payload w of (w, r) \<Rightarrow> ((s, w), r))"

definition attach_request :: "HubHandshakeRequest \<Rightarrow> bool \<Rightarrow> (string, u64) btree \<Rightarrow> HubAttachRequest" where
  "attach_request request reconnect cursors =
     \<lparr>aq_schema = LOOP_HUB_CLIENT_SCHEMA, aq_protocol = LOOP_HUB_PROTOCOL, aq_client_id = hr_client_id request,
      aq_workspace_id = hr_workspace_id request, aq_session_id = hr_session_id request, aq_reconnect = reconnect,
      aq_cursors = map (\<lambda>(workflow_id, after). \<lparr>cu_workflow_id = workflow_id, cu_after_sequence = after\<rparr>) cursors\<rparr>"

definition attach_locked ::
  "('w, 'v) Net \<Rightarrow> 'v Serde \<Rightarrow> HubHandshakeRequest \<Rightarrow> bool \<Rightarrow> State \<times> 'w \<Rightarrow> (State \<times> 'w) \<times> (HubError, unit) res" where
  "attach_locked net sd request reconnect sw =
     st_try sw (serde Protocol (sd_attach sd (attach_request request reconnect (ss_cursors (fst sw))))) (\<lambda>payload.
       case rpc_once net ''attach'' payload sw of (sw, r) \<Rightarrow>
         st_try sw (map_err rpc_to_hub_error r) (\<lambda>value.
           st_try sw (serde (\<lambda>e. Protocol (''invalid Hub attach receipt: '' @ e)) (de_attach sd value)) (\<lambda>receipt.
             st_try sw (ok_or (Protocol ''Hub attach attempted before handshake'') (ss_handshake (fst sw))) (\<lambda>handshake.
               (sw, attach_validate receipt (hh_hub_id handshake) (hr_session_id request))))))"

text \<open>The exchange that a first handshake and a reconnect share: send it, parse it, validate it.\<close>

definition exchange_handshake ::
  "('w, 'v) Net \<Rightarrow> 'v Serde \<Rightarrow> HubHandshakeRequest \<Rightarrow> State \<times> 'w \<Rightarrow> (State \<times> 'w) \<times> (HubError, HubHandshake) res" where
  "exchange_handshake net sd request sw =
     st_try sw (serde Protocol (sd_handshake sd request)) (\<lambda>payload.
       case rpc_once net ''handshake'' payload sw of (sw, r) \<Rightarrow>
         st_try sw (map_err rpc_to_hub_error r) (\<lambda>value.
           st_try sw (serde (\<lambda>e. Protocol (''invalid Hub handshake: '' @ e)) (de_handshake sd value)) (\<lambda>handshake.
             st_try sw (handshake_validate handshake) (\<lambda>_. (sw, Ok handshake)))))"

definition reconnect_locked ::
  "('w, 'v) Net \<Rightarrow> 'v Serde \<Rightarrow> string \<Rightarrow> State \<times> 'w \<Rightarrow> (State \<times> 'w) \<times> (HubError, unit) res" where
  "reconnect_locked net sd endpoint = (\<lambda>(s, w).
     case ss_handshake_request s of
       None \<Rightarrow> ((s, w), Err (TransportUnavailable ''transport has not completed its handshake''))
     | Some request \<Rightarrow>
         (case channel_connect net endpoint w of
            (w, r) \<Rightarrow> st_try (s, w) r (\<lambda>channel.
              case exchange_handshake net sd request (s\<lparr>ss_channel := channel, ss_handshake := None\<rparr>, w) of
                ((s, w), r) \<Rightarrow> st_try (s, w) r (\<lambda>handshake.
                  attach_locked net sd request True (s\<lparr>ss_handshake := Some handshake\<rparr>, w)))))"

text \<open>\<open>Display\<close> of the errors, as the messages of failed reattachments quote them.\<close>

fun hub_error_text :: "HubError \<Rightarrow> string" where
  "hub_error_text EndpointNotFound =
     ''Loop Hub endpoint was not discovered; configure an endpoint or provide a discovery adapter''"
| "hub_error_text RequiredHubUnavailable = ''Loop Hub is required but no compatible endpoint was discovered''"
| "hub_error_text (Protocol m) = ''Loop Hub protocol error: '' @ m"
| "hub_error_text (Incompatible m) = ''Loop Hub is incompatible: '' @ m"
| "hub_error_text (InvalidRequest m) = ''invalid Loop Hub request: '' @ m"
| "hub_error_text (TransportUnavailable m) = ''Loop Hub transport is unavailable: '' @ m"

definition rpc_locked ::
  "('w, 'v) Net \<Rightarrow> 'v Serde \<Rightarrow> string \<Rightarrow> string \<Rightarrow> 'v \<Rightarrow> bool \<Rightarrow> State \<times> 'w \<Rightarrow> (State \<times> 'w) \<times> (HubError, 'v) res" where
  "rpc_locked net sd endpoint method payload replay_safe sw =
     (case rpc_once net method payload sw of
        (sw, Ok value) \<Rightarrow> (sw, Ok value)
      | (sw, Err (RpcProtocol error)) \<Rightarrow> (sw, Err error)
      | (sw, Panic) \<Rightarrow> (sw, Panic)
      | (sw, Err (RpcIo first_error)) \<Rightarrow>
          (case reconnect_locked net sd endpoint sw of
             (sw, reconnect) \<Rightarrow>
               if replay_safe then
                 st_try sw reconnect (\<lambda>_.
                   case rpc_once net method payload sw of (sw, r) \<Rightarrow> (sw, map_err rpc_to_hub_error r))
               else
                 (sw, case reconnect of
                    Ok _ \<Rightarrow> Err (TransportUnavailable (''Loop Hub request outcome is unknown after reconnect: '' @ first_error))
                  | Err error \<Rightarrow> Err (TransportUnavailable (''Loop Hub request failed and reattach failed: '' @ first_error
                      @ ''; '' @ hub_error_text error))
                  | Panic \<Rightarrow> Panic)))"

text \<open>The state behind the mutex; nothing in a critical section panics, so nothing poisons it.\<close>

definition locked ::
  "(State \<times> 'w \<Rightarrow> (State \<times> 'w) \<times> (HubError, 'a) res) \<Rightarrow> SocketPipeHubTransport \<times> 'w
     \<Rightarrow> (SocketPipeHubTransport \<times> 'w) \<times> (HubError, 'a) res" where
  "locked k = (\<lambda>(t, w).
     if sp_poisoned t then ((t, w), Err (Protocol ''Loop Hub transport lock poisoned''))
     else case k (sp_state t, w) of ((s, w), r) \<Rightarrow> ((t\<lparr>sp_state := s\<rparr>, w), r))"

definition socket_rpc ::
  "('w, 'v) Net \<Rightarrow> 'v Serde \<Rightarrow> string \<Rightarrow> 'v \<Rightarrow> bool \<Rightarrow> SocketPipeHubTransport \<times> 'w
     \<Rightarrow> (SocketPipeHubTransport \<times> 'w) \<times> (HubError, 'v) res" where
  "socket_rpc net sd method payload replay_safe tw =
     locked (rpc_locked net sd (sp_endpoint (fst tw)) method payload replay_safe) tw"

text \<open>\<open>value\<close> with the serialization of its argument.\<close>

definition socket_value ::
  "('w, 'v) Net \<Rightarrow> 'v Serde \<Rightarrow> ('v \<Rightarrow> string + 'a) \<Rightarrow> string \<Rightarrow> string + 'v \<Rightarrow> bool
     \<Rightarrow> SocketPipeHubTransport \<times> 'w \<Rightarrow> (SocketPipeHubTransport \<times> 'w) \<times> (HubError, 'a) res" where
  "socket_value net sd de method payload replay_safe tw =
     st_try tw (serde Protocol payload) (\<lambda>payload.
       case socket_rpc net sd method payload replay_safe tw of (tw, r) \<Rightarrow>
         st_try tw r (\<lambda>value.
           (tw, serde (\<lambda>e. Protocol (''invalid '' @ method @ '' response: '' @ e)) (de value))))"

section \<open>The trait methods\<close>

definition socket_handshake ::
  "('w, 'v) Net \<Rightarrow> 'v Serde \<Rightarrow> HubHandshakeRequest \<Rightarrow> SocketPipeHubTransport \<times> 'w
     \<Rightarrow> (SocketPipeHubTransport \<times> 'w) \<times> (HubError, HubHandshake) res" where
  "socket_handshake net sd request = locked (\<lambda>(s, w).
     case ss_handshake_request s of
       Some existing \<Rightarrow>
         if existing \<noteq> request
         then ((s, w), Err (InvalidRequest ''a transport cannot attach two different Code sessions''))
         else ((s, w), ok_or (Protocol ''missing completed Hub handshake'') (ss_handshake s))
     | None \<Rightarrow>
         (case exchange_handshake net sd request (s, w) of
            ((s, w), r) \<Rightarrow> st_try (s, w) r (\<lambda>handshake.
              case attach_locked net sd request False
                (s\<lparr>ss_handshake_request := Some request, ss_handshake := Some handshake\<rparr>, w) of
                ((s, w), Err error) \<Rightarrow> ((s\<lparr>ss_handshake_request := None, ss_handshake := None\<rparr>, w), Err error)
              | ((s, w), Panic) \<Rightarrow> ((s, w), Panic)
              | ((s, w), Ok _) \<Rightarrow> ((s, w), Ok handshake))))"

definition socket_submit ::
  "('w, 'v) Net \<Rightarrow> 'v Serde \<Rightarrow> 'v SubmitRequest \<Rightarrow> SocketPipeHubTransport \<times> 'w
     \<Rightarrow> (SocketPipeHubTransport \<times> 'w) \<times> (HubError, AdmissionReceipt) res" where
  "socket_submit net sd request = socket_value net sd (de_admission sd) ''submit'' (sd_submit sd request) False"

definition socket_progress ::
  "('w, 'v) Net \<Rightarrow> 'v Serde \<Rightarrow> ProgressRequest \<Rightarrow> SocketPipeHubTransport \<times> 'w
     \<Rightarrow> (SocketPipeHubTransport \<times> 'w) \<times> (HubError, ProgressSnapshot) res" where
  "socket_progress net sd request tw =
     (case socket_value net sd (de_progress sd) ''progress'' (sd_progress sd request) True tw of
        (tw, r) \<Rightarrow> st_try tw r (\<lambda>snapshot.
          if ps_workflow_id snapshot \<noteq> pr_workflow_id request \<or> ps_next_sequence snapshot < pr_after_sequence request
          then (tw, Err (Protocol ''Hub returned a progress snapshot with an invalid cursor''))
          else locked (\<lambda>(s, w).
            ((s\<lparr>ss_cursors := bt_insert (pr_workflow_id request) (ps_next_sequence snapshot) (ss_cursors s)\<rparr>, w),
             Ok snapshot)) tw))"

definition socket_cancel ::
  "('w, 'v) Net \<Rightarrow> 'v Serde \<Rightarrow> CancelRequest \<Rightarrow> SocketPipeHubTransport \<times> 'w
     \<Rightarrow> (SocketPipeHubTransport \<times> 'w) \<times> (HubError, LifecycleReceipt) res" where
  "socket_cancel net sd request = socket_value net sd (de_lifecycle sd) ''cancel'' (sd_cancel sd request) False"

definition socket_resume ::
  "('w, 'v) Net \<Rightarrow> 'v Serde \<Rightarrow> ResumeRequest \<Rightarrow> SocketPipeHubTransport \<times> 'w
     \<Rightarrow> (SocketPipeHubTransport \<times> 'w) \<times> (HubError, LifecycleReceipt) res" where
  "socket_resume net sd request = socket_value net sd (de_lifecycle sd) ''resume'' (sd_resume sd request) False"

definition socket_runtime_execute ::
  "('w, 'v) Net \<Rightarrow> 'v Serde \<Rightarrow> RuntimeExecuteRequest \<Rightarrow> SocketPipeHubTransport \<times> 'w
     \<Rightarrow> (SocketPipeHubTransport \<times> 'w) \<times> (HubError, 'v RuntimeExecuteReceipt) res" where
  "socket_runtime_execute net sd request tw =
     (case socket_value net sd (de_execute sd) ''runtime_execute'' (sd_execute sd request) False tw of
        (tw, r) \<Rightarrow> st_try tw r (\<lambda>receipt.
          if rer_schema receipt \<noteq> ''simplicio.loop-runtime-execution/v1'' \<or> rer_workspace receipt \<noteq> re_workspace request
          then (tw, Err (Protocol ''Hub returned an invalid Runtime execution receipt''))
          else (tw, Ok receipt)))"

definition socket_process_start ::
  "('w, 'v) Net \<Rightarrow> 'v Serde \<Rightarrow> RuntimeProcessStartRequest \<Rightarrow> SocketPipeHubTransport \<times> 'w
     \<Rightarrow> (SocketPipeHubTransport \<times> 'w) \<times> (HubError, RuntimeProcessReceipt) res" where
  "socket_process_start net sd request =
     socket_value net sd (de_receipt sd) ''process_start'' (sd_process_start sd request) False"

definition socket_process_status ::
  "('w, 'v) Net \<Rightarrow> 'v Serde \<Rightarrow> RuntimeProcessHandleRequest \<Rightarrow> SocketPipeHubTransport \<times> 'w
     \<Rightarrow> (SocketPipeHubTransport \<times> 'w) \<times> (HubError, RuntimeProcessReceipt) res" where
  "socket_process_status net sd request =
     socket_value net sd (de_receipt sd) ''process_status'' (sd_process_status sd request) True"

definition socket_process_cancel ::
  "('w, 'v) Net \<Rightarrow> 'v Serde \<Rightarrow> RuntimeProcessCancelRequest \<Rightarrow> SocketPipeHubTransport \<times> 'w
     \<Rightarrow> (SocketPipeHubTransport \<times> 'w) \<times> (HubError, RuntimeProcessReceipt) res" where
  "socket_process_cancel net sd request =
     socket_value net sd (de_receipt sd) ''process_cancel'' (sd_process_cancel sd request) False"

definition socket_process_wait ::
  "('w, 'v) Net \<Rightarrow> 'v Serde \<Rightarrow> RuntimeProcessWaitRequest \<Rightarrow> SocketPipeHubTransport \<times> 'w
     \<Rightarrow> (SocketPipeHubTransport \<times> 'w) \<times> (HubError, RuntimeProcessReceipt) res" where
  "socket_process_wait net sd request =
     socket_value net sd (de_receipt sd) ''process_wait'' (sd_process_wait sd request) True"

section \<open>Transports as the client sees them\<close>

text \<open>
  The transports that the factory has allocated, each with its state behind an \<open>Arc\<close>, together with the
  network: the world on which a client's operations act.
\<close>

record 'w SocketWorld =
  sw_transports :: "SocketPipeHubTransport list"
  sw_net :: 'w

definition on_transport ::
  "nat \<Rightarrow> (SocketPipeHubTransport \<times> 'w \<Rightarrow> (SocketPipeHubTransport \<times> 'w) \<times> (HubError, 'a) res)
     \<Rightarrow> 'w SocketWorld \<Rightarrow> 'w SocketWorld \<times> (HubError, 'a) res" where
  "on_transport a f W =
     (case f (sw_transports W ! a, sw_net W) of
        ((t, w), r) \<Rightarrow> (W\<lparr>sw_transports := (sw_transports W)[a := t], sw_net := w\<rparr>, r))"

definition socket_transport :: "('w, 'v) Net \<Rightarrow> 'v Serde \<Rightarrow> nat \<Rightarrow> ('w SocketWorld, 'v) HubTransport" where
  "socket_transport net sd a =
     \<lparr>tr_handshake = \<lambda>q. on_transport a (socket_handshake net sd q),
      tr_submit = \<lambda>q. on_transport a (socket_submit net sd q),
      tr_progress = \<lambda>q. on_transport a (socket_progress net sd q),
      tr_cancel = \<lambda>q. on_transport a (socket_cancel net sd q),
      tr_resume = \<lambda>q. on_transport a (socket_resume net sd q),
      tr_runtime_execute = \<lambda>q. on_transport a (socket_runtime_execute net sd q),
      tr_process_start = \<lambda>q. on_transport a (socket_process_start net sd q),
      tr_process_status = \<lambda>q. on_transport a (socket_process_status net sd q),
      tr_process_cancel = \<lambda>q. on_transport a (socket_process_cancel net sd q),
      tr_process_wait = \<lambda>q. on_transport a (socket_process_wait net sd q)\<rparr>"

definition socket_factory ::
  "('w, 'v) Net \<Rightarrow> 'v Serde \<Rightarrow> string \<Rightarrow> 'w SocketWorld \<Rightarrow> 'w SocketWorld \<times> (HubError, ('w SocketWorld, 'v) HubTransport) res" where
  "socket_factory net sd endpoint W =
     (case socket_connect net endpoint (sw_net W) of
        (w, r) \<Rightarrow> st_try (W\<lparr>sw_net := w\<rparr>) r (\<lambda>t.
          (W\<lparr>sw_transports := sw_transports W @ [t], sw_net := w\<rparr>, Ok (socket_transport net sd (length (sw_transports W))))))"

end
