(* ===== verification/Worker_Adapter.thy ===== *)
theory Worker_Adapter
  imports Hub_Transport "HOL-Library.List_Lexorder" "HOL-Library.Char_ord"
begin

text \<open>
  The adapter for external Loop workers, \<^verbatim>\<open>simplicio-runtime-client/src/agent_workers.rs\<close>: the
  validation of a task graph, the reduction of the hub's worker events to a status per task, delivery,
  and the socket transport of the four worker requests. A \<open>WorkerHubTransport\<close> is a record of functions on
  the state \<open>'w\<close> of the world.
\<close>

section \<open>Requests\<close>

definition WORKER_ADAPTER_SCHEMA :: string where "WORKER_ADAPTER_SCHEMA = ''simplicio.code-worker-adapter/v1''"
definition WORKER_PROTOCOL :: string where "WORKER_PROTOCOL = ''simplicio.loop-worker/v1''"

datatype WorkerError = WorkerInvalid string | WorkerAuthority string | WorkerProtocol string | WorkerTransport string

record RunIdentity =
  ri_coordinator_id :: string
  ri_session_id :: string
  ri_turn_id :: string
  ri_run_id :: string
  ri_goal_id :: string

record AttemptIdentity =
  ai_stage_id :: string
  ai_agent_id :: string
  ai_worktree_id :: string
  ai_attempt :: u32
  ai_fence :: u64

datatype WorkerRole = Implementer | Reviewer | Tester | Delivery

record WorkerTask =
  tk_task_id :: string
  tk_role :: WorkerRole
  tk_depends_on :: "string list"
  tk_task_contract :: string

record DelegateRequest =
  dq_schema :: string
  dq_protocol :: string
  dq_identity :: RunIdentity
  dq_idempotency_key :: string
  dq_max_concurrency :: u32
  dq_tasks :: "WorkerTask list"

definition framed_key :: "string list \<Rightarrow> string" where
  "framed_key parts = join ''|'' (map (\<lambda>part. dec_string (length part) @ '':'' @ part) parts)"

definition new_delegate_request :: "RunIdentity \<Rightarrow> u32 \<Rightarrow> WorkerTask list \<Rightarrow> DelegateRequest" where
  "new_delegate_request identity max_concurrency tasks =
     \<lparr>dq_schema = WORKER_ADAPTER_SCHEMA, dq_protocol = WORKER_PROTOCOL, dq_identity = identity,
      dq_idempotency_key = framed_key [ri_session_id identity, ri_turn_id identity, ri_run_id identity, ri_goal_id identity],
      dq_max_concurrency = max_concurrency, dq_tasks = tasks\<rparr>"

section \<open>The task graph\<close>

type_synonym task_graph = "(string, WorkerTask) btree"

definition task_graph :: "WorkerTask list \<Rightarrow> task_graph" where
  "task_graph tasks = fold (\<lambda>task. bt_insert (tk_task_id task) task) tasks []"

text \<open>
  The depth-first search. The first argument bounds the depth of the recursion; \<open>Panic\<close> stands for its
  exhaustion and for the index \<open>graph[id]\<close> of an unknown task.
\<close>

fun visit :: "nat \<Rightarrow> task_graph \<Rightarrow> string \<Rightarrow> string set \<times> string set \<Rightarrow> (WorkerError, string set \<times> string set) res"
  and visit_all :: "nat \<Rightarrow> task_graph \<Rightarrow> string list \<Rightarrow> string set \<times> string set \<Rightarrow> (WorkerError, string set \<times> string set) res" where
  "visit 0 graph i s = Panic"
| "visit (Suc n) graph i (visiting, visited) =
     (if i \<in> visited then Ok (visiting, visited)
      else if i \<in> visiting then Err (WorkerInvalid ''task DAG contains a cycle'')
      else case bt_get graph i of
        None \<Rightarrow> Panic
      | Some task \<Rightarrow>
          try_res (visit_all n graph (tk_depends_on task) (insert i visiting, visited)) (\<lambda>(visiting, visited).
            Ok (visiting - {i}, insert i visited)))"
| "visit_all n graph [] s = Ok s"
| "visit_all n graph (i # ids) s = try_res (visit n graph i s) (\<lambda>s. visit_all n graph ids s)"

definition detect_cycle :: "WorkerTask list \<Rightarrow> (WorkerError, unit) res" where
  "detect_cycle tasks =
     (let graph = task_graph tasks in
      try_res (visit_all (Suc (length tasks)) graph (map fst graph) ({}, {})) (\<lambda>_. Ok ()))"

fun blank_identity :: "(string \<times> string) list \<Rightarrow> (WorkerError, unit) res" where
  "blank_identity [] = Ok ()"
| "blank_identity ((name, value) # rest) =
     (if is_blank value then Err (WorkerInvalid (name @ '' must not be empty'')) else blank_identity rest)"

fun check_dependencies :: "string set \<Rightarrow> WorkerTask list \<Rightarrow> (WorkerError, unit) res" where
  "check_dependencies ids [] = Ok ()"
| "check_dependencies ids (task # tasks) =
     (if list_ex (\<lambda>dependency. dependency = tk_task_id task \<or> dependency \<notin> ids) (tk_depends_on task)
      then Err (WorkerInvalid (''task '' @ tk_task_id task @ '' has a missing or self dependency''))
      else check_dependencies ids tasks)"

definition delegate_validate :: "DelegateRequest \<Rightarrow> (WorkerError, unit) res" where
  "delegate_validate r =
     (if dq_schema r \<noteq> WORKER_ADAPTER_SCHEMA \<or> dq_protocol r \<noteq> WORKER_PROTOCOL
      then Err (WorkerInvalid ''unsupported schema or protocol'')
      else try_res (blank_identity
          [(''coordinator_id'', ri_coordinator_id (dq_identity r)), (''session_id'', ri_session_id (dq_identity r)),
           (''turn_id'', ri_turn_id (dq_identity r)), (''run_id'', ri_run_id (dq_identity r)),
           (''goal_id'', ri_goal_id (dq_identity r))]) (\<lambda>_.
        if dq_max_concurrency r = 0 \<or> dq_tasks r = []
        then Err (WorkerInvalid ''tasks and bounded max_concurrency are required'')
        else
          let ids = set (map tk_task_id (dq_tasks r)) in
          if card ids \<noteq> length (dq_tasks r)
             \<or> list_ex (\<lambda>task. is_blank (tk_task_id task) \<or> is_blank (tk_task_contract task)) (dq_tasks r)
          then Err (WorkerInvalid ''task IDs/contracts must be non-empty and IDs unique'')
          else try_res (check_dependencies ids (dq_tasks r)) (\<lambda>_. detect_cycle (dq_tasks r))))"

section \<open>Receipts and events\<close>

record DelegateReceipt =
  dr_schema :: string
  dr_workflow_id :: string
  dr_receipt_id :: string
  dr_accepted_task_ids :: "string list"

record WorkerStatusRequest =
  wsq_workflow_id :: string
  wsq_after_sequence :: u64

datatype WorkerState = Waiting | Working | Blocked | Failed | Done | WorkerCancelled

record WorktreeLease =
  wl_worktree_id :: string
  wl_branch :: string
  wl_path_token :: string
  wl_lease_id :: string
  wl_fence :: u64

record WorkerEvent =
  we_sequence :: u64
  we_event_id :: string
  we_causal_event_id :: "string option"
  we_task_id :: string
  we_role :: WorkerRole
  we_attempt :: AttemptIdentity
  we_state :: WorkerState
  we_owner :: string
  we_reason :: "string option"
  we_lease :: "WorktreeLease option"
  we_receipt_id :: "string option"

record WorkerStatusReceipt =
  wsr_schema :: string
  wsr_workflow_id :: string
  wsr_next_sequence :: u64
  wsr_events :: "WorkerEvent list"

record AgentStatus =
  as_task_id :: string
  as_role :: WorkerRole
  as_state :: WorkerState
  as_owner :: string
  as_last_event_id :: string
  as_reason :: "string option"
  as_attempt :: AttemptIdentity
  as_lease :: "WorktreeLease option"

record CancelWorkersRequest =
  cwr_workflow_id :: string
  cwr_idempotency_key :: string
  cwr_reason :: string
  cwr_revoke_mutation_authority :: bool

record DeliveryRequest =
  dvq_workflow_id :: string
  dvq_task_id :: string
  dvq_agent_id :: string
  dvq_attempt :: u32
  dvq_fence :: u64
  dvq_review_receipt_id :: string
  dvq_idempotency_key :: string

record DeliveryReceipt =
  dvr_schema :: string
  dvr_workflow_id :: string
  dvr_receipt_id :: string
  dvr_remote_reference :: string
  dvr_remotely_confirmed :: bool

record 'w WorkerHubTransport =
  wt_delegate :: "DelegateRequest \<Rightarrow> 'w \<Rightarrow> 'w \<times> (WorkerError, DelegateReceipt) res"
  wt_status :: "WorkerStatusRequest \<Rightarrow> 'w \<Rightarrow> 'w \<times> (WorkerError, WorkerStatusReceipt) res"
  wt_cancel :: "CancelWorkersRequest \<Rightarrow> 'w \<Rightarrow> 'w \<times> (WorkerError, DelegateReceipt) res"
  wt_deliver :: "DeliveryRequest \<Rightarrow> 'w \<Rightarrow> 'w \<times> (WorkerError, DeliveryReceipt) res"

section \<open>The run\<close>

record ExternalWorkerRun =
  wr_workflow_id :: string
  wr_next_sequence :: u64
  wr_statuses :: "(string, AgentStatus) btree"

definition worker_attach :: "string \<Rightarrow> (WorkerError, ExternalWorkerRun) res" where
  "worker_attach workflow_id =
     (if is_blank workflow_id then Err (WorkerInvalid ''workflow_id must not be empty'')
      else Ok \<lparr>wr_workflow_id = workflow_id, wr_next_sequence = 0, wr_statuses = []\<rparr>)"

definition worker_delegate ::
  "'w WorkerHubTransport \<Rightarrow> DelegateRequest \<Rightarrow> 'w \<Rightarrow> 'w \<times> (WorkerError, ExternalWorkerRun) res" where
  "worker_delegate transport request w =
     st_try w (delegate_validate request) (\<lambda>_.
       case wt_delegate transport request w of (w, r) \<Rightarrow> st_try w r (\<lambda>receipt.
         if dr_schema receipt \<noteq> WORKER_ADAPTER_SCHEMA \<or> is_blank (dr_workflow_id receipt) \<or> is_blank (dr_receipt_id receipt)
            \<or> set (dr_accepted_task_ids receipt) \<noteq> set (map tk_task_id (dq_tasks request))
         then (w, Err (WorkerProtocol ''Hub returned an invalid or partial delegate receipt''))
         else (w, Ok \<lparr>wr_workflow_id = dr_workflow_id receipt, wr_next_sequence = 0, wr_statuses = []\<rparr>)))"

fun valid_transition :: "WorkerState \<Rightarrow> WorkerState \<Rightarrow> bool" where
  "valid_transition source to \<longleftrightarrow>
     source = to
     \<or> (case source of
          Waiting \<Rightarrow> to \<in> {Working, Blocked, WorkerCancelled}
        | Working \<Rightarrow> to \<in> {Blocked, Failed, Done, WorkerCancelled}
        | Blocked \<Rightarrow> to \<in> {Waiting, Working, Failed, WorkerCancelled}
        | _ \<Rightarrow> False)"

fun state_debug :: "WorkerState \<Rightarrow> string" where
  "state_debug Waiting = ''Waiting''"
| "state_debug Working = ''Working''"
| "state_debug Blocked = ''Blocked''"
| "state_debug Failed = ''Failed''"
| "state_debug Done = ''Done''"
| "state_debug WorkerCancelled = ''Cancelled''"

definition check_fence :: "AgentStatus \<Rightarrow> WorkerEvent \<Rightarrow> (WorkerError, unit) res" where
  "check_fence current event =
     (let old = as_attempt current; new = we_attempt event in
      if ai_attempt new < ai_attempt old \<or> (ai_attempt new = ai_attempt old \<and> ai_fence new < ai_fence old)
      then Err (WorkerAuthority (''late worker event for task '' @ we_task_id event @ '' lost its fence''))
      else if ai_attempt new = ai_attempt old \<and> ai_fence new = ai_fence old
        \<and> \<not> valid_transition (as_state current) (we_state event)
      then Err (WorkerProtocol (''invalid '' @ state_debug (as_state current) @ '' -> '' @ state_debug (we_state event)
        @ '' transition for '' @ we_task_id event))
      else Ok ())"

definition lease_collides :: "WorktreeLease \<Rightarrow> WorktreeLease \<Rightarrow> bool" where
  "lease_collides other lease \<longleftrightarrow>
     wl_worktree_id other = wl_worktree_id lease \<or> wl_branch other = wl_branch lease \<or> wl_path_token other = wl_path_token lease"

definition check_lease :: "(string, AgentStatus) btree \<Rightarrow> WorkerEvent \<Rightarrow> WorktreeLease \<Rightarrow> (WorkerError, unit) res" where
  "check_lease statuses event lease =
     (if wl_fence lease \<noteq> ai_fence (we_attempt event) \<or> wl_worktree_id lease \<noteq> ai_worktree_id (we_attempt event)
         \<or> is_blank (wl_branch lease) \<or> is_blank (wl_path_token lease) \<or> is_blank (wl_lease_id lease)
      then Err (WorkerProtocol ''invalid worktree lease identity'')
      else if list_ex (\<lambda>status. as_task_id status \<noteq> we_task_id event
           \<and> (case as_lease status of None \<Rightarrow> False | Some other \<Rightarrow> lease_collides other lease)
           \<and> \<not> (as_state status = WorkerCancelled \<or> as_state status = Failed)) (bt_values statuses)
      then Err (WorkerAuthority ''worktree/branch collision between active workers'')
      else Ok ())"

definition event_status :: "WorkerEvent \<Rightarrow> AgentStatus" where
  "event_status event =
     \<lparr>as_task_id = we_task_id event, as_role = we_role event, as_state = we_state event, as_owner = we_owner event,
      as_last_event_id = we_event_id event, as_reason = we_reason event, as_attempt = we_attempt event,
      as_lease = we_lease event\<rparr>"

definition worker_apply_event ::
  "WorkerEvent \<Rightarrow> (string, AgentStatus) btree \<Rightarrow> (WorkerError, (string, AgentStatus) btree) res" where
  "worker_apply_event event statuses =
     try_res (case bt_get statuses (we_task_id event) of None \<Rightarrow> Ok () | Some current \<Rightarrow> check_fence current event) (\<lambda>_.
       if we_state event = Done \<and> (we_receipt_id event = None \<or> we_receipt_id event = Some [])
       then Err (WorkerProtocol ''done requires a causal receipt'')
       else try_res (case we_lease event of None \<Rightarrow> Ok () | Some lease \<Rightarrow> check_lease statuses event lease) (\<lambda>_.
         Ok (bt_insert (we_task_id event) (event_status event) statuses)))"

definition checked_pred :: "u64 \<Rightarrow> u64 option" where
  "checked_pred n = (if n = 0 then None else Some (n - 1))"

text \<open>
  The loop over the events of a receipt: \<open>after\<close> is the cursor, \<open>next\<close> the receipt's, \<open>previous\<close> and \<open>seen\<close> what the
  loop has met. The statuses of the events before a refused one stay changed.
\<close>

fun poll_events ::
  "u64 \<Rightarrow> u64 \<Rightarrow> WorkerEvent list \<Rightarrow> u64 option \<Rightarrow> string set \<Rightarrow> (string, AgentStatus) btree
     \<Rightarrow> (string, AgentStatus) btree \<times> (WorkerError, unit) res" where
  "poll_events after next_seq [] previous seen statuses = (statuses, Ok ())"
| "poll_events after next_seq (event # events) previous seen statuses =
     (if we_sequence event < after \<or> we_sequence event \<ge> next_seq
         \<or> (case previous of None \<Rightarrow> False | Some sequence \<Rightarrow> we_sequence event \<le> sequence)
         \<or> is_blank (we_event_id event) \<or> we_event_id event \<in> seen
      then (statuses, Err (WorkerProtocol ''non-monotonic or duplicate worker event''))
      else st_try statuses (worker_apply_event event statuses) (\<lambda>statuses.
        poll_events after next_seq events (Some (we_sequence event)) (insert (we_event_id event) seen) statuses))"

definition worker_poll ::
  "'w WorkerHubTransport \<Rightarrow> ExternalWorkerRun \<times> 'w \<Rightarrow> (ExternalWorkerRun \<times> 'w) \<times> (WorkerError, unit) res" where
  "worker_poll transport = (\<lambda>(run, w).
     case wt_status transport \<lparr>wsq_workflow_id = wr_workflow_id run, wsq_after_sequence = wr_next_sequence run\<rparr> w of
       (w, r) \<Rightarrow> st_try (run, w) r (\<lambda>receipt.
         if wsr_schema receipt \<noteq> WORKER_ADAPTER_SCHEMA \<or> wsr_workflow_id receipt \<noteq> wr_workflow_id run
            \<or> wsr_next_sequence receipt < wr_next_sequence run
         then ((run, w), Err (WorkerProtocol ''stale or cross-run status receipt''))
         else
           (case poll_events (wr_next_sequence run) (wsr_next_sequence receipt) (wsr_events receipt)
              (checked_pred (wr_next_sequence run)) {} (wr_statuses run) of
              (statuses, r) \<Rightarrow> st_try (run\<lparr>wr_statuses := statuses\<rparr>, w) r (\<lambda>_.
                ((run\<lparr>wr_statuses := statuses, wr_next_sequence := wsr_next_sequence receipt\<rparr>, w), Ok ())))))"

definition worker_cancel ::
  "'w WorkerHubTransport \<Rightarrow> ExternalWorkerRun \<Rightarrow> string \<Rightarrow> 'w \<Rightarrow> 'w \<times> (WorkerError, DelegateReceipt) res" where
  "worker_cancel transport run reason w =
     (if is_blank reason then (w, Err (WorkerInvalid ''cancel reason is required''))
      else wt_cancel transport
        \<lparr>cwr_workflow_id = wr_workflow_id run, cwr_idempotency_key = framed_key [wr_workflow_id run, ''cancel'', reason],
         cwr_reason = reason, cwr_revoke_mutation_authority = True\<rparr> w)"

definition delivery_request :: "ExternalWorkerRun \<Rightarrow> string \<Rightarrow> AgentStatus \<Rightarrow> string \<Rightarrow> DeliveryRequest" where
  "delivery_request run task_id status review =
     \<lparr>dvq_workflow_id = wr_workflow_id run, dvq_task_id = task_id, dvq_agent_id = ai_agent_id (as_attempt status),
      dvq_attempt = ai_attempt (as_attempt status), dvq_fence = ai_fence (as_attempt status), dvq_review_receipt_id = review,
      dvq_idempotency_key = framed_key [wr_workflow_id run, task_id, ai_agent_id (as_attempt status),
        dec_string (unat (ai_attempt (as_attempt status))), dec_string (unat (ai_fence (as_attempt status)))]\<rparr>"

definition worker_deliver ::
  "'w WorkerHubTransport \<Rightarrow> ExternalWorkerRun \<Rightarrow> string \<Rightarrow> string \<Rightarrow> 'w \<Rightarrow> 'w \<times> (WorkerError, DeliveryReceipt) res" where
  "worker_deliver transport run task_id review w =
     (case bt_get (wr_statuses run) task_id of
        None \<Rightarrow> (w, Err (WorkerAuthority ''delivery agent has no observed state''))
      | Some status \<Rightarrow>
          if as_role status \<noteq> Delivery \<or> as_state status \<noteq> Done
          then (w, Err (WorkerAuthority ''only a done delivery-role agent may request delivery''))
          else if is_blank review then (w, Err (WorkerAuthority ''independent review receipt is required''))
          else
            (case wt_deliver transport (delivery_request run task_id status review) w of
               (w, r) \<Rightarrow> st_try w r (\<lambda>receipt.
                 if dvr_schema receipt \<noteq> WORKER_ADAPTER_SCHEMA \<or> dvr_workflow_id receipt \<noteq> wr_workflow_id run
                    \<or> is_blank (dvr_receipt_id receipt) \<or> is_blank (dvr_remote_reference receipt)
                    \<or> \<not> dvr_remotely_confirmed receipt
                 then (w, Err (WorkerProtocol ''delivery is not remotely confirmed''))
                 else (w, Ok receipt))))"

section \<open>The socket transport\<close>

record SocketWorkerHubTransport =
  sk_endpoint :: string
  sk_channel :: nat
  sk_next_id :: u64
  sk_poisoned :: bool

record 'v WorkerSerde =
  ws_delegate :: "DelegateRequest \<Rightarrow> string + 'v"
  ws_status :: "WorkerStatusRequest \<Rightarrow> string + 'v"
  ws_cancel :: "CancelWorkersRequest \<Rightarrow> string + 'v"
  ws_deliver :: "DeliveryRequest \<Rightarrow> string + 'v"
  wd_delegate :: "'v \<Rightarrow> string + DelegateReceipt"
  wd_status :: "'v \<Rightarrow> string + WorkerStatusReceipt"
  wd_deliver :: "'v \<Rightarrow> string + DeliveryReceipt"

definition worker_connect :: "('w, 'v) Net \<Rightarrow> string \<Rightarrow> 'w \<Rightarrow> 'w \<times> (WorkerError, SocketWorkerHubTransport) res" where
  "worker_connect net endpoint0 w =
     (let endpoint = trim_str endpoint0 in
      if endpoint = [] then (w, Err (WorkerTransport ''worker Hub endpoint is empty''))
      else case channel_connect net endpoint w of
        (w, r) \<Rightarrow> (w, try_res (map_err (\<lambda>e. WorkerTransport (hub_error_text e)) r) (\<lambda>channel.
          Ok \<lparr>sk_endpoint = endpoint, sk_channel = channel, sk_next_id = 1, sk_poisoned = False\<rparr>)))"

text \<open>One numbered request on the current channel.\<close>

definition worker_rpc_once ::
  "('w, 'v) Net \<Rightarrow> string \<Rightarrow> 'v \<Rightarrow> SocketWorkerHubTransport \<times> 'w \<Rightarrow> (SocketWorkerHubTransport \<times> 'w) \<times> (RpcFailure, 'v) res" where
  "worker_rpc_once net method payload = (\<lambda>(t, w).
     case channel_request net (sk_channel t) (sk_next_id t) method payload w of
       (w, r) \<Rightarrow> ((t\<lparr>sk_next_id := saturating_inc (sk_next_id t)\<rparr>, w), r))"

fun rpc_to_worker_error :: "RpcFailure \<Rightarrow> WorkerError" where
  "rpc_to_worker_error (RpcIo error) = WorkerTransport error"
| "rpc_to_worker_error (RpcProtocol error) = WorkerProtocol (hub_error_text error)"

definition worker_rpc ::
  "('w, 'v) Net \<Rightarrow> string \<Rightarrow> 'v \<Rightarrow> bool \<Rightarrow> SocketWorkerHubTransport \<times> 'w
     \<Rightarrow> (SocketWorkerHubTransport \<times> 'w) \<times> (WorkerError, 'v) res" where
  "worker_rpc net method payload replay_safe tw =
     (if sk_poisoned (fst tw) then (tw, Err (WorkerTransport ''worker transport lock poisoned''))
      else case worker_rpc_once net method payload tw of
        (tw, Ok value) \<Rightarrow> (tw, Ok value)
      | (tw, Panic) \<Rightarrow> (tw, Panic)
      | (tw, Err (RpcProtocol error)) \<Rightarrow> (tw, Err (WorkerProtocol (hub_error_text error)))
      | ((t, w), Err (RpcIo first_error)) \<Rightarrow>
          (case channel_connect net (sk_endpoint t) w of
             (w, r) \<Rightarrow> st_try (t, w) (map_err (\<lambda>error. WorkerTransport
                 (''worker request failed and reconnect failed: '' @ first_error @ ''; '' @ hub_error_text error)) r) (\<lambda>channel.
               if \<not> replay_safe
               then ((t\<lparr>sk_channel := channel\<rparr>, w),
                 Err (WorkerTransport (''worker request outcome is unknown after reconnect: '' @ first_error)))
               else
                 (case worker_rpc_once net method payload (t\<lparr>sk_channel := channel\<rparr>, w) of
                    (tw, r) \<Rightarrow> (tw, map_err rpc_to_worker_error r)))))"

definition worker_call ::
  "('w, 'v) Net \<Rightarrow> ('v \<Rightarrow> string + 'a) \<Rightarrow> string \<Rightarrow> string + 'v \<Rightarrow> bool \<Rightarrow> SocketWorkerHubTransport \<times> 'w
     \<Rightarrow> (SocketWorkerHubTransport \<times> 'w) \<times> (WorkerError, 'a) res" where
  "worker_call net de method payload replay_safe tw =
     st_try tw (serde WorkerInvalid payload) (\<lambda>payload.
       case worker_rpc net method payload replay_safe tw of (tw, r) \<Rightarrow>
         st_try tw r (\<lambda>value.
           (tw, serde (\<lambda>e. WorkerProtocol (''invalid '' @ method @ '' receipt: '' @ e)) (de value))))"

definition socket_worker_transport :: "('w, 'v) Net \<Rightarrow> 'v WorkerSerde \<Rightarrow> (SocketWorkerHubTransport \<times> 'w) WorkerHubTransport" where
  "socket_worker_transport net sd =
     \<lparr>wt_delegate = \<lambda>q. worker_call net (wd_delegate sd) ''worker_delegate'' (ws_delegate sd q) False,
      wt_status = \<lambda>q. worker_call net (wd_status sd) ''worker_status'' (ws_status sd q) True,
      wt_cancel = \<lambda>q. worker_call net (wd_delegate sd) ''worker_cancel'' (ws_cancel sd q) False,
      wt_deliver = \<lambda>q. worker_call net (wd_deliver sd) ''worker_deliver'' (ws_deliver sd q) False\<rparr>"

end
