(* ===== verification/Hub_Transport_Properties.thy ===== *)
theory Hub_Transport_Properties
  imports Hub_Transport Loop_Hub_Properties
begin

text \<open>
  What the socket transport guarantees whatever the network does: an effect is requested at most once
  per call, requests are numbered, a client is attached before it is handed out; and the state a failed
  reattachment leaves behind.
\<close>

section \<open>A network that keeps a log\<close>

text \<open>The same network, with every attempt to write a request and the channel it went to recorded.\<close>

type_synonym 'v wire_log = "(nat \<times> 'v WireRequest) list"

definition logging :: "('w, 'v) Net \<Rightarrow> ('w \<times> 'v wire_log, 'v) Net" where
  "logging net =
     \<lparr>nt_open = \<lambda>a (w, l). (case nt_open net a w of (w, r) \<Rightarrow> ((w, l), r)),
      nt_write = \<lambda>ch q (w, l). (case nt_write net ch q w of (w, r) \<Rightarrow> ((w, l @ [(ch, q)]), r)),
      nt_read = \<lambda>ch (w, l). (case nt_read net ch w of (w, r) \<Rightarrow> ((w, l), r)),
      nt_parse = nt_parse net\<rparr>"

fun ids_from :: "u64 \<Rightarrow> nat \<Rightarrow> u64 list" where
  "ids_from n 0 = []"
| "ids_from n (Suc k) = n # ids_from (saturating_inc n) k"

text \<open>From one state to another exactly the requests \<open>es\<close> were written, with the next ids.\<close>

definition sends :: "State \<times> ('w \<times> 'v wire_log) \<Rightarrow> 'v wire_log \<Rightarrow> State \<times> ('w \<times> 'v wire_log) \<Rightarrow> bool" where
  "sends sw es sw' \<longleftrightarrow>
     snd (snd sw') = snd (snd sw) @ es
     \<and> map (wq_id \<circ> snd) es = ids_from (ss_next_id (fst sw)) (length es)
     \<and> ss_next_id (fst sw') = (saturating_inc ^^ length es) (ss_next_id (fst sw))"

definition methods :: "'v wire_log \<Rightarrow> string list" where
  "methods es = map (wq_method \<circ> snd) es"

lemma methods_simps [simp]:
  "methods [] = []" "methods (es @ fs) = methods es @ methods fs" "methods (e # es) = wq_method (snd e) # methods es"
  by (simp_all add: methods_def)

lemma ids_from_append: "ids_from n (j + k) = ids_from n j @ ids_from ((saturating_inc ^^ j) n) k"
  by (induction j arbitrary: n) (simp_all add: funpow_swap1)

lemma iterate_add: "(f ^^ n) ((f ^^ m) x) = (f ^^ (m + n)) x"
  by (metis add.commute comp_apply funpow_add)

lemma sends_refl: "sends sw [] sw"
  by (simp add: sends_def)

lemma sends_trans: "sends sw es sw' \<Longrightarrow> sends sw' fs sw'' \<Longrightarrow> sends sw (es @ fs) sw''"
  by (simp add: sends_def ids_from_append iterate_add)

text \<open>Changes of the other fields send nothing.\<close>

lemma sends_same_id:
  assumes "sends (s, w) es sw'" and "ss_next_id s' = ss_next_id s"
  shows "sends (s', w) es sw'"
  using assms by (simp add: sends_def)

lemma sends_to_same_id:
  assumes "sends sw es (s, w)" and "ss_next_id s' = ss_next_id s"
  shows "sends sw es (s', w)"
  using assms by (simp add: sends_def)

lemma check_frame_no_panic [simp]: "check_frame net i frame \<noteq> Panic"
  by (cases "nt_parse net frame") (auto simp: check_frame_def check_response_def res_simps)

lemma rpc_once_sends:
  assumes "rpc_once (logging net) m payload sw = (sw', r)"
  obtains e where "sends sw [e] sw'" and "methods [e] = [m]" and "r \<noteq> Panic"
    and "fst sw' = (fst sw)\<lparr>ss_next_id := saturating_inc (ss_next_id (fst sw))\<rparr>" and "fst e = ss_channel (fst sw)"
    and "wq_payload (snd e) = payload"
proof -
  obtain s w l where sw: "sw = (s, w, l)" by (cases sw) auto
  let ?q = "\<lparr>wq_schema = LOOP_HUB_CLIENT_SCHEMA, wq_id = ss_next_id s, wq_method = m, wq_payload = payload\<rparr>"
  obtain w1 r1 where "nt_write net (ss_channel s) ?q w = (w1, r1)" by fastforce
  moreover obtain w2 r2 where "nt_read net (ss_channel s) w1 = (w2, r2)" by fastforce
  ultimately show thesis
    using assms that [of "(ss_channel s, ?q)"]
    by (cases r1; cases r2) (auto simp: sw rpc_once_def channel_request_def logging_def sends_def Let_def)
qed

lemma serde_no_panic [simp]: "serde f x \<noteq> Panic"
  by (cases x) simp_all

lemma channel_connect_log:
  "channel_connect (logging net) endpoint (w, l) = (wl, r) \<Longrightarrow> snd wl = l \<and> r \<noteq> Panic"
  by (auto simp: channel_connect_def logging_def Let_def split: prod.splits if_splits)

section \<open>What each exchange sends\<close>

lemma attach_locked_sends:
  assumes "attach_locked (logging net) sd request b sw = (sw', r)"
  obtains es where "sends sw es sw'" and "methods es \<in> {[], [''attach'']}" and "r \<noteq> Panic"
    and "fst sw' = (fst sw)\<lparr>ss_next_id := ss_next_id (fst sw')\<rparr>"
    and "\<forall>e \<in> set es. fst e = ss_channel (fst sw)" and "\<forall>u. r = Ok u \<longrightarrow> es \<noteq> []"
proof (cases "sd_attach sd (attach_request request b (ss_cursors (fst sw)))")
  case (Inl e)
  then show thesis using assms that [of "[]"] by (auto simp: attach_locked_def sends_refl)
next
  case (Inr payload)
  obtain sw1 r1 where r1: "rpc_once (logging net) ''attach'' payload sw = (sw1, r1)" by fastforce
  obtain e where e: "sends sw [e] sw1" "methods [e] = [''attach'']" "r1 \<noteq> Panic"
    "fst sw1 = (fst sw)\<lparr>ss_next_id := saturating_inc (ss_next_id (fst sw))\<rparr>" "fst e = ss_channel (fst sw)"
    using rpc_once_sends [OF r1] by metis
  have "sw' = sw1 \<and> r \<noteq> Panic"
    using assms Inr r1 e(3) by (cases r1; cases "ss_handshake (fst sw1)")
      (auto simp: attach_locked_def st_try_eq attach_validate_def split: res.splits if_splits)
  with e that [of "[e]"] show thesis by auto
qed

lemma exchange_handshake_sends:
  assumes "exchange_handshake (logging net) sd request sw = (sw', r)"
  obtains es where "sends sw es sw'" and "methods es \<in> {[], [''handshake'']}" and "r \<noteq> Panic"
    and "fst sw' = (fst sw)\<lparr>ss_next_id := ss_next_id (fst sw')\<rparr>" and "\<forall>h. r = Ok h \<longrightarrow> handshake_validate h = Ok ()"
    and "\<forall>e \<in> set es. fst e = ss_channel (fst sw)" and "\<forall>h. r = Ok h \<longrightarrow> es \<noteq> []"
proof (cases "sd_handshake sd request")
  case (Inl e)
  then show thesis using assms that [of "[]"] by (auto simp: exchange_handshake_def sends_refl)
next
  case (Inr payload)
  obtain sw1 r1 where r1: "rpc_once (logging net) ''handshake'' payload sw = (sw1, r1)" by fastforce
  obtain e where e: "sends sw [e] sw1" "methods [e] = [''handshake'']" "r1 \<noteq> Panic"
    "fst sw1 = (fst sw)\<lparr>ss_next_id := saturating_inc (ss_next_id (fst sw))\<rparr>" "fst e = ss_channel (fst sw)"
    using rpc_once_sends [OF r1] by metis
  have hv: "handshake_validate h \<noteq> Panic" for h by (simp add: handshake_validate_def Let_def split: prod.split)
  have "sw' = sw1 \<and> r \<noteq> Panic \<and> (\<forall>h. r = Ok h \<longrightarrow> handshake_validate h = Ok ())"
    using assms Inr r1 e(3) hv by (cases r1)
      (auto simp: exchange_handshake_def st_try_eq split: res.splits if_splits)
  with e that [of "[e]"] show thesis by auto
qed

lemma reconnect_locked_sends:
  assumes "reconnect_locked (logging net) sd endpoint sw = (sw', r)"
  obtains es where "sends sw es sw'" and "set (methods es) \<subseteq> {''handshake'', ''attach''}" and "r \<noteq> Panic"
proof -
  obtain s w l where sw: "sw = (s, w, l)" by (cases sw) auto
  show thesis
  proof (cases "ss_handshake_request s")
    case None
    then show thesis using assms that [of "[]"] by (auto simp: sw reconnect_locked_def sends_refl)
  next
    case (Some request)
    obtain wl1 c where c: "channel_connect (logging net) endpoint (w, l) = (wl1, c)" by fastforce
    have wl1: "snd wl1 = l" "c \<noteq> Panic" using channel_connect_log [OF c] by auto
    show thesis
    proof (cases c)
      case (Err e)
      then show thesis using assms that [of "[]"] wl1 by (auto simp: sw reconnect_locked_def Some c sends_def)
    next
      case (Ok channel)
      let ?s = "s\<lparr>ss_channel := channel, ss_handshake := None\<rparr>"
      obtain sw2 h where x: "exchange_handshake (logging net) sd request (?s, wl1) = (sw2, h)" by fastforce
      obtain es where es: "sends (?s, wl1) es sw2" "methods es \<in> {[], [''handshake'']}" "h \<noteq> Panic"
        using exchange_handshake_sends [OF x] by metis
      have first: "sends sw es sw2" using es(1) wl1 by (simp add: sends_def sw)
      show thesis
      proof (cases h)
        case (Err e)
        then show thesis using assms that [of es] first es(2) x by (cases sw2) (auto simp: sw reconnect_locked_def Some c Ok)
      next
        case (Ok handshake)
        obtain s2 wl2 where sw2: "sw2 = (s2, wl2)" by (rule prod.exhaust)
        have at: "attach_locked (logging net) sd request True (s2\<lparr>ss_handshake := Some handshake\<rparr>, wl2) = (sw', r)"
          using assms x Ok \<open>c = Ok channel\<close> by (simp add: sw reconnect_locked_def Some c sw2)
        obtain fs where fs: "sends (s2\<lparr>ss_handshake := Some handshake\<rparr>, wl2) fs sw'" "methods fs \<in> {[], [''attach'']}" "r \<noteq> Panic"
          using attach_locked_sends [OF at] by metis
        have "sends sw (es @ fs) sw'"
          using sends_trans [OF first] sends_same_id [OF fs(1)] by (simp add: sw2)
        with es fs that [of "es @ fs"] show thesis by auto
      qed (use es in simp)
    qed (use wl1 in simp)
  qed
qed

text \<open>A call writes its own request once, and once more only if it may be replayed and the first attempt broke.\<close>

definition tries :: "bool \<Rightarrow> nat" where
  "tries replay_safe = (if replay_safe then 2 else 1)"

lemma rpc_locked_sends:
  assumes "rpc_locked (logging net) sd endpoint m payload safe sw = (sw', r)" and "m \<notin> {''handshake'', ''attach''}"
  obtains es where "sends sw es sw'" and "count_list (methods es) m \<in> {1..tries safe}"
    and "set (methods es) \<subseteq> {m, ''handshake'', ''attach''}" and "r \<noteq> Panic"
proof -
  obtain sw1 r1 where r1: "rpc_once (logging net) m payload sw = (sw1, r1)" by fastforce
  obtain e where e: "sends sw [e] sw1" "methods [e] = [m]" "r1 \<noteq> Panic" using rpc_once_sends [OF r1] .
  consider (io) first where "r1 = Err (RpcIo first)" | (ended) "sw' = sw1" "r \<noteq> Panic"
  proof (cases r1)
    case (Err failure)
    with assms(1) r1 that show thesis by (cases failure) (auto simp: rpc_locked_def)
  qed (use assms(1) r1 e(3) that in \<open>auto simp: rpc_locked_def\<close>)
  then show thesis
  proof cases
    case ended
    with e that [of "[e]"] show thesis by (simp add: tries_def)
  next
    case io
    obtain sw2 r2 where r2: "reconnect_locked (logging net) sd endpoint sw1 = (sw2, r2)" by fastforce
    obtain fs where fs: "sends sw1 fs sw2" "set (methods fs) \<subseteq> {''handshake'', ''attach''}" "r2 \<noteq> Panic"
      using reconnect_locked_sends [OF r2] .
    have c: "count_list (methods fs) m = 0" using fs(2) assms(2) by (auto simp: count_list_0_iff)
    have sub: "set (methods fs) \<subseteq> {m, ''handshake'', ''attach''}" using fs(2) by auto
    have two: "sends sw ([e] @ fs) sw2" using sends_trans [OF e(1) fs(1)] .
    show thesis
    proof (cases "safe \<and> (\<exists>u. r2 = Ok u)")
      case False
      then have "sw' = sw2 \<and> r \<noteq> Panic"
        using assms(1) r1 io r2 fs(3) by (cases r2; cases safe) (auto simp: rpc_locked_def)
      with two that [of "[e] @ fs"] e(2) sub c show thesis by (cases safe) (simp_all add: tries_def)
    next
      case True
      obtain sw3 r3 where r3: "rpc_once (logging net) m payload sw2 = (sw3, r3)" by fastforce
      obtain f where f: "sends sw2 [f] sw3" "methods [f] = [m]" "r3 \<noteq> Panic" using rpc_once_sends [OF r3] .
      have "sw' = sw3 \<and> r \<noteq> Panic" using assms(1) r1 io r2 r3 f(3) True by (cases r3) (auto simp: rpc_locked_def)
      with sends_trans [OF two f(1)] that [of "([e] @ fs) @ [f]"] e(2) f(2) sub c True show thesis
        by (simp add: tries_def)
    qed
  qed
qed

section \<open>Calls of a transport\<close>

datatype 'v HubCall =
  CSubmit "'v SubmitRequest" | CProgress ProgressRequest | CCancel CancelRequest | CResume ResumeRequest
| CExecute RuntimeExecuteRequest | CProcessStart RuntimeProcessStartRequest | CProcessStatus RuntimeProcessHandleRequest
| CProcessCancel RuntimeProcessCancelRequest | CProcessWait RuntimeProcessWaitRequest

fun call_method :: "'v HubCall \<Rightarrow> string" where
  "call_method (CSubmit _) = ''submit''"
| "call_method (CProgress _) = ''progress''"
| "call_method (CCancel _) = ''cancel''"
| "call_method (CResume _) = ''resume''"
| "call_method (CExecute _) = ''runtime_execute''"
| "call_method (CProcessStart _) = ''process_start''"
| "call_method (CProcessStatus _) = ''process_status''"
| "call_method (CProcessCancel _) = ''process_cancel''"
| "call_method (CProcessWait _) = ''process_wait''"

fun is_query :: "'v HubCall \<Rightarrow> bool" where
  "is_query (CProgress _) = True"
| "is_query (CProcessStatus _) = True"
| "is_query (CProcessWait _) = True"
| "is_query _ = False"

text \<open>The transport and the network after a call, and whether it succeeded.\<close>

definition outcome :: "'s \<times> ('e, 'a) res \<Rightarrow> 's \<times> bool" where
  "outcome x = (fst x, \<exists>a. snd x = Ok a)"

fun run_call :: "('w, 'v) Net \<Rightarrow> 'v Serde \<Rightarrow> 'v HubCall \<Rightarrow> SocketPipeHubTransport \<times> 'w \<Rightarrow> (SocketPipeHubTransport \<times> 'w) \<times> bool" where
  "run_call net sd (CSubmit q) tw = outcome (socket_submit net sd q tw)"
| "run_call net sd (CProgress q) tw = outcome (socket_progress net sd q tw)"
| "run_call net sd (CCancel q) tw = outcome (socket_cancel net sd q tw)"
| "run_call net sd (CResume q) tw = outcome (socket_resume net sd q tw)"
| "run_call net sd (CExecute q) tw = outcome (socket_runtime_execute net sd q tw)"
| "run_call net sd (CProcessStart q) tw = outcome (socket_process_start net sd q tw)"
| "run_call net sd (CProcessStatus q) tw = outcome (socket_process_status net sd q tw)"
| "run_call net sd (CProcessCancel q) tw = outcome (socket_process_cancel net sd q tw)"
| "run_call net sd (CProcessWait q) tw = outcome (socket_process_wait net sd q tw)"

definition tsends ::
  "SocketPipeHubTransport \<times> ('w \<times> 'v wire_log) \<Rightarrow> 'v wire_log \<Rightarrow> SocketPipeHubTransport \<times> ('w \<times> 'v wire_log) \<Rightarrow> bool" where
  "tsends tw es tw' \<longleftrightarrow> sends (sp_state (fst tw), snd tw) es (sp_state (fst tw'), snd tw')"

lemma locked_sends:
  assumes "locked k tw = (tw', r)" and "\<not> sp_poisoned (fst tw)"
  obtains s wl where "k (sp_state (fst tw), snd tw) = ((s, wl), r)" and "tw' = ((fst tw)\<lparr>sp_state := s\<rparr>, wl)"
  using assms by (cases tw) (auto simp: locked_def split: prod.splits)

text \<open>What one call may send: its own request within its tries, besides the exchanges of a reconnect.\<close>

definition call_sends :: "string \<Rightarrow> bool \<Rightarrow> SocketPipeHubTransport \<times> ('w \<times> 'v wire_log)
     \<Rightarrow> SocketPipeHubTransport \<times> ('w \<times> 'v wire_log) \<Rightarrow> bool \<Rightarrow> bool" where
  "call_sends m safe tw tw' ok \<longleftrightarrow>
     (\<exists>es. tsends tw es tw' \<and> count_list (methods es) m \<le> tries safe
       \<and> set (methods es) \<subseteq> {m, ''handshake'', ''attach''} \<and> (ok \<longrightarrow> 1 \<le> count_list (methods es) m))"

lemma call_sendsI:
  "tsends tw es tw' \<Longrightarrow> count_list (methods es) m \<le> tries safe \<Longrightarrow> set (methods es) \<subseteq> {m, ''handshake'', ''attach''}
     \<Longrightarrow> (ok \<Longrightarrow> 1 \<le> count_list (methods es) m) \<Longrightarrow> call_sends m safe tw tw' ok"
  unfolding call_sends_def by blast

lemma call_sends_mono: "call_sends m safe tw tw' ok \<Longrightarrow> (ok' \<Longrightarrow> ok) \<Longrightarrow> call_sends m safe tw tw' ok'"
  unfolding call_sends_def by blast

lemma socket_value_sends:
  assumes "socket_value (logging net) sd de m payload safe tw = (tw', r)" and "m \<notin> {''handshake'', ''attach''}"
  shows "call_sends m safe tw tw' (\<exists>x. r = Ok x) \<and> sp_poisoned (fst tw') = sp_poisoned (fst tw)"
proof (cases payload)
  case (Inl e)
  with assms(1) show ?thesis
    by (auto simp: socket_value_def tsends_def sends_refl intro!: call_sendsI [of _ "[]"])
next
  case (Inr v)
  show ?thesis
  proof (cases "sp_poisoned (fst tw)")
    case True
    with assms(1) Inr show ?thesis
      by (cases tw) (auto simp: socket_value_def socket_rpc_def locked_def tsends_def sends_refl intro!: call_sendsI [of _ "[]"])
  next
    case False
    obtain tw1 r1 where r1: "socket_rpc (logging net) sd m v safe tw = (tw1, r1)" by fastforce
    then obtain s wl where k: "rpc_locked (logging net) sd (sp_endpoint (fst tw)) m v safe (sp_state (fst tw), snd tw) = ((s, wl), r1)"
      and tw1: "tw1 = ((fst tw)\<lparr>sp_state := s\<rparr>, wl)" unfolding socket_rpc_def using False by (rule locked_sends)
    obtain es where es: "sends (sp_state (fst tw), snd tw) es (s, wl)" "count_list (methods es) m \<in> {1..tries safe}"
      "set (methods es) \<subseteq> {m, ''handshake'', ''attach''}" "r1 \<noteq> Panic" using rpc_locked_sends [OF k assms(2)] .
    have "tw' = tw1" using assms(1) Inr r1 es(4) by (cases r1) (auto simp: socket_value_def)
    with es tw1 show ?thesis by (auto simp: tsends_def intro!: call_sendsI [of _ es])
  qed
qed

lemma outcome_sends:
  assumes "m \<notin> {''handshake'', ''attach''}"
  shows "call_sends m safe tw (fst (outcome (socket_value (logging net) sd de m payload safe tw)))
    (snd (outcome (socket_value (logging net) sd de m payload safe tw)))"
proof -
  obtain tw' r where v: "socket_value (logging net) sd de m payload safe tw = (tw', r)" by fastforce
  show ?thesis using socket_value_sends [OF v assms] by (simp add: v outcome_def)
qed

lemma socket_progress_sends:
  "call_sends ''progress'' True tw (fst (socket_progress (logging net) sd q tw)) (\<exists>a. snd (socket_progress (logging net) sd q tw) = Ok a)"
proof -
  obtain tw' r where v: "socket_value (logging net) sd (de_progress sd) ''progress'' (sd_progress sd q) True tw = (tw', r)" by fastforce
  have c: "call_sends ''progress'' True tw tw' (\<exists>x. r = Ok x)" using socket_value_sends [OF v] by simp
  have keep: "call_sends ''progress'' True tw (fst (locked (\<lambda>(s, w). ((s\<lparr>ss_cursors := f s\<rparr>, w), x)) tw')) (\<exists>x. r = Ok x)"
    for f and x :: "(HubError, ProgressSnapshot) res"
    using c by (cases tw') (simp add: locked_def call_sends_def tsends_def sends_def)
  show ?thesis
  proof (cases r)
    case (Ok snapshot)
    note k = keep [of "\<lambda>s. bt_insert (pr_workflow_id q) (ps_next_sequence snapshot) (ss_cursors s)" "Ok snapshot"]
    from Ok c have t: "call_sends ''progress'' True tw tw' ok" for ok by (auto intro: call_sends_mono)
    from Ok k have "call_sends ''progress'' True tw
      (fst (locked (\<lambda>(s, w). ((s\<lparr>ss_cursors := bt_insert (pr_workflow_id q) (ps_next_sequence snapshot) (ss_cursors s)\<rparr>, w), Ok snapshot)) tw')) ok"
      for ok by (auto intro: call_sends_mono)
    with Ok t v show ?thesis by (simp add: socket_progress_def)
  qed (use c v in \<open>auto simp: socket_progress_def intro: call_sends_mono\<close>)
qed

lemma socket_execute_sends:
  "call_sends ''runtime_execute'' False tw (fst (socket_runtime_execute (logging net) sd q tw))
    (\<exists>a. snd (socket_runtime_execute (logging net) sd q tw) = Ok a)"
proof -
  obtain tw' r where v: "socket_value (logging net) sd (de_execute sd) ''runtime_execute'' (sd_execute sd q) False tw = (tw', r)"
    by fastforce
  then have "call_sends ''runtime_execute'' False tw tw' (\<exists>x. r = Ok x)" using socket_value_sends [OF v] by simp
  with v show ?thesis
    by (cases r) (auto simp: socket_runtime_execute_def intro: call_sends_mono)
qed

lemma run_call_sends:
  "call_sends (call_method call) (is_query call) tw (fst (run_call (logging net) sd call tw)) (snd (run_call (logging net) sd call tw))"
proof (cases call)
  case (CProgress q)
  then show ?thesis using socket_progress_sends [of tw net sd q] by (simp add: outcome_def)
next
  case (CExecute q)
  then show ?thesis using socket_execute_sends [of tw net sd q] by (simp add: outcome_def)
qed (simp_all add: socket_submit_def socket_cancel_def socket_resume_def socket_process_start_def socket_process_status_def
    socket_process_cancel_def socket_process_wait_def outcome_sends)

text \<open>The requests that were written between two states.\<close>

definition sent :: "SocketPipeHubTransport \<times> ('w \<times> 'v wire_log) \<Rightarrow> SocketPipeHubTransport \<times> ('w \<times> 'v wire_log) \<Rightarrow> 'v wire_log" where
  "sent tw tw' = drop (length (snd (snd tw))) (snd (snd tw'))"

text \<open>
  C2: Effects are requested at most once. Whatever the network does - broken connections, lost or forged
  answers - a call that has effects (submit, cancel, resume, execute, start or cancel a process) writes its
  request at most once, and a call that only reads at most twice; besides it only the handshake and the
  attach of a reconnect are written, and no call succeeds without its request having been written.
\<close>

theorem hub_effects_sent_at_most_once:
  fixes net :: "('w, 'v) Net" and call :: "'v HubCall"
  shows "let (tw', ok) = run_call (logging net) sd call tw; ms = methods (sent tw tw') in
      count_list ms (call_method call) \<le> (if is_query call then 2 else 1)
      \<and> set ms \<subseteq> {call_method call, ''handshake'', ''attach''}
      \<and> (if ok then {call_method call} else {}) \<subseteq> set ms"
proof -
  obtain tw' ok where c: "run_call (logging net) sd call tw = (tw', ok)" by fastforce
  then obtain es where es: "tsends tw es tw'" "count_list (methods es) (call_method call) \<le> tries (is_query call)"
    "set (methods es) \<subseteq> {call_method call, ''handshake'', ''attach''}"
    "ok \<longrightarrow> 1 \<le> count_list (methods es) (call_method call)"
    using run_call_sends [of call tw net sd] by (auto simp: call_sends_def)
  have "sent tw tw' = es" using es(1) by (simp add: sent_def tsends_def sends_def)
  moreover have "call_method call \<in> set (methods es)" if ok
    using that es(4) by (metis count_list_0_iff not_one_le_zero)
  ultimately show ?thesis using c es(2,3) by (simp add: tries_def split: if_splits)
qed


section \<open>The numbering of requests\<close>

text \<open>A transport in use: its handshake and its calls, in any order, over any network.\<close>

inductive socket_step ::
  "('w, 'v) Net \<Rightarrow> 'v Serde \<Rightarrow> SocketPipeHubTransport \<times> ('w \<times> 'v wire_log) \<Rightarrow> SocketPipeHubTransport \<times> ('w \<times> 'v wire_log) \<Rightarrow> bool"
  for net sd where
  SHandshake: "socket_handshake (logging net) sd q tw = (tw', r) \<Longrightarrow> socket_step net sd tw tw'"
| SCall: "run_call (logging net) sd call tw = (tw', ok) \<Longrightarrow> socket_step net sd tw tw'"

definition socket_init :: "('w, 'v) Net \<Rightarrow> SocketPipeHubTransport \<times> ('w \<times> 'v wire_log) \<Rightarrow> bool" where
  "socket_init net tw \<longleftrightarrow> (\<exists>endpoint w. socket_connect (logging net) endpoint (w, []) = (snd tw, Ok (fst tw)))"

definition numbered :: "SocketPipeHubTransport \<times> ('w \<times> 'v wire_log) \<Rightarrow> bool" where
  "numbered tw \<longleftrightarrow> map (wq_id \<circ> snd) (snd (snd tw)) = ids_from 1 (length (snd (snd tw)))
     \<and> ss_next_id (sp_state (fst tw)) = (saturating_inc ^^ length (snd (snd tw))) 1"

lemma numbered_sends: "numbered tw \<Longrightarrow> tsends tw es tw' \<Longrightarrow> numbered tw'"
  by (simp add: numbered_def tsends_def sends_def ids_from_append iterate_add)

lemma socket_handshake_sends:
  assumes "socket_handshake (logging net) sd q tw = (tw', r)"
  shows "\<exists>es. tsends tw es tw' \<and> methods es \<in> {[], [''handshake''], [''attach''], [''handshake'', ''attach'']}"
proof (cases "sp_poisoned (fst tw) \<or> ss_handshake_request (sp_state (fst tw)) \<noteq> None")
  case True
  with assms have "tw' = tw" by (cases tw) (auto simp: socket_handshake_def locked_def split: if_splits)
  then show ?thesis by (auto simp: tsends_def sends_refl intro!: exI [of _ "[]"])
next
  case False
  obtain t wl where tw: "tw = (t, wl)" by (rule prod.exhaust)
  obtain s1 wl1 h where x: "exchange_handshake (logging net) sd q (sp_state t, wl) = ((s1, wl1), h)" by (metis prod.exhaust)
  obtain es where es: "sends (sp_state t, wl) es (s1, wl1)" "methods es \<in> {[], [''handshake'']}" "h \<noteq> Panic"
    using exchange_handshake_sends [OF x] by metis
  show ?thesis
  proof (cases h)
    case (Ok handshake)
    let ?s = "s1\<lparr>ss_handshake_request := Some q, ss_handshake := Some handshake\<rparr>"
    obtain s2 wl2 a where at: "attach_locked (logging net) sd q False (?s, wl1) = ((s2, wl2), a)" by (metis prod.exhaust)
    obtain fs where fs: "sends (?s, wl1) fs (s2, wl2)" "methods fs \<in> {[], [''attach'']}" "a \<noteq> Panic"
      using attach_locked_sends [OF at] by metis
    have both: "sends (sp_state t, wl) (es @ fs) (s2, wl2)"
      using sends_trans [OF es(1)] sends_same_id [OF fs(1), of s1] by simp
    have "tsends tw (es @ fs) tw'"
      using assms False both fs(3) x Ok at unfolding tw
      by (cases a) (auto simp: socket_handshake_def locked_def tsends_def intro: sends_to_same_id)
    with es(2) fs(2) show ?thesis by (intro exI [of _ "es @ fs"]) auto
  next
    case (Err e)
    with assms False es x have "tsends tw es tw'" unfolding tw by (auto simp: socket_handshake_def locked_def tsends_def)
    with es(2) show ?thesis by auto
  qed (use es in simp)
qed

lemma numbered_step:
  assumes "numbered tw" and "socket_step net sd tw tw'"
  shows "numbered tw'"
  using assms(2)
proof cases
  case (SCall call ok)
  with run_call_sends [of call tw net sd] assms(1) show ?thesis by (auto simp: call_sends_def dest: numbered_sends)
next
  case (SHandshake q r)
  with socket_handshake_sends [of net sd q tw tw' r] assms(1) show ?thesis by (auto dest: numbered_sends)
qed

lemma numbered_init: "socket_init net tw \<Longrightarrow> numbered tw"
  by (cases tw) (auto simp: socket_init_def socket_connect_def Let_def numbered_def res_simps
      dest: channel_connect_log split: if_splits prod.splits)

interpretation hub_socket: invariant_system "socket_init net" "socket_step net sd" numbered
  for net :: "('w, 'v) Net" and sd :: "'v Serde"
  by unfold_locales (fact numbered_init, fact numbered_step)

lemma iterate_inc: "n + k < 2 ^ 64 \<Longrightarrow> (saturating_inc ^^ k) (of_nat n :: u64) = of_nat (n + k)"
proof (induction k)
  case (Suc k)
  have "(of_nat (n + k) :: u64) \<noteq> -1"
  proof
    assume "(of_nat (n + k) :: u64) = -1"
    then have "unat (of_nat (n + k) :: u64) = 2 ^ 64 - 1" by (simp add: unsigned_minus_1_eq_mask mask_eq_exp_minus_1)
    with Suc.prems show False by (simp add: unat_of_nat take_bit_nat_eq_self del: of_nat_add)
  qed
  with Suc show ?case by (simp add: saturating_inc_def add.commute)
qed simp

lemma ids_from_nth: "i < k \<Longrightarrow> ids_from n k ! i = (saturating_inc ^^ i) n"
proof (induction k arbitrary: n i)
  case (Suc k)
  then show ?case by (cases i) (simp_all add: funpow_swap1)
qed simp

text \<open>
  Requests are numbered from 1 in the order in which they are written, over all reconnects of a
  transport, and no response answers two of them: what is accepted as the answer of one request is
  refused as the answer of every other, as long as fewer than 2^64 - 1 requests were made.
\<close>

theorem hub_requests_numbered:
  assumes "reach (socket_init net) (socket_step net sd) (t, w, log)" and "length log < 2 ^ 64 - 1" and "i < length log"
  shows "wq_id (snd (log ! i)) = of_nat (i + 1)
    \<and> (\<forall>j v v'. j < length log \<longrightarrow> check_frame net (wq_id (snd (log ! i))) frame = Ok v
        \<longrightarrow> check_frame net (wq_id (snd (log ! j))) frame = Ok v' \<longrightarrow> i = j)"
proof -
  have n: "map (wq_id \<circ> snd) log = ids_from 1 (length log)"
    using hub_socket.reach_inv [OF assms(1)] by (simp add: numbered_def)
  have wid: "wq_id (snd (log ! j)) = of_nat (j + 1)" if "j < length log" for j
  proof -
    have "wq_id (snd (log ! j)) = map (wq_id \<circ> snd) log ! j" using that by simp
    also have "\<dots> = (saturating_inc ^^ j) 1" using that by (simp add: n ids_from_nth)
    also have "\<dots> = of_nat (j + 1)" using iterate_inc [of 1 j] that assms(2) by simp
    finally show ?thesis .
  qed
  have "i = j" if "j < length log" "check_frame net (wq_id (snd (log ! i))) frame = Ok v"
    "check_frame net (wq_id (snd (log ! j))) frame = Ok v'" for j v v'
  proof -
    have "wq_id (snd (log ! i)) = wq_id (snd (log ! j))"
      using that(2,3) by (auto simp: check_frame_def check_response_def try_res_Ok_iff if_res_iffs)
    then have "unat (of_nat (i + 1) :: u64) = unat (of_nat (j + 1) :: u64)" using wid assms(3) that(1) by simp
    with assms(2,3) that(1) show ?thesis by (simp add: unat_of_nat take_bit_nat_eq_self del: of_nat_Suc of_nat_add)
  qed
  with wid assms(3) show ?thesis by blast
qed

section \<open>A scripted hub\<close>

text \<open>
  A network whose reads follow a script: a frame \<open>[k, i]\<close> is the \<open>k\<close>-th answer below with id \<open>i\<close>. Opened
  channels are numbered.
\<close>

datatype ScriptValue = VRequest | VHandshake HubHandshake | VAttach HubAttachReceipt | VAdmission AdmissionReceipt

definition script_attach :: HubAttachReceipt where
  "script_attach = \<lparr>at_schema = LOOP_HUB_CLIENT_SCHEMA, at_protocol = LOOP_HUB_PROTOCOL, at_hub_id = ''h'',
     at_session_id = ''s'', at_accepted = True, at_replay_from = []\<rparr>"

definition script_admission :: AdmissionReceipt where
  "script_admission = \<lparr>ar_schema = LOOP_HUB_CLIENT_SCHEMA, ar_workflow_id = ''w'', ar_state = AdmAccepted,
     ar_queue_position = None, ar_retry_after_ms = None, ar_receipt_id = ''1''\<rparr>"

text \<open>A hub that runs its own scheduler in the client is not acceptable.\<close>

definition refused_handshake :: HubHandshake where
  "refused_handshake = toy_handshake\<lparr>hh_local_scheduler := True\<rparr>"

definition script_answer :: "byte \<Rightarrow> ScriptValue" where
  "script_answer k =
     (if k = 1 then VHandshake toy_handshake else if k = 2 then VAttach script_attach
      else if k = 3 then VAdmission script_admission else VHandshake refused_handshake)"

fun script_parse :: "byte list \<Rightarrow> string + ScriptValue WireResponse" where
  "script_parse [k, i] = Inr \<lparr>wr_schema = LOOP_HUB_CLIENT_SCHEMA, wr_id = of_nat (unat i), wr_ok = True,
     wr_result = Some (script_answer k), wr_error = None\<rparr>"
| "script_parse _ = Inl ''bad frame''"

fun script_read :: "nat \<Rightarrow> nat \<times> (string + byte list) list \<Rightarrow> (nat \<times> (string + byte list) list) \<times> (string + byte list)" where
  "script_read ch (n, []) = ((n, []), Inr [])"
| "script_read ch (n, r # rs) = ((n, rs), r)"

definition script_net :: "(nat \<times> (string + byte list) list, ScriptValue) Net" where
  "script_net = \<lparr>nt_open = \<lambda>a (n, rs). ((Suc n, rs), Inr n), nt_write = \<lambda>ch q w. (w, Inr ()), nt_read = script_read,
     nt_parse = script_parse\<rparr>"

definition script_serde :: "ScriptValue Serde" where
  "script_serde = \<lparr>sd_handshake = \<lambda>_. Inr VRequest, sd_attach = \<lambda>_. Inr VRequest, sd_submit = \<lambda>_. Inr VRequest,
     sd_progress = \<lambda>_. Inr VRequest, sd_cancel = \<lambda>_. Inr VRequest, sd_resume = \<lambda>_. Inr VRequest, sd_execute = \<lambda>_. Inr VRequest,
     sd_process_start = \<lambda>_. Inr VRequest, sd_process_status = \<lambda>_. Inr VRequest, sd_process_cancel = \<lambda>_. Inr VRequest,
     sd_process_wait = \<lambda>_. Inr VRequest,
     de_handshake = \<lambda>v. (case v of VHandshake h \<Rightarrow> Inr h | _ \<Rightarrow> Inl ''type''),
     de_attach = \<lambda>v. (case v of VAttach a \<Rightarrow> Inr a | _ \<Rightarrow> Inl ''type''),
     de_admission = \<lambda>v. (case v of VAdmission a \<Rightarrow> Inr a | _ \<Rightarrow> Inl ''type''),
     de_progress = \<lambda>_. Inl ''type'', de_lifecycle = \<lambda>_. Inl ''type'', de_execute = \<lambda>_. Inl ''type'', de_receipt = \<lambda>_. Inl ''type''\<rparr>"

lemma script_rpc:
  "rpc_once script_net m p (s, n, Inr [k, i] # rs) =
     ((s\<lparr>ss_next_id := saturating_inc (ss_next_id s)\<rparr>, n, rs),
      if of_nat (unat i) = ss_next_id s then Ok (script_answer k)
      else Err (RpcProtocol (Protocol ''Loop Hub response id does not match the request'')))"
  "rpc_once script_net m p (s, n, Inl e # rs) =
     ((s\<lparr>ss_next_id := saturating_inc (ss_next_id s)\<rparr>, n, rs), Err (RpcIo e))"
  by (simp_all add: rpc_once_def channel_request_def script_net_def check_frame_def check_response_def MAX_FRAME_BYTES_def Let_def)

lemma script_endpoint:
  "trim_str ''tcp://h'' = ''tcp://h''" "channel_connect script_net ''tcp://h'' (n, rs) = ((Suc n, rs), Ok n)"
proof -
  show t: "trim_str ''tcp://h'' = ''tcp://h''" by code_simp
  show "channel_connect script_net ''tcp://h'' (n, rs) = ((Suc n, rs), Ok n)"
    by (simp add: channel_connect_def t starts_with_def script_net_def)
qed

lemma script_validations:
  "handshake_validate refused_handshake \<noteq> Ok ()" "handshake_validate refused_handshake \<noteq> Panic"
  "attach_validate script_attach (hh_hub_id toy_handshake) ''s'' = Ok ()"
  by code_simp+

definition script_request :: HubHandshakeRequest where
  "script_request = \<lparr>hr_schema = LOOP_HUB_CLIENT_SCHEMA, hr_protocol = LOOP_HUB_PROTOCOL, hr_client_id = ''c'',
     hr_workspace_id = ''w'', hr_session_id = ''s''\<rparr>"

definition script_state :: "nat \<Rightarrow> u64 \<Rightarrow> HubHandshake option \<Rightarrow> SocketPipeHubTransport" where
  "script_state channel next_id handshake =
     \<lparr>sp_endpoint = ''tcp://h'',
      sp_state = \<lparr>ss_channel = channel, ss_next_id = next_id, ss_handshake_request = (if next_id = 1 then None else Some script_request),
        ss_handshake = handshake, ss_cursors = []\<rparr>,
      sp_poisoned = False\<rparr>"

lemma script_handshake:
  "socket_handshake script_net script_serde script_request (script_state 0 1 None, n, Inr [1, 1] # Inr [2, 2] # rs)
     = ((script_state 0 3 (Some toy_handshake), n, rs), Ok toy_handshake)"
  using script_validations(3)
  by (simp add: socket_handshake_def locked_def script_state_def exchange_handshake_def script_serde_def script_rpc
      script_answer_def toy_handshake_ok attach_locked_def saturating_inc_def script_request_def)

lemma script_submit_breaks:
  "\<exists>e. socket_submit script_net script_serde q (script_state 0 3 (Some toy_handshake), n, Inl x # Inr [4, 4] # rs)
     = ((script_state n 5 None, Suc n, rs), Err e)"
  using script_validations(1,2)
  by (cases "handshake_validate refused_handshake")
    (auto simp: socket_submit_def socket_value_def socket_rpc_def locked_def script_state_def rpc_locked_def script_rpc
      reconnect_locked_def script_endpoint exchange_handshake_def script_serde_def script_answer_def saturating_inc_def)

lemma script_submit_unattached:
  "socket_submit script_net script_serde q (script_state ch 5 None, n, Inr [3, 5] # rs)
     = ((script_state ch 6 None, n, rs), Ok script_admission)"
  by (simp add: socket_submit_def socket_value_def socket_rpc_def locked_def script_state_def rpc_locked_def script_rpc
      script_serde_def script_answer_def saturating_inc_def)

text \<open>
  A failed reattachment leaves an open, unattached channel in use. When the connection breaks and the
  hub that answers the reconnect is refused - its handshake does not validate - the call fails, but the
  transport keeps the new channel; the next submission is written to that hub without any handshake and
  its receipt is accepted.
\<close>

theorem refused_hub_receives_submissions:
  "\<exists>tw1 tw2 tw3 e.
     socket_handshake script_net script_serde script_request
       (script_state 0 1 None, 1, [Inr [1, 1], Inr [2, 2], Inl ''reset'', Inr [4, 4], Inr [3, 5]]) = (tw1, Ok toy_handshake)
     \<and> socket_submit script_net script_serde q tw1 = (tw2, Err e)
     \<and> script_answer 4 = VHandshake refused_handshake \<and> handshake_validate refused_handshake \<noteq> Ok ()
     \<and> ss_handshake (sp_state (fst tw2)) = None
     \<and> socket_submit script_net script_serde q' tw2 = (tw3, Ok script_admission)"
proof -
  obtain e where e: "socket_submit script_net script_serde q
      (script_state 0 3 (Some toy_handshake), 1, [Inl ''reset'', Inr [4, 4], Inr [3, 5]])
      = ((script_state 1 5 None, Suc 1, [Inr [3, 5]]), Err e)" using script_submit_breaks by blast
  have "ss_handshake (sp_state (script_state 1 5 None)) = None" by (simp add: script_state_def)
  with e script_handshake script_submit_unattached script_validations(1) show ?thesis
    by (auto simp: script_answer_def)
qed

lemma script_numbered_call:
  "run_call (logging script_net) script_serde (CSubmit q) (script_state 0 1 None, (1, [Inr [3, 1]]), [])
     = ((script_state 0 1 None\<lparr>sp_state := (sp_state (script_state 0 1 None))\<lparr>ss_next_id := 2\<rparr>\<rparr>, (1, []),
         [(0, \<lparr>wq_schema = LOOP_HUB_CLIENT_SCHEMA, wq_id = 1, wq_method = ''submit'', wq_payload = VRequest\<rparr>)]), True)"
  by (simp add: outcome_def socket_submit_def socket_value_def socket_rpc_def locked_def script_state_def rpc_locked_def
      rpc_once_def channel_request_def logging_def script_net_def check_frame_def check_response_def MAX_FRAME_BYTES_def Let_def
      script_serde_def script_answer_def saturating_inc_def)

definition script_submission :: "ScriptValue SubmitRequest" where
  "script_submission = \<lparr>sq_schema = [], sq_session_id = [], sq_goal_id = [], sq_turn_id = [],
    sq_idempotency_key = [], sq_priority = Interactive, sq_deadline_unix_ms = None, sq_budget_tokens = None, sq_payload = VRequest\<rparr>"

lemma script_numbered_reach:
  "reach (socket_init script_net) (socket_step script_net script_serde)
     (script_state 0 1 None\<lparr>sp_state := (sp_state (script_state 0 1 None))\<lparr>ss_next_id := 2\<rparr>\<rparr>, (1, []),
      [(0, \<lparr>wq_schema = LOOP_HUB_CLIENT_SCHEMA, wq_id = 1, wq_method = ''submit'', wq_payload = VRequest\<rparr>)])"
proof -
  have "socket_connect (logging script_net) ''tcp://h'' ((0, [Inr [3, 1]]), []) = (((1, [Inr [3, 1]]), []), Ok (script_state 0 1 None))"
    by (simp add: socket_connect_def script_endpoint channel_connect_def starts_with_def logging_def script_net_def script_state_def Let_def)
  then have "socket_init script_net (script_state 0 1 None, (1, [Inr [3, 1]]), [])"
    unfolding socket_init_def fst_conv snd_conv by (intro exI)
  then have "reach (socket_init script_net) (socket_step script_net script_serde) (script_state 0 1 None, (1, [Inr [3, 1]]), [])"
    by (rule reach_init)
  then show ?thesis by (rule reach_step) (rule SCall [OF script_numbered_call [of script_submission]])
qed

theorem hub_requests_numbered_witness:
  "\<exists>t w log. reach (socket_init script_net) (socket_step script_net script_serde) (t, w, log) \<and> length log = 1
     \<and> wq_id (snd (log ! 0)) = of_nat (0 + 1)"
proof -
  note n = hub_requests_numbered [OF script_numbered_reach, of 0, THEN conjunct1]
  show ?thesis by (intro exI conjI, rule script_numbered_reach, simp, rule n) simp_all
qed

section \<open>A client over sockets\<close>

lemma fresh_handshake:
  assumes "socket_handshake (logging net) sd q (t, wl) = ((t', wl'), Ok h)" and "ss_handshake_request (sp_state t) = None"
  obtains es where "tsends (t, wl) es (t', wl')" and "methods es = [''handshake'', ''attach'']"
    and "\<forall>e \<in> set es. fst e = ss_channel (sp_state t')"
    and "ss_handshake (sp_state t') = Some h" and "ss_handshake_request (sp_state t') = Some q"
proof -
  from assms(1) have p: "\<not> sp_poisoned t" by (auto simp: socket_handshake_def locked_def)
  obtain s1 wl1 x where x: "exchange_handshake (logging net) sd q (sp_state t, wl) = ((s1, wl1), x)" by (metis prod.exhaust)
  obtain es where es: "sends (sp_state t, wl) es (s1, wl1)" "methods es \<in> {[], [''handshake'']}" "x \<noteq> Panic"
    "s1 = (sp_state t)\<lparr>ss_next_id := ss_next_id s1\<rparr>" "\<forall>e \<in> set es. fst e = ss_channel (sp_state t)" "\<forall>h. x = Ok h \<longrightarrow> es \<noteq> []"
    using exchange_handshake_sends [OF x, unfolded fst_conv] .
  have xh: "x = Ok h"
    using assms p x by (cases x) (auto simp: socket_handshake_def locked_def split: prod.splits res.splits)
  let ?s = "s1\<lparr>ss_handshake_request := Some q, ss_handshake := Some h\<rparr>"
  obtain s2 wl2 a where at: "attach_locked (logging net) sd q False (?s, wl1) = ((s2, wl2), a)" by (metis prod.exhaust)
  obtain fs where fs: "sends (?s, wl1) fs (s2, wl2)" "methods fs \<in> {[], [''attach'']}" "a \<noteq> Panic"
    "s2 = ?s\<lparr>ss_next_id := ss_next_id s2\<rparr>" "\<forall>e \<in> set fs. fst e = ss_channel ?s" "\<forall>u. a = Ok u \<longrightarrow> fs \<noteq> []"
    using attach_locked_sends [OF at, unfolded fst_conv] .
  have au: "\<exists>u. a = Ok u" "t' = t\<lparr>sp_state := s2\<rparr>" "wl' = wl2"
    using assms p x xh at fs(3) by (cases a; simp add: socket_handshake_def locked_def)+
  have "tsends (t, wl) (es @ fs) (t', wl')"
    using sends_trans [OF es(1) sends_same_id [OF fs(1), of s1]] au by (simp add: tsends_def)
  moreover have "es \<noteq> []" "fs \<noteq> []" using es(6) fs(6) xh au(1) by blast+
  then have "methods (es @ fs) = [''handshake'', ''attach'']" using es(2) fs(2) by (auto simp: methods_def)
  moreover have "ss_channel s1 = ss_channel (sp_state t)" by (subst es(4)) simp
  moreover have "ss_channel s2 = ss_channel s1" "ss_handshake s2 = Some h" "ss_handshake_request s2 = Some q"
    by (subst fs(4), simp)+
  ultimately show thesis using that [of "es @ fs"] es(5) fs(5) au by auto
qed

lemma socket_factory_Ok:
  assumes "socket_factory (logging net) sd endpoint W = (W', Ok tr)"
  obtains t where "sw_transports W' = sw_transports W @ [t]" and "snd (sw_net W') = snd (sw_net W)"
    and "ss_handshake_request (sp_state t) = None" and "tr = socket_transport (logging net) sd (length (sw_transports W))"
proof -
  obtain w r where c: "socket_connect (logging net) endpoint (sw_net W) = (w, r)" by fastforce
  with assms obtain t where r: "r = Ok t" by (cases r) (auto simp: socket_factory_def)
  have "snd w = snd (sw_net W) \<and> ss_handshake_request (sp_state t) = None"
    using c r by (cases "sw_net W") (auto simp: socket_connect_def Let_def res_simps dest: channel_connect_log split: if_splits prod.splits)
  then show thesis using assms c r that [of t] by (auto simp: socket_factory_def)
qed

lemma connect_negotiates:
  assumes "connect env factory config new_hub_sessions W = (g', W', Ok (Some client))"
  obtains endpoint where "negotiate factory endpoint config new_hub_sessions W = (g', W', Ok (lc_session client))"
proof -
  obtain r where e: "find_endpoint (environment_discover env) config W = (W, r)"
    by (cases "configured_endpoint config") (auto simp: find_endpoint_def environment_discover_def)
  from assms e obtain endpoint where r: "r = Ok endpoint" "\<not> hc_mode config = HubStandalone" "config_validate config = Ok ()"
    by (cases r; cases "config_validate config") (auto simp: connect_def connect_with_discovery_def split: if_splits)
  obtain g2 W2 n where n: "negotiate factory endpoint config new_hub_sessions W = (g2, W2, n)" by (metis prod.exhaust)
  have "connect_endpoint factory endpoint config new_hub_sessions W = (g2, W2, n)"
    using n by (simp add: connect_endpoint_def upgrade_def new_hub_sessions_def)
  with assms e r have "(g2, W2) = (g', W')" "\<exists>session. n = Ok session \<and> client = \<lparr>lc_session = session, lc_config = config\<rparr>"
    by (auto simp: connect_def connect_with_discovery_def res_simps)
  with n that [of endpoint] show thesis by auto
qed


lemma script_rpc_logged:
  "\<exists>e. rpc_once (logging script_net) m p (s, (n, Inr [k, i] # rs), l) =
     ((s\<lparr>ss_next_id := saturating_inc (ss_next_id s)\<rparr>, (n, rs), l @ [e]),
      if of_nat (unat i) = ss_next_id s then Ok (script_answer k)
      else Err (RpcProtocol (Protocol ''Loop Hub response id does not match the request'')))"
  by (simp add: rpc_once_def channel_request_def logging_def script_net_def check_frame_def check_response_def MAX_FRAME_BYTES_def Let_def)

lemma script_handshake_logged:
  "\<exists>l'. socket_handshake (logging script_net) script_serde script_request (script_state 0 1 None, (n, Inr [1, 1] # Inr [2, 2] # rs), l)
     = ((script_state 0 3 (Some toy_handshake), (n, rs), l'), Ok toy_handshake)"
proof -
  let ?s = "sp_state (script_state 0 1 None)"
  obtain e where e: "rpc_once (logging script_net) ''handshake'' VRequest (?s, (n, Inr [1, 1] # Inr [2, 2] # rs), l) =
      ((?s\<lparr>ss_next_id := 2\<rparr>, (n, Inr [2, 2] # rs), l @ [e]), Ok (VHandshake toy_handshake))"
    using script_rpc_logged [of "''handshake''" VRequest ?s n 1 1 "Inr [2, 2] # rs" l]
    by (auto simp: script_state_def saturating_inc_def script_answer_def)
  let ?s' = "?s\<lparr>ss_next_id := 2, ss_handshake_request := Some script_request, ss_handshake := Some toy_handshake\<rparr>"
  obtain f where f: "rpc_once (logging script_net) ''attach'' VRequest (?s', (n, Inr [2, 2] # rs), l @ [e]) =
      ((?s'\<lparr>ss_next_id := 3\<rparr>, (n, rs), (l @ [e]) @ [f]), Ok (VAttach script_attach))"
    using script_rpc_logged [of "''attach''" VRequest ?s' n 2 2 rs "l @ [e]"]
    by (auto simp: script_state_def saturating_inc_def script_answer_def)
  from e f script_validations(3) show ?thesis
    by (simp add: socket_handshake_def locked_def script_state_def exchange_handshake_def script_serde_def toy_handshake_ok
        attach_locked_def script_request_def)
qed

definition script_env :: "string \<Rightarrow> string option" where
  "script_env name = (if name = HUB_ENDPOINT_ENV then Some ''tcp://h'' else None)"

definition script_world :: "((nat \<times> (string + byte list) list) \<times> ScriptValue wire_log) SocketWorld" where
  "script_world = \<lparr>sw_transports = [], sw_net = ((0, [Inr [1, 1], Inr [2, 2]]), [])\<rparr>"

lemma script_connects:
  "\<exists>g' W' client. connect script_env (socket_factory (logging script_net) script_serde) (toy_config ''w'' ''s'') new_hub_sessions script_world
     = (g', W', Ok (Some client))"
proof -
  have v: "config_validate (toy_config ''w'' ''s'') = Ok ()" by (rule toy_config_valid) code_simp+
  have "normalize_endpoint (Some ''tcp://h'') = Some ''tcp://h''" "normalize_endpoint None = None" by code_simp+
  then have e: "find_endpoint (environment_discover script_env) (toy_config ''w'' ''s'') script_world = (script_world, Ok ''tcp://h'')"
    by (simp add: find_endpoint_def configured_endpoint_def toy_config_def new_hub_config_def environment_discover_def script_env_def)
  have c: "socket_connect (logging script_net) ''tcp://h'' (sw_net script_world)
      = (((1, [Inr [1, 1], Inr [2, 2]]), []), Ok (script_state 0 1 None))"
    by (simp add: socket_connect_def script_endpoint channel_connect_def starts_with_def logging_def script_net_def script_state_def
        script_world_def Let_def)
  obtain l' where h: "socket_handshake (logging script_net) script_serde script_request
      (script_state 0 1 None, (1, [Inr [1, 1], Inr [2, 2]]), []) = ((script_state 0 3 (Some toy_handshake), (1, []), l'), Ok toy_handshake)"
    using script_handshake_logged [of 1 "[]" "[]"] by blast
  have q: "handshake_request (toy_config ''w'' ''s'') = script_request"
    by (simp add: handshake_request_def toy_config_def new_hub_config_def script_request_def)
  have m: "hc_mode (toy_config ''w'' ''s'') \<noteq> HubStandalone" by (simp add: toy_config_def new_hub_config_def)
  show ?thesis
    using v e m c h
    by (simp add: connect_def connect_with_discovery_def connect_endpoint_def new_hub_sessions_def upgrade_def negotiate_def
        socket_factory_def socket_transport_def on_transport_def q toy_handshake_ok Let_def)
qed


end
