(* ===== verification/Worker_Properties.thy ===== *)
theory Worker_Properties
  imports Worker_Adapter Hub_Transport_Properties
begin

text \<open>
  What the worker adapter guarantees: the task graph is accepted exactly if it is a graph without cycles,
  the reduced statuses respect fences and never give two active workers the same worktree, delivery is
  gated, requests with effects are sent at most once; and the state that a refused event batch leaves.
\<close>

section \<open>The depth-first search decides acyclicity\<close>

definition edges :: "task_graph \<Rightarrow> (string \<times> string) set" where
  "edges g = {(i, d). \<exists>task. bt_get g i = Some task \<and> d \<in> set (tk_depends_on task)}"

definition nodes :: "task_graph \<Rightarrow> string set" where
  "nodes g = fst ` set g"

definition closed :: "task_graph \<Rightarrow> bool" where
  "closed g \<longleftrightarrow> (\<forall>i d. (i, d) \<in> edges g \<longrightarrow> d \<in> nodes g)"

text \<open>A finished set of nodes: it contains its successors, and no cycle passes through it.\<close>

definition finished :: "task_graph \<Rightarrow> string set \<Rightarrow> bool" where
  "finished g don \<longleftrightarrow> (\<forall>x \<in> don. (x, x) \<notin> (edges g)\<^sup>+ \<and> (\<forall>d. (x, d) \<in> edges g \<longrightarrow> d \<in> don))"

definition ready :: "task_graph \<Rightarrow> nat \<Rightarrow> string set \<Rightarrow> string set \<Rightarrow> string set \<Rightarrow> bool" where
  "ready g n ids vis don \<longleftrightarrow> ids \<subseteq> nodes g \<and> vis \<subseteq> nodes g \<and> finished g don \<and> card (nodes g - vis) < n
     \<and> (\<forall>v \<in> vis. \<forall>i \<in> ids. (v, i) \<in> (edges g)\<^sup>+)"

fun explored :: "task_graph \<Rightarrow> string set \<Rightarrow> string set \<Rightarrow> string set \<Rightarrow> (WorkerError, string set \<times> string set) res \<Rightarrow> bool" where
  "explored g ids vis don (Ok (vis', don')) \<longleftrightarrow> vis' = vis \<and> don \<subseteq> don' \<and> ids \<subseteq> don' \<and> finished g don'"
| "explored g ids vis don (Err e) \<longleftrightarrow> \<not> acyclic (edges g)"
| "explored g ids vis don Panic \<longleftrightarrow> False"

lemma explored_more:
  assumes "explored g ids vis don' r" and "don \<subseteq> don'" and "i \<in> don'"
  shows "explored g (insert i ids) vis don r"
proof (cases r)
  case (Ok s)
  obtain v d where "s = (v, d)" by (rule prod.exhaust)
  with assms Ok show ?thesis by simp (meson in_mono subset_trans)
qed (use assms in simp_all)

lemma finite_nodes [simp]: "finite (nodes g)"
  by (simp add: nodes_def)

lemma finished_reach:
  assumes "finished g don" and "x \<in> don" and "(x, y) \<in> (edges g)\<^sup>+"
  shows "y \<in> don"
  using assms(3) by (induction rule: trancl_induct) (use assms(1,2) in \<open>auto simp: finished_def\<close>)

lemma finished_insert:
  assumes "finished g don" and "\<And>d. (i, d) \<in> edges g \<Longrightarrow> d \<in> don"
  shows "finished g (insert i don)"
proof -
  have "(i, i) \<notin> (edges g)\<^sup>+"
  proof
    assume cycle: "(i, i) \<in> (edges g)\<^sup>+"
    then obtain d where "(i, d) \<in> edges g" "d = i \<or> (d, i) \<in> (edges g)\<^sup>+" by (meson converse_tranclE)
    with assms finished_reach have "i \<in> don" by blast
    with assms(1) cycle show False by (auto simp: finished_def)
  qed
  with assms show ?thesis by (auto simp: finished_def)
qed

lemma ready_successors:
  assumes "ready g (Suc n) {i} vis don" and "bt_get g i = Some task" and "i \<notin> vis" and "closed g"
  shows "ready g n (set (tk_depends_on task)) (insert i vis) don"
proof -
  have e: "(i, d) \<in> edges g" if "d \<in> set (tk_depends_on task)" for d using that assms(2) by (auto simp: edges_def)
  have "i \<in> nodes g" using assms(1) by (simp add: ready_def)
  then have "card (nodes g - insert i vis) < card (nodes g - vis)"
    using assms(3) by (intro psubset_card_mono) auto
  moreover have "(v, d) \<in> (edges g)\<^sup>+" if "v \<in> insert i vis" "d \<in> set (tk_depends_on task)" for v d
    using that e [of d] assms(1) by (auto simp: ready_def intro: trancl_into_trancl)
  moreover have "set (tk_depends_on task) \<subseteq> nodes g" using e assms(4) unfolding closed_def by blast
  ultimately show ?thesis using assms by (auto simp: ready_def)
qed

lemma visit_explores:
  "ready g n {i} (fst s) (snd s) \<Longrightarrow> closed g \<Longrightarrow> explored g {i} (fst s) (snd s) (visit n g i s)"
  "ready g n (set ids) (fst s) (snd s) \<Longrightarrow> closed g \<Longrightarrow> explored g (set ids) (fst s) (snd s) (visit_all n g ids s)"
proof (induction n g i s and n g ids s rule: visit_visit_all.induct)
  case (1 g i s)
  then show ?case by (simp add: ready_def)
next
  case (2 n g i vis don)
  have i: "i \<in> nodes g" "finished g don" using "2.prems" by (auto simp: ready_def)
  then obtain task where task: "bt_get g i = Some task" using bt_get_None [of g i] by (auto simp: nodes_def)
  consider "i \<in> don" | "i \<notin> don" "i \<in> vis" | "i \<notin> don" "i \<notin> vis" by blast
  then show ?case
  proof cases
    case 2
    then have "(i, i) \<in> (edges g)\<^sup>+" using "2.prems" by (auto simp: ready_def)
    with 2 show ?thesis by (auto simp: acyclic_def)
  next
    case 3
    have "explored g (set (tk_depends_on task)) (insert i vis) don (visit_all n g (tk_depends_on task) (insert i vis, don))"
      using "2.IH" [OF 3 task] ready_successors [OF _ task 3(2) "2.prems"(2)] "2.prems" by simp
    moreover have "explored g {i} vis don (Ok (insert i vis - {i}, insert i don'))"
      if "don \<subseteq> don'" "set (tk_depends_on task) \<subseteq> don'" "finished g don'" for don'
      using that 3 task finished_insert [of g don' i] by (auto simp: edges_def)
    ultimately show ?thesis
      using 3 task by (cases "visit_all n g (tk_depends_on task) (insert i vis, don)") auto
  qed (use i in simp)
next
  case (3 n g s)
  then show ?case by (cases s) (simp add: ready_def)
next
  case (4 n g i ids s)
  obtain vis don where s: "s = (vis, don)" by (rule prod.exhaust)
  have "ready g n {i} vis don" using "4.prems" by (auto simp: ready_def s)
  then have first: "explored g {i} vis don (visit n g i s)" using "4.IH"(1) "4.prems"(2) by (simp add: s)
  show ?case
  proof (cases "visit n g i s")
    case (Ok s')
    then obtain don' where s': "s' = (vis, don')" "don \<subseteq> don'" "i \<in> don'" "finished g don'" using first by (cases s') auto
    have "ready g n (set ids) vis don'" using "4.prems" s' by (auto simp: ready_def s)
    then have "explored g (set ids) vis don' (visit_all n g ids s')" using "4.IH"(2) [of s'] "4.prems"(2) by (simp add: s')
    from explored_more [OF this s'(2,3)] Ok show ?thesis by (simp add: s)
  qed (use first in \<open>auto simp: s\<close>)
qed

lemma bt_get_fold_insert:
  "distinct (map tk_task_id tasks) \<Longrightarrow>
     bt_get (fold (\<lambda>task. bt_insert (tk_task_id task) task) tasks g) i = Some t \<longleftrightarrow>
       t \<in> set tasks \<and> tk_task_id t = i \<or> i \<notin> set (map tk_task_id tasks) \<and> bt_get g i = Some t"
  by (induction tasks arbitrary: g) (auto simp: bt_get_insert)

text \<open>The relation \<open>task depends on task\<close> of a list of tasks with distinct ids.\<close>

definition depends :: "WorkerTask list \<Rightarrow> (string \<times> string) set" where
  "depends tasks = {(tk_task_id task, d) | task d. task \<in> set tasks \<and> d \<in> set (tk_depends_on task)}"

lemma task_graph_get:
  "distinct (map tk_task_id tasks) \<Longrightarrow> bt_get (task_graph tasks) i = Some task \<longleftrightarrow> task \<in> set tasks \<and> tk_task_id task = i"
  by (simp add: task_graph_def bt_get_fold_insert)

lemma task_graph_facts:
  assumes "distinct (map tk_task_id tasks)"
  shows "edges (task_graph tasks) = depends tasks" and "nodes (task_graph tasks) = set (map tk_task_id tasks)"
proof -
  show "edges (task_graph tasks) = depends tasks" using task_graph_get [OF assms] by (auto simp: edges_def depends_def)
  have "i \<in> nodes (task_graph tasks) \<longleftrightarrow> (\<exists>task. bt_get (task_graph tasks) i = Some task)" for i
    using bt_get_None [of "task_graph tasks" i] by (auto simp: nodes_def)
  then show "nodes (task_graph tasks) = set (map tk_task_id tasks)" using task_graph_get [OF assms] by auto
qed

lemma detect_cycle_exact:
  assumes "distinct (map tk_task_id tasks)" and "snd ` depends tasks \<subseteq> set (map tk_task_id tasks)"
  shows "detect_cycle tasks = (if acyclic (depends tasks) then Ok () else Err (WorkerInvalid ''task DAG contains a cycle''))"
proof -
  let ?g = "task_graph tasks" and ?n = "Suc (length tasks)"
  note g = task_graph_facts [OF assms(1)]
  have c: "closed ?g" unfolding closed_def g using assms(2) by force
  have keys: "set (map fst ?g) = nodes ?g" by (simp add: nodes_def)
  have "card (nodes ?g) \<le> length tasks" unfolding g by (metis card_length length_map)
  then have "ready ?g ?n (set (map fst ?g)) {} {}" by (simp add: ready_def finished_def keys del: set_map)
  with visit_explores(2) [of ?g ?n "map fst ?g" "({}, {})"] c
  have e: "explored ?g (nodes ?g) {} {} (visit_all ?n ?g (map fst ?g) ({}, {}))" by (simp add: keys del: set_map)
  show ?thesis
  proof (cases "visit_all ?n ?g (map fst ?g) ({}, {})")
    case (Ok s)
    with e obtain don where don: "nodes ?g \<subseteq> don" "finished ?g don" by (cases s) auto
    have "(x, x) \<notin> (edges ?g)\<^sup>+" for x
    proof
      assume a: "(x, x) \<in> (edges ?g)\<^sup>+"
      then have "x \<in> Range ((edges ?g)\<^sup>+)" by blast
      then have "x \<in> nodes ?g" using c by (auto simp: closed_def Range_iff)
      with don a show False by (auto simp: finished_def)
    qed
    then have "acyclic (depends tasks)" by (simp add: acyclic_def g)
    with Ok show ?thesis by (simp add: detect_cycle_def Let_def)
  next
    case (Err error)
    have "visit n h i s = Err error' \<Longrightarrow> error' = WorkerInvalid ''task DAG contains a cycle''"
      "visit_all n h ids s = Err error' \<Longrightarrow> error' = WorkerInvalid ''task DAG contains a cycle''" for n h i ids s error'
      by (induction n h i s and n h ids s rule: visit_visit_all.induct)
        (auto simp: try_res_Err_iff split: if_splits option.splits prod.splits)
    with Err e show ?thesis by (auto simp: detect_cycle_def Let_def g)
  qed (use e in simp)
qed

section \<open>Validation of a delegation\<close>

text \<open>What a delegation must be: named, bounded, and a graph of distinct tasks without cycles.\<close>

definition delegable :: "DelegateRequest \<Rightarrow> bool" where
  "delegable r \<longleftrightarrow>
     dq_schema r = WORKER_ADAPTER_SCHEMA \<and> dq_protocol r = WORKER_PROTOCOL
     \<and> \<not> is_blank (ri_coordinator_id (dq_identity r)) \<and> \<not> is_blank (ri_session_id (dq_identity r))
     \<and> \<not> is_blank (ri_turn_id (dq_identity r)) \<and> \<not> is_blank (ri_run_id (dq_identity r)) \<and> \<not> is_blank (ri_goal_id (dq_identity r))
     \<and> dq_max_concurrency r \<noteq> 0 \<and> dq_tasks r \<noteq> []
     \<and> distinct (map tk_task_id (dq_tasks r))
     \<and> (\<forall>task \<in> set (dq_tasks r). \<not> is_blank (tk_task_id task) \<and> \<not> is_blank (tk_task_contract task))
     \<and> snd ` depends (dq_tasks r) \<subseteq> set (map tk_task_id (dq_tasks r)) \<and> acyclic (depends (dq_tasks r))"

lemma check_dependencies_iff:
  "check_dependencies ids tasks = Ok () \<longleftrightarrow>
     (\<forall>task \<in> set tasks. \<forall>d \<in> set (tk_depends_on task). d \<noteq> tk_task_id task \<and> d \<in> ids)"
  "check_dependencies ids tasks \<noteq> Panic"
  by (induction tasks) (auto simp: list_ex_iff)

lemma depends_iff: "(i, d) \<in> depends tasks \<longleftrightarrow> (\<exists>task \<in> set tasks. tk_task_id task = i \<and> d \<in> set (tk_depends_on task))"
  by (auto simp: depends_def)

lemma depends_targets:
  "snd ` depends tasks \<subseteq> ids \<longleftrightarrow> (\<forall>task \<in> set tasks. \<forall>d \<in> set (tk_depends_on task). d \<in> ids)"
proof -
  have "snd ` depends tasks = (\<Union>task \<in> set tasks. set (tk_depends_on task))" by (force simp: depends_def)
  then show ?thesis by blast
qed

lemma dependencies_ok:
  assumes "acyclic (depends tasks)"
  shows "check_dependencies ids tasks = Ok () \<longleftrightarrow> snd ` depends tasks \<subseteq> ids"
proof -
  have "d \<noteq> tk_task_id task" if "task \<in> set tasks" "d \<in> set (tk_depends_on task)" for task d
  proof
    assume "d = tk_task_id task"
    with that have "(d, d) \<in> depends tasks" by (auto simp: depends_iff)
    with assms show False by (auto simp: acyclic_def)
  qed
  then show ?thesis unfolding check_dependencies_iff depends_targets by blast
qed

text \<open>
  C16: A delegation is accepted exactly if it is well formed: supported schema and protocol, no blank
  identity, at least one task and a positive bound, distinct non-blank tasks, dependencies on tasks of
  the same request only, and no cycle among them. The search for a cycle always ends, without a panic.
\<close>

theorem delegate_validate_exact:
  "(delegate_validate r = Ok () \<longleftrightarrow> delegable r) \<and> delegate_validate r \<noteq> Panic"
proof -
  let ?tasks = "dq_tasks r" and ?ids = "set (map tk_task_id (dq_tasks r))"
  have d: "card ?ids = length ?tasks \<longleftrightarrow> distinct (map tk_task_id ?tasks)"
    by (metis card_distinct distinct_card length_map)
  have c: "check_dependencies ?ids ?tasks = Ok () \<Longrightarrow> snd ` depends ?tasks \<subseteq> ?ids"
    unfolding check_dependencies_iff depends_targets by blast
  have dep: "try_res (check_dependencies ?ids ?tasks) (\<lambda>_. detect_cycle ?tasks) = Ok ()
      \<longleftrightarrow> snd ` depends ?tasks \<subseteq> ?ids \<and> acyclic (depends ?tasks)"
    "try_res (check_dependencies ?ids ?tasks) (\<lambda>_. detect_cycle ?tasks) \<noteq> Panic" if "distinct (map tk_task_id ?tasks)"
    using c detect_cycle_exact [OF that] dependencies_ok [of ?tasks ?ids] check_dependencies_iff(2) [of ?ids ?tasks]
    by (auto simp: res_simps split: if_splits)
  have ids: "blank_identity xs = Ok () \<longleftrightarrow> (\<forall>x \<in> set xs. \<not> is_blank (snd x))" "blank_identity xs \<noteq> Panic" for xs
    by (induction xs rule: blank_identity.induct) auto
  show ?thesis
    using dep d ids
    by (auto simp: delegate_validate_def delegable_def Let_def list_ex_iff try_res_Ok_iff try_res_Panic_iff if_res_iffs)
qed

section \<open>The reduced statuses\<close>

definition active :: "AgentStatus \<Rightarrow> bool" where
  "active s \<longleftrightarrow> as_state s \<noteq> WorkerCancelled \<and> as_state s \<noteq> Failed"

definition lease_sound :: "AgentStatus \<Rightarrow> bool" where
  "lease_sound s \<longleftrightarrow> (case as_lease s of None \<Rightarrow> True | Some l \<Rightarrow> wl_fence l = ai_fence (as_attempt s) \<and> wl_worktree_id l = ai_worktree_id (as_attempt s))"

definition share_lease :: "AgentStatus \<Rightarrow> AgentStatus \<Rightarrow> bool" where
  "share_lease s t \<longleftrightarrow> (\<exists>l m. as_lease s = Some l \<and> as_lease t = Some m \<and> lease_collides l m)"

definition keyed :: "(string, AgentStatus) btree \<Rightarrow> bool" where
  "keyed st \<longleftrightarrow> (\<forall>k s. bt_get st k = Some s \<longrightarrow> as_task_id s = k \<and> lease_sound s)"

definition exclusive :: "(string, AgentStatus) btree \<Rightarrow> bool" where
  "exclusive st \<longleftrightarrow> (\<forall>k k' s s'. bt_get st k = Some s \<longrightarrow> bt_get st k' = Some s' \<longrightarrow> k \<noteq> k' \<longrightarrow> active s \<longrightarrow> active s' \<longrightarrow> \<not> share_lease s s')"

definition fleet_inv :: "(string, AgentStatus) btree \<Rightarrow> bool" where
  "fleet_inv st \<longleftrightarrow> bt_inv st \<and> keyed st \<and> exclusive st"

fun terminal :: "WorkerState \<Rightarrow> bool" where
  "terminal Failed = True"
| "terminal Done = True"
| "terminal WorkerCancelled = True"
| "terminal _ = False"

text \<open>A later status of a task: a later attempt or fence, or the same one, where an end is final.\<close>

definition succeeds :: "AgentStatus \<Rightarrow> AgentStatus \<Rightarrow> bool" where
  "succeeds s t \<longleftrightarrow>
     (let a = as_attempt s; b = as_attempt t in
      ai_attempt a < ai_attempt b \<or> ai_attempt a = ai_attempt b
        \<and> (ai_fence a < ai_fence b \<or> ai_fence a = ai_fence b \<and> (terminal (as_state s) \<longrightarrow> as_state t = as_state s)))"

definition outlives :: "(string, AgentStatus) btree \<Rightarrow> (string, AgentStatus) btree \<Rightarrow> bool" where
  "outlives st st' \<longleftrightarrow> (\<forall>k s. bt_get st k = Some s \<longrightarrow> (\<exists>s'. bt_get st' k = Some s' \<and> succeeds s s'))"

lemma succeeds_refl: "succeeds s s"
  by (simp add: succeeds_def)

lemma succeeds_trans: "succeeds s t \<Longrightarrow> succeeds t u \<Longrightarrow> succeeds s u"
  unfolding succeeds_def Let_def by (elim disjE conjE) auto

lemma outlives_refl: "outlives st st"
  by (auto simp: outlives_def intro: succeeds_refl)

lemma outlives_trans: "outlives st st' \<Longrightarrow> outlives st' st'' \<Longrightarrow> outlives st st''"
  unfolding outlives_def by (meson succeeds_trans)

lemma apply_event_Ok:
  assumes "worker_apply_event e st = Ok st'"
  shows "st' = bt_insert (we_task_id e) (event_status e) st"
    and "\<And>cur. bt_get st (we_task_id e) = Some cur \<Longrightarrow> check_fence cur e = Ok ()"
    and "\<And>l. we_lease e = Some l \<Longrightarrow> check_lease st e l = Ok ()"
  using assms by (auto simp: worker_apply_event_def try_res_Ok_iff if_res_iffs)

lemma check_fence_succeeds: "check_fence cur e = Ok () \<Longrightarrow> succeeds cur (event_status e)"
  by (cases "as_state cur"; cases "we_state e")
    (auto simp: check_fence_def succeeds_def event_status_def Let_def split: if_splits)

lemma apply_event_outlives:
  assumes "worker_apply_event e st = Ok st'"
  shows "outlives st st'"
  unfolding outlives_def
proof (intro allI impI)
  fix k s
  assume "bt_get st k = Some s"
  then show "\<exists>s'. bt_get st' k = Some s' \<and> succeeds s s'"
    using apply_event_Ok(1,2) [OF assms] check_fence_succeeds succeeds_refl
    by (cases "k = we_task_id e") (auto simp: bt_get_insert)
qed

lemma check_lease_sound: "we_lease e = Some l \<Longrightarrow> check_lease st e l = Ok () \<Longrightarrow> lease_sound (event_status e)"
  by (auto simp: check_lease_def lease_sound_def event_status_def split: if_splits)

lemma lease_collides_sym: "lease_collides l m \<Longrightarrow> lease_collides m l"
  by (auto simp: lease_collides_def)

lemma check_lease_exclusive:
  assumes "check_lease st e l = Ok ()" and "bt_inv st" and "bt_get st k = Some s" and "as_task_id s \<noteq> we_task_id e"
    and "active s" and "as_lease s = Some m"
  shows "\<not> lease_collides m l"
proof -
  have "s \<in> set (bt_values st)" using assms(2,3) by (force simp: bt_get_Some bt_values_def)
  with assms show ?thesis by (auto simp: check_lease_def list_ex_iff active_def split: if_splits)
qed

lemma apply_event_fleet:
  assumes "worker_apply_event e st = Ok st'" and "fleet_inv st"
  shows "fleet_inv st'"
proof -
  note ok = apply_event_Ok [OF assms(1)]
  have sound: "lease_sound (event_status e)"
    using ok(3) check_lease_sound by (cases "we_lease e") (auto simp: lease_sound_def event_status_def)
  have free: "\<not> share_lease s (event_status e) \<and> \<not> share_lease (event_status e) s"
    if "bt_get st k = Some s" "k \<noteq> we_task_id e" "active s" for k s
  proof -
    have "as_task_id s \<noteq> we_task_id e" using that assms(2) by (auto simp: fleet_inv_def keyed_def)
    with that assms(2) ok(3) have "\<not> lease_collides m l" if "we_lease e = Some l" "as_lease s = Some m" for l m
      using check_lease_exclusive [of st e l k s m] that by (simp add: fleet_inv_def)
    then show ?thesis by (auto simp: share_lease_def event_status_def dest: lease_collides_sym)
  qed
  have "keyed st'" using assms(2) sound by (simp add: fleet_inv_def keyed_def ok(1) bt_get_insert) (simp add: event_status_def)
  moreover have "exclusive st'"
    unfolding exclusive_def
  proof (intro allI impI)
    fix k k' s s'
    assume a: "bt_get st' k = Some s" "bt_get st' k' = Some s'" "k \<noteq> k'" "active s" "active s'"
    consider "k = we_task_id e" | "k' = we_task_id e" "k \<noteq> we_task_id e" | "k \<noteq> we_task_id e" "k' \<noteq> we_task_id e" by blast
    then show "\<not> share_lease s s'"
      using a free [of k' s'] free [of k s] assms(2)
      by cases (auto simp: ok(1) bt_get_insert fleet_inv_def exclusive_def)
  qed
  ultimately show ?thesis using assms(2) by (simp add: fleet_inv_def ok(1) bt_inv_insert)
qed

lemma poll_events_fleet:
  "poll_events a n events p seen st = (st', r) \<Longrightarrow> fleet_inv st \<Longrightarrow> fleet_inv st' \<and> outlives st st' \<and> r \<noteq> Panic"
proof (induction a n events p seen st rule: poll_events.induct)
  case (2 a n e events p seen st)
  have np: "worker_apply_event e st \<noteq> Panic"
    by (auto simp: worker_apply_event_def check_fence_def check_lease_def Let_def res_simps split: option.splits if_splits)
  show ?case
  proof (cases "worker_apply_event e st")
    case (Ok st1)
    with 2 apply_event_fleet [OF Ok] apply_event_outlives [OF Ok] show ?thesis
      by (auto split: if_splits intro: outlives_refl outlives_trans)
  qed (use 2 np in \<open>auto split: if_splits intro: outlives_refl\<close>)
qed (auto intro: outlives_refl)

text \<open>A run in use against any hub: its polls, and whatever else happens in the world.\<close>

inductive worker_step :: "'w WorkerHubTransport \<Rightarrow> ExternalWorkerRun \<times> 'w \<Rightarrow> ExternalWorkerRun \<times> 'w \<Rightarrow> bool"
  for transport where
  WPoll: "worker_poll transport s = (t, r) \<Longrightarrow> worker_step transport s t"
| WWorld: "worker_step transport (run, w) (run, w')"

definition worker_init :: "ExternalWorkerRun \<times> 'w \<Rightarrow> bool" where
  "worker_init s \<longleftrightarrow> wr_next_sequence (fst s) = 0 \<and> wr_statuses (fst s) = []"

definition worker_inv :: "ExternalWorkerRun \<times> 'w \<Rightarrow> bool" where
  "worker_inv s \<longleftrightarrow> fleet_inv (wr_statuses (fst s))"

lemma worker_poll_state:
  assumes "worker_poll transport (run, w) = ((run', w'), r)" and "fleet_inv (wr_statuses run)"
  shows "fleet_inv (wr_statuses run') \<and> outlives (wr_statuses run) (wr_statuses run')
    \<and> wr_workflow_id run' = wr_workflow_id run \<and> wr_next_sequence run \<le> wr_next_sequence run'"
proof -
  obtain w1 q where q: "wt_status transport \<lparr>wsq_workflow_id = wr_workflow_id run, wsq_after_sequence = wr_next_sequence run\<rparr> w = (w1, q)"
    by fastforce
  show ?thesis
  proof (cases q)
    case (Ok receipt)
    obtain st x where p: "poll_events (wr_next_sequence run) (wsr_next_sequence receipt) (wsr_events receipt)
        (checked_pred (wr_next_sequence run)) {} (wr_statuses run) = (st, x)" by fastforce
    from poll_events_fleet [OF p assms(2)] assms q Ok p show ?thesis
      by (cases x) (auto simp: worker_poll_def outlives_refl not_less split: if_splits)
  qed (use assms q in \<open>auto simp: worker_poll_def outlives_refl\<close>)
qed

lemma worker_step_state:
  assumes "worker_step transport s t" and "worker_inv s"
  shows "worker_inv t \<and> outlives (wr_statuses (fst s)) (wr_statuses (fst t)) \<and> wr_next_sequence (fst s) \<le> wr_next_sequence (fst t)"
  using assms(1)
proof cases
  case (WPoll r)
  with assms(2) worker_poll_state [of transport "fst s" "snd s" "fst t" "snd t" r] show ?thesis by (simp add: worker_inv_def)
qed (use assms(2) in \<open>auto simp: worker_inv_def outlives_refl\<close>)

interpretation workers: invariant_system worker_init "worker_step transport" worker_inv for transport :: "'w WorkerHubTransport"
proof
  show "worker_init s \<Longrightarrow> worker_inv s" for s :: "ExternalWorkerRun \<times> 'w"
    by (simp add: worker_init_def worker_inv_def fleet_inv_def bt_inv_def keyed_def exclusive_def)
  show "worker_inv s \<Longrightarrow> worker_step transport s t \<Longrightarrow> worker_inv t" for s t
    using worker_step_state by blast
qed

text \<open>
  C3: Whatever the hub reports, two active workers of a run never hold leases that share a worktree, a
  branch or a path, and every lease a status shows belongs to the fence and the worktree of the status's
  own attempt.
\<close>

theorem worker_leases_exclusive:
  assumes "reach worker_init (worker_step transport) (run, w)"
    and "bt_get (wr_statuses run) k = Some s" and "as_lease s = Some l"
  shows "wl_fence l = ai_fence (as_attempt s) \<and> wl_worktree_id l = ai_worktree_id (as_attempt s)
    \<and> (\<forall>k' s' m. k' \<noteq> k \<longrightarrow> bt_get (wr_statuses run) k' = Some s' \<longrightarrow> as_lease s' = Some m \<longrightarrow> active s \<longrightarrow> active s'
        \<longrightarrow> wl_worktree_id l \<noteq> wl_worktree_id m \<and> wl_branch l \<noteq> wl_branch m \<and> wl_path_token l \<noteq> wl_path_token m)"
proof -
  have i: "keyed (wr_statuses run)" "exclusive (wr_statuses run)"
    using workers.reach_inv [OF assms(1)] by (auto simp: worker_inv_def fleet_inv_def)
  have "lease_sound s" using i(1) assms(2) unfolding keyed_def by blast
  moreover have "\<not> lease_collides l m" if "k' \<noteq> k" "bt_get (wr_statuses run) k' = Some s'" "as_lease s' = Some m" "active s" "active s'" for k' s' m
    using i(2) assms(2,3) that unfolding exclusive_def share_lease_def by blast
  ultimately show ?thesis using assms(3) by (simp add: lease_sound_def lease_collides_def)
qed

text \<open>
  Fences hold. Whatever the hub reports and however often it is polled, a task's status is replaced
  only by one of a later attempt or fence, or of the same, and under the same attempt and fence a failed,
  done or cancelled worker stays so; no status disappears and the cursor never moves back.
\<close>

theorem worker_fences_hold:
  assumes "reach worker_init (worker_step transport) (run, w)" and "(worker_step transport)\<^sup>*\<^sup>* (run, w) (run', w')"
    and "bt_get (wr_statuses run) k = Some s"
  shows "\<exists>s'. bt_get (wr_statuses run') k = Some s' \<and> succeeds s s' \<and> wr_next_sequence run \<le> wr_next_sequence run'"
proof -
  have "worker_inv t \<and> outlives (wr_statuses run) (wr_statuses (fst t)) \<and> wr_next_sequence run \<le> wr_next_sequence (fst t)"
    if "(worker_step transport)\<^sup>*\<^sup>* (run, w) t" for t
    using that
  proof (induction rule: rtranclp_induct)
    case base
    then show ?case using workers.reach_inv [OF assms(1)] by (simp add: outlives_refl)
  next
    case (step t u)
    with worker_step_state [OF step.hyps(2)] outlives_trans show ?case by fastforce
  qed
  from this [OF assms(2)] assms(3) show ?thesis by (auto simp: outlives_def)
qed

section \<open>A refused batch\<close>

definition fixed_hub :: "WorkerStatusReceipt \<Rightarrow> unit WorkerHubTransport" where
  "fixed_hub receipt =
     \<lparr>wt_delegate = \<lambda>q w. (w, Err (WorkerTransport ''x'')), wt_status = \<lambda>q w. (w, Ok receipt),
      wt_cancel = \<lambda>q w. (w, Err (WorkerTransport ''x'')), wt_deliver = \<lambda>q w. (w, Err (WorkerTransport ''x''))\<rparr>"

definition demo_attempt :: AttemptIdentity where
  "demo_attempt = \<lparr>ai_stage_id = ''s'', ai_agent_id = ''a'', ai_worktree_id = ''t'', ai_attempt = 1, ai_fence = 1\<rparr>"

definition demo_lease :: WorktreeLease where
  "demo_lease = \<lparr>wl_worktree_id = ''t'', wl_branch = ''b'', wl_path_token = ''p'', wl_lease_id = ''l'', wl_fence = 1\<rparr>"

definition demo_event :: "u64 \<Rightarrow> string \<Rightarrow> WorkerState \<Rightarrow> string option \<Rightarrow> WorkerEvent" where
  "demo_event n i state receipt =
     \<lparr>we_sequence = n, we_event_id = i, we_causal_event_id = None, we_task_id = ''a'', we_role = Delivery,
      we_attempt = demo_attempt, we_state = state, we_owner = ''hub'', we_reason = None, we_lease = Some demo_lease,
      we_receipt_id = receipt\<rparr>"

definition demo_receipt :: "u64 \<Rightarrow> WorkerEvent list \<Rightarrow> WorkerStatusReceipt" where
  "demo_receipt n events = \<lparr>wsr_schema = WORKER_ADAPTER_SCHEMA, wsr_workflow_id = ''w'', wsr_next_sequence = n, wsr_events = events\<rparr>"

definition demo_run :: "WorkerState list \<Rightarrow> ExternalWorkerRun" where
  "demo_run states = \<lparr>wr_workflow_id = ''w'', wr_next_sequence = 0,
     wr_statuses = map (\<lambda>state. (''a'', event_status (demo_event 0 ''2'' state None))) states\<rparr>"

lemma demo_not_blank: "\<not> is_blank ''1''" "\<not> is_blank ''2''" "\<not> is_blank ''3''" "\<not> is_blank ''b''" "\<not> is_blank ''p''" "\<not> is_blank ''l''"
  by code_simp+

lemma demo_order: "\<not> (2 :: u64) \<le> 1" "\<not> (3 :: u64) \<le> 1"
  by (simp_all add: word_le_nat_alt)

lemmas demo_simps = worker_poll_def fixed_hub_def demo_receipt_def demo_run_def demo_event_def demo_attempt_def demo_lease_def
  worker_apply_event_def check_fence_def check_lease_def event_status_def bt_values_def checked_pred_def demo_not_blank demo_order

lemma demo_poll_fails:
  "worker_poll (fixed_hub (demo_receipt 3 [demo_event 0 ''1'' Working None, demo_event 1 ''2'' Done (Some ''r''),
     demo_event 2 ''3'' Working None])) (demo_run [], ())
   = ((demo_run [Done], ()), Err (WorkerProtocol ''invalid Done -> Working transition for a''))"
  by (simp add: demo_simps)

lemma demo_replay_fails:
  "worker_poll (fixed_hub (demo_receipt n (demo_event 0 ''1'' Working None # events))) (demo_run [Done], ()) =
     ((demo_run [Done], ()), Err (if n = 0 then WorkerProtocol ''non-monotonic or duplicate worker event''
        else WorkerProtocol ''invalid Done -> Working transition for a''))"
  by (simp add: demo_simps)


section \<open>Witnesses of the invariants\<close>

definition done_run :: ExternalWorkerRun where
  "done_run = (demo_run [Done])\<lparr>wr_next_sequence := 2\<rparr>"

definition done_hub :: "unit WorkerHubTransport" where
  "done_hub = fixed_hub (demo_receipt 2 [demo_event 0 ''1'' Working None, demo_event 1 ''2'' Done (Some ''r'')])"

lemma done_run_reached: "reach worker_init (worker_step done_hub) (done_run, ())"
proof -
  have "worker_init (demo_run [], ())" by (simp add: worker_init_def demo_run_def)
  then have "reach worker_init (worker_step done_hub) (demo_run [], ())" by (rule reach_init)
  moreover have "worker_poll done_hub (demo_run [], ()) = ((done_run, ()), Ok ())"
    by (simp add: done_hub_def done_run_def demo_simps)
  then have "worker_step done_hub (demo_run [], ()) (done_run, ())" by (rule WPoll)
  ultimately show ?thesis by (rule reach_step)
qed

lemma done_run_status: "bt_get (wr_statuses done_run) ''a'' = Some (event_status (demo_event 0 ''2'' Done None))"
  by (simp add: done_run_def demo_run_def)

theorem worker_leases_exclusive_witness:
  "\<exists>s l. bt_get (wr_statuses done_run) ''a'' = Some s \<and> as_lease s = Some l \<and> wl_fence l = ai_fence (as_attempt s)"
proof -
  have l: "as_lease (event_status (demo_event 0 ''2'' Done None)) = Some demo_lease" by (simp add: event_status_def demo_event_def)
  from worker_leases_exclusive [OF done_run_reached done_run_status l] done_run_status l show ?thesis by blast
qed

theorem worker_fences_hold_witness:
  "\<exists>s. bt_get (wr_statuses done_run) ''a'' = Some s \<and> succeeds (event_status (demo_event 0 ''2'' Done None)) s"
  using worker_fences_hold [OF done_run_reached rtranclp.rtrancl_refl done_run_status] by blast

section \<open>Delivery and requests\<close>

text \<open>
  Delivery is gated. The hub receives a delivery request only for a task that was observed done in the
  delivery role, with a non-blank review receipt, naming the current agent, attempt and fence of the task;
  and only a receipt of the same run that confirms the remote effect is returned as success.
\<close>

theorem worker_delivery_gated:
  shows "(\<exists>status. bt_get (wr_statuses run) task_id = Some status \<and> as_role status = Delivery \<and> as_state status = Done
        \<and> \<not> is_blank review
        \<and> fst (worker_deliver transport run task_id review w) = fst (wt_deliver transport (delivery_request run task_id status review) w)
        \<and> dvq_agent_id (delivery_request run task_id status review) = ai_agent_id (as_attempt status)
        \<and> dvq_attempt (delivery_request run task_id status review) = ai_attempt (as_attempt status)
        \<and> dvq_fence (delivery_request run task_id status review) = ai_fence (as_attempt status)
        \<and> (case snd (worker_deliver transport run task_id review w) of
             Ok receipt \<Rightarrow> snd (wt_deliver transport (delivery_request run task_id status review) w) = Ok receipt
               \<and> dvr_remotely_confirmed receipt \<and> dvr_workflow_id receipt = wr_workflow_id run
           | _ \<Rightarrow> True))
    \<or> (fst (worker_deliver transport run task_id review w) = w \<and> (\<exists>e. snd (worker_deliver transport run task_id review w) = Err e))"
proof (cases "bt_get (wr_statuses run) task_id")
  case (Some status)
  show ?thesis
  proof (cases "as_role status = Delivery \<and> as_state status = Done \<and> \<not> is_blank review")
    case True
    obtain w' r where d: "wt_deliver transport (delivery_request run task_id status review) w = (w', r)" by fastforce
    with True Some show ?thesis
      by (intro disjI1 exI [of _ status]) (cases r; simp add: worker_deliver_def delivery_request_def)
  qed (use Some in \<open>auto simp: worker_deliver_def\<close>)
qed (simp add: worker_deliver_def)

lemma worker_rpc_once_log:
  assumes "worker_rpc_once (logging net) m payload (t, w, l) = (tw', r)"
  obtains t' w' q where "tw' = (t', w', l @ [(sk_channel t, q)])" and "wq_method q = m" and "r \<noteq> Panic"
    and "sk_poisoned t' = sk_poisoned t" and "sk_endpoint t' = sk_endpoint t"
proof -
  let ?q = "\<lparr>wq_schema = LOOP_HUB_CLIENT_SCHEMA, wq_id = sk_next_id t, wq_method = m, wq_payload = payload\<rparr>"
  obtain w1 r1 where "nt_write net (sk_channel t) ?q w = (w1, r1)" by fastforce
  moreover obtain w2 r2 where "nt_read net (sk_channel t) w1 = (w2, r2)" by fastforce
  ultimately show thesis
    using assms that by (cases r1; cases r2) (auto simp: worker_rpc_once_def channel_request_def logging_def)
qed

lemma worker_call_log:
  assumes "worker_call (logging net) de m payload safe (t, w, l) = ((t', w', l'), r)"
  shows "\<exists>new. l' = l @ new \<and> methods new \<in> {[], [m]} \<union> (if safe then {[m, m]} else {})"
proof (cases "(\<exists>e. payload = Inl e) \<or> sk_poisoned t")
  case True
  with assms have "l' = l" by (cases payload) (auto simp: worker_call_def worker_rpc_def)
  then show ?thesis by (auto simp: methods_def)
next
  case False
  then obtain v where v: "payload = Inr v" by (cases payload) auto
  obtain tw1 r1 where one: "worker_rpc_once (logging net) m v (t, w, l) = (tw1, r1)" by fastforce
  obtain t1 w1 q where q: "tw1 = (t1, w1, l @ [(sk_channel t, q)])" "wq_method q = m" "r1 \<noteq> Panic"
    "sk_poisoned t1 = sk_poisoned t" "sk_endpoint t1 = sk_endpoint t"
    using worker_rpc_once_log [OF one] .
  obtain wl2 c where c: "channel_connect (logging net) (sk_endpoint t1) (w1, l @ [(sk_channel t, q)]) = (wl2, c)" by fastforce
  have c2: "snd wl2 = l @ [(sk_channel t, q)]" "c \<noteq> Panic" using channel_connect_log [OF c] by auto
  consider (first) "l' = l @ [(sk_channel t, q)]"
    | (again) channel e where "r1 = Err (RpcIo e)" "c = Ok channel" "safe"
  proof (cases r1)
    case (Err failure)
    with assms v False one q c c2 that show thesis
      by (cases failure; cases c; cases wl2; cases safe)
        (auto simp: worker_call_def worker_rpc_def st_try_eq split: sum.splits)
  qed (use assms v False one q that in \<open>auto simp: worker_call_def worker_rpc_def st_try_eq\<close>)
  then show ?thesis
  proof cases
    case first
    with q(2) show ?thesis by auto
  next
    case again
    obtain w2 where wl2: "wl2 = (w2, l @ [(sk_channel t, q)])" using c2(1) by (cases wl2) simp
    obtain tw3 r3 where two: "worker_rpc_once (logging net) m v (t1\<lparr>sk_channel := channel\<rparr>, w2, l @ [(sk_channel t, q)]) = (tw3, r3)"
      by fastforce
    obtain t3 w3 q3 where q3: "tw3 = (t3, w3, (l @ [(sk_channel t, q)]) @ [(channel, q3)])" "wq_method q3 = m" "r3 \<noteq> Panic"
      by (rule worker_rpc_once_log [OF two]) simp
    have "l' = (l @ [(sk_channel t, q)]) @ [(channel, q3)]"
      using assms v False one q(1,3) c again wl2 two q3(1,3)
      by (cases r3) (auto simp: worker_call_def worker_rpc_def st_try_eq split: sum.splits)
    with q(2) q3(2) again(3) show ?thesis by (intro exI [of _ "[(sk_channel t, q), (channel, q3)]"]) simp
  qed
qed

text \<open>The methods of the requests written between two states.\<close>

definition new_methods ::
  "SocketWorkerHubTransport \<times> 'w \<times> 'v wire_log \<Rightarrow> SocketWorkerHubTransport \<times> 'w \<times> 'v wire_log \<Rightarrow> string list" where
  "new_methods tw tw' = methods (drop (length (snd (snd tw))) (snd (snd tw')))"

lemma worker_call_new:
  "new_methods tw (fst (worker_call (logging net) de m payload safe tw)) \<in> {[], [m]} \<union> (if safe then {[m, m]} else {})"
proof -
  obtain t w l where tw: "tw = (t, w, l)" by (cases tw) auto
  obtain t' w' l' r where x: "worker_call (logging net) de m payload safe tw = ((t', w', l'), r)" by (metis prod.exhaust)
  from worker_call_log [OF x [unfolded tw]] x show ?thesis by (auto simp: new_methods_def tw)
qed

text \<open>
  Over sockets, a delegation, a cancellation and a delivery are written at most once per call whatever
  the network does; only the status query may be written a second time.
\<close>

theorem worker_effects_sent_at_most_once:
  "let tr = socket_worker_transport (logging net) sd in
    new_methods tw (fst (wt_delegate tr dq tw)) \<in> {[], [''worker_delegate'']}
    \<and> new_methods tw (fst (wt_cancel tr cq tw)) \<in> {[], [''worker_cancel'']}
    \<and> new_methods tw (fst (wt_deliver tr vq tw)) \<in> {[], [''worker_deliver'']}
    \<and> new_methods tw (fst (wt_status tr sq tw)) \<in> {[], [''worker_status''], [''worker_status'', ''worker_status'']}"
  using worker_call_new [of tw net "wd_delegate sd" "''worker_delegate''" _ False]
    worker_call_new [of tw net "wd_delegate sd" "''worker_cancel''" _ False]
    worker_call_new [of tw net "wd_deliver sd" "''worker_deliver''" _ False]
    worker_call_new [of tw net "wd_status sd" "''worker_status''" _ True]
  unfolding Let_def socket_worker_transport_def by auto

end
