(* ===== verification/Rust_Int.thy ===== *)
theory Rust_Int
  imports Rust_Std
begin

text \<open>
  Arithmetic of the fixed-width unsigned integers of Rust: the saturating and the checked operations, and
  the plain operators, which panic when they overflow. The lemmas give each of them on the values.
\<close>

definition saturating_add :: "'a::len word \<Rightarrow> 'a word \<Rightarrow> 'a word" where
  "saturating_add a b = (if a \<le> a + b then a + b else - 1)"

definition saturating_sub :: "'a::len word \<Rightarrow> 'a word \<Rightarrow> 'a word" where
  "saturating_sub a b = (if b \<le> a then a - b else 0)"

definition checked_add_word :: "'a::len word \<Rightarrow> 'a word \<Rightarrow> 'a word option" where
  "checked_add_word a b = (if a \<le> a + b then Some (a + b) else None)"

definition plus_res :: "'a::len word \<Rightarrow> 'a word \<Rightarrow> ('e, 'a word) res" where
  "plus_res a b = (if a \<le> a + b then Ok (a + b) else Panic)"

definition minus_res :: "'a::len word \<Rightarrow> 'a word \<Rightarrow> ('e, 'a word) res" where
  "minus_res a b = (if b \<le> a then Ok (a - b) else Panic)"

text \<open>\<open>Iterator::sum\<close>.\<close>

fun sum_res :: "'a::len word \<Rightarrow> 'a word list \<Rightarrow> ('e, 'a word) res" where
  "sum_res acc [] = Ok acc"
| "sum_res acc (w # ws) = try_res (plus_res acc w) (\<lambda>acc'. sum_res acc' ws)"

lemma no_overflow_iff: "a \<le> a + b \<longleftrightarrow> unat a + unat b < 2 ^ LENGTH('a)" for a b :: "'a::len word"
proof
  assume "a \<le> a + b"
  then have le: "unat a \<le> (unat a + unat b) mod 2 ^ LENGTH('a)" by (simp only: word_le_nat_alt unat_word_ariths)
  have "\<not> a' \<le> (a' + b') mod m" if "a' < m" "b' < m" "m \<le> a' + b'" for a' b' m :: nat
    using that by (simp add: mod_if) linarith
  with le show "unat a + unat b < 2 ^ LENGTH('a)" by (meson not_less unat_lt)
next
  assume "unat a + unat b < 2 ^ LENGTH('a)"
  then show "a \<le> a + b" by (simp only: word_le_nat_alt unat_word_ariths) simp
qed

lemma unat_plus: "a \<le> a + b \<Longrightarrow> unat (a + b) = unat a + unat b" for a b :: "'a::len word"
  by (simp add: no_overflow_iff unat_word_ariths)

lemma unat_saturating_add:
  "unat (saturating_add a b) = min (unat a + unat b) (2 ^ LENGTH('a) - 1)" for a b :: "'a::len word"
proof (cases "a \<le> a + b")
  case True
  then show ?thesis using unat_plus [OF True] no_overflow_iff [of a b] by (simp add: saturating_add_def)
next
  case False
  with no_overflow_iff [of a b] show ?thesis by (simp add: saturating_add_def unsigned_minus_1_eq_mask mask_eq_exp_minus_1)
qed

lemma unat_saturating_sub: "unat (saturating_sub a b) = unat a - unat b" for a b :: "'a::len word"
  by (auto simp: saturating_sub_def unat_sub word_le_nat_alt)

lemma checked_add_word_iffs [res_simps]:
  "checked_add_word a b = Some c \<longleftrightarrow> unat a + unat b < 2 ^ LENGTH('a) \<and> c = a + b"
  "checked_add_word a b = None \<longleftrightarrow> 2 ^ LENGTH('a) \<le> unat a + unat b" for a b :: "'a::len word"
  by (auto simp: checked_add_word_def no_overflow_iff)

lemma plus_res_iffs [res_simps]:
  "plus_res a b = Ok c \<longleftrightarrow> unat a + unat b < 2 ^ LENGTH('a) \<and> c = a + b"
  "plus_res a b \<noteq> Err e"
  "plus_res a b = Panic \<longleftrightarrow> 2 ^ LENGTH('a) \<le> unat a + unat b" for a b :: "'a::len word"
  by (auto simp: plus_res_def no_overflow_iff)

lemma minus_res_iffs [res_simps]:
  "minus_res a b = Ok c \<longleftrightarrow> b \<le> a \<and> c = a - b"
  "minus_res a b \<noteq> Err e"
  "minus_res a b = Panic \<longleftrightarrow> a < b" for a b :: "'a::len word"
  by (auto simp: minus_res_def)

lemma sum_res_eq:
  "sum_res a ws = (if unat a + sum_list (map unat ws) < 2 ^ LENGTH('a) then Ok (of_nat (unat a + sum_list (map unat ws))) else Panic)"
  for a :: "'a::len word"
proof (induction ws arbitrary: a)
  case (Cons w ws)
  show ?case
  proof (cases "a \<le> a + w")
    case True
    then show ?thesis using Cons.IH [of "a + w"] unat_plus [OF True] by (simp add: plus_res_def add.assoc)
  next
    case False
    then show ?thesis using no_overflow_iff [of a w] by (simp add: plus_res_def)
  qed
qed (use unat_lt [of a] in simp)

end
