(* ===== verification/External_Router.thy ===== *)
theory External_Router
  imports Rust_Int Rust_Text BTree_Map "HOL-Library.Product_Lexorder"
begin

text \<open>
  The admission and routing of externally invoked models (\<open>external_routing.rs\<close>): observations of providers,
  budgets per scope, the router with its capacity, its open effects and its accounting, and the registry of
  context packs. The hash of a context pack is a parameter.
\<close>

section \<open>Observations, scopes, money\<close>

definition EXTERNAL_ROUTING_SCHEMA :: string where
  "EXTERNAL_ROUTING_SCHEMA = ''simplicio.external-routing/v1''"

datatype WorkPolicy = Interactive | Background | Review | Delivery

datatype MeasurementState = Measured | Estimated | Missing | Failed

record 'a Observation =
  ob_state :: MeasurementState
  ob_value :: "'a option"
  ob_reason :: "string option"

definition measured :: "'a \<Rightarrow> 'a Observation" where
  "measured v = \<lparr>ob_state = Measured, ob_value = Some v, ob_reason = None\<rparr>"

definition estimated :: "'a \<Rightarrow> 'a Observation" where
  "estimated v = \<lparr>ob_state = Estimated, ob_value = Some v, ob_reason = None\<rparr>"

definition missing :: "string \<Rightarrow> 'a Observation" where
  "missing reason = \<lparr>ob_state = Missing, ob_value = None, ob_reason = Some reason\<rparr>"

definition failed :: "string \<Rightarrow> 'a Observation" where
  "failed reason = \<lparr>ob_state = Failed, ob_value = None, ob_reason = Some reason\<rparr>"

definition usable :: "'a Observation \<Rightarrow> 'a option" where
  "usable ob = (if ob_state ob = Measured \<or> ob_state ob = Estimated then ob_value ob else None)"

record BudgetScope =
  bs_organization :: string
  bs_project :: string
  bs_session :: string
  bs_turn :: string
  bs_stage :: string
  bs_agent :: string

datatype RoutingError =
    Invalid string
  | Denied string
  | EffectUnknown string
  | AccountingConflict string

fun first_empty :: "(string \<times> string) list \<Rightarrow> (RoutingError, unit) res" where
  "first_empty [] = Ok ()"
| "first_empty ((name, value) # rest) =
     (if is_blank value then Err (Invalid (name @ '' is empty'')) else first_empty rest)"

definition scope_validate :: "BudgetScope \<Rightarrow> (RoutingError, unit) res" where
  "scope_validate s = first_empty
     [(''organization'', bs_organization s), (''project'', bs_project s), (''session'', bs_session s),
      (''turn'', bs_turn s), (''stage'', bs_stage s), (''agent'', bs_agent s)]"

record Money =
  mn_currency :: string
  mn_micros :: u64

definition ascii_upper :: "char \<Rightarrow> char" where
  "ascii_upper c = (if 97 \<le> ord c \<and> ord c \<le> 122 then char_of (ord c - 32) else c)"

definition new_money :: "string \<Rightarrow> u64 \<Rightarrow> (RoutingError, Money) res" where
  "new_money currency0 micros =
     (let currency = map ascii_upper currency0 in
      if length currency \<noteq> 3 \<or> \<not> list_all (\<lambda>b. 65 \<le> ord b \<and> ord b \<le> 90) currency
      then Err (Invalid ''currency must be a three-letter ISO-style code'')
      else Ok \<lparr>mn_currency = currency, mn_micros = micros\<rparr>)"

section \<open>Requests and routes\<close>

record BudgetLimit =
  bl_max_input_tokens :: "u64 option"
  bl_max_output_tokens :: "u64 option"
  bl_max_context_bytes :: "u64 option"
  bl_max_cost :: "Money option"

record Usage =
  us_input_tokens :: u64
  us_output_tokens :: u64
  us_context_bytes :: u64
  us_costs :: "(string, u64) btree"

definition default_usage :: Usage where
  "default_usage = \<lparr>us_input_tokens = 0, us_output_tokens = 0, us_context_bytes = 0, us_costs = []\<rparr>"

record ProviderSignals =
  ps_quota_remaining_tokens :: "u64 Observation"
  ps_latency_ms :: "u64 Observation"
  ps_healthy :: "bool Observation"
  ps_input_tokens :: "u64 Observation"
  ps_output_tokens :: "u64 Observation"
  ps_context_bytes :: "u64 Observation"
  ps_cache_hit :: "bool Observation"
  ps_cost :: "Money Observation"

record ExternalRoute =
  rt_route_id :: string
  rt_provider :: string
  rt_externally_authorized :: bool
  rt_signals :: ProviderSignals

record RoutingRequest =
  dq_dispatch_id :: string
  dq_scope :: BudgetScope
  dq_policy :: WorkPolicy
  dq_candidates :: "ExternalRoute list"
  dq_expected_input_tokens :: u64
  dq_expected_output_tokens :: u64
  dq_context_bytes :: u64
  dq_fan_out :: u32
  dq_effect_reconciled :: bool

record RouteExplanation =
  ex_schema :: string
  ex_dispatch_id :: string
  ex_policy :: WorkPolicy
  ex_selected_route_id :: "string option"
  ex_selected_provider :: "string option"
  ex_reason :: string
  ex_signals_used :: "string list"
  ex_admitted :: bool

section \<open>The router\<close>

record RouterConfig =
  rc_max_fan_out :: u32
  rc_max_active :: u32
  rc_interactive_reserved :: u32

text \<open>A receipt is what \<open>reconciled\<close> remembers of a dispatch: its scope, usage and policy.\<close>

type_synonym ReceiptEntry = "BudgetScope \<times> Usage \<times> WorkPolicy"

record ExternalRouter =
  er_config :: RouterConfig
  er_limits :: "BudgetScope \<rightharpoonup> BudgetLimit"
  er_usage :: "BudgetScope \<rightharpoonup> Usage"
  er_active_interactive :: u32
  er_active_background :: u32
  er_effects :: "string set"
  er_reconciled :: "string \<rightharpoonup> ReceiptEntry"

definition new_router :: "RouterConfig \<Rightarrow> (RoutingError, ExternalRouter) res" where
  "new_router config =
     (if rc_max_fan_out config = 0 \<or> rc_max_active config = 0 \<or> rc_interactive_reserved config = 0
         \<or> rc_interactive_reserved config > rc_max_active config
      then Err (Invalid ''capacity bounds must be non-zero and interactive_reserved <= max_active'')
      else Ok \<lparr>er_config = config, er_limits = Map.empty, er_usage = Map.empty, er_active_interactive = 0,
               er_active_background = 0, er_effects = {}, er_reconciled = Map.empty\<rparr>)"

definition set_budget ::
  "BudgetScope \<Rightarrow> BudgetLimit \<Rightarrow> ExternalRouter \<Rightarrow> ExternalRouter \<times> (RoutingError, unit) res" where
  "set_budget scope limit r =
     st_try r (scope_validate scope) (\<lambda>_. (r\<lparr>er_limits := (er_limits r)(scope \<mapsto> limit)\<rparr>, Ok ()))"

definition router_usage :: "ExternalRouter \<Rightarrow> BudgetScope \<Rightarrow> Usage" where
  "router_usage r scope = (case er_usage r scope of None \<Rightarrow> default_usage | Some u \<Rightarrow> u)"

definition denied :: "RoutingRequest \<Rightarrow> string \<Rightarrow> (RoutingError, RouteExplanation) res" where
  "denied q reason = Ok
     \<lparr>ex_schema = EXTERNAL_ROUTING_SCHEMA, ex_dispatch_id = dq_dispatch_id q, ex_policy = dq_policy q,
      ex_selected_route_id = None, ex_selected_provider = None, ex_reason = reason,
      ex_signals_used = [''external_authority'', ''quota'', ''health'', ''capacity'', ''budget''],
      ex_admitted = False\<rparr>"

definition check_capacity :: "RoutingRequest \<Rightarrow> ExternalRouter \<Rightarrow> (RoutingError, unit) res" where
  "check_capacity q r =
     try_res (plus_res (er_active_interactive r) (er_active_background r)) (\<lambda>total.
       if total \<ge> rc_max_active (er_config r) then Err (Denied ''backpressure: active capacity exhausted'')
       else if dq_policy q = Interactive then Ok ()
       else try_res (minus_res (rc_max_active (er_config r)) (rc_interactive_reserved (er_config r))) (\<lambda>open_slots.
         if er_active_background r \<ge> open_slots
         then Err (Denied ''backpressure: capacity reserved for interactive work'')
         else Ok ()))"

definition over_limit :: "u64 option \<Rightarrow> u64 \<Rightarrow> u64 \<Rightarrow> bool" where
  "over_limit limit used expected = (case limit of None \<Rightarrow> False | Some v \<Rightarrow> saturating_add used expected > v)"

definition check_budget :: "RoutingRequest \<Rightarrow> ExternalRouter \<Rightarrow> (RoutingError, unit) res" where
  "check_budget q r =
     (case er_limits r (dq_scope q) of
        None \<Rightarrow> Ok ()
      | Some limit \<Rightarrow>
          let used = router_usage r (dq_scope q) in
          if over_limit (bl_max_input_tokens limit) (us_input_tokens used) (dq_expected_input_tokens q)
             \<or> over_limit (bl_max_output_tokens limit) (us_output_tokens used) (dq_expected_output_tokens q)
             \<or> over_limit (bl_max_context_bytes limit) (us_context_bytes used) (dq_context_bytes q)
          then Err (Denied ''declared token/context budget exhausted'')
          else Ok ())"

section \<open>Recommendation\<close>

definition unwrap_or :: "'a \<Rightarrow> 'a option \<Rightarrow> 'a" where
  "unwrap_or d m = (case m of None \<Rightarrow> d | Some x \<Rightarrow> x)"

definition eligible_route :: "RoutingRequest \<Rightarrow> ExternalRoute \<Rightarrow> bool" where
  "eligible_route q route \<longleftrightarrow>
     rt_externally_authorized route
     \<and> \<not> is_blank (rt_route_id route)
     \<and> unwrap_or True (usable (ps_healthy (rt_signals route)))
     \<and> (case usable (ps_quota_remaining_tokens (rt_signals route)) of
          None \<Rightarrow> True
        | Some quota \<Rightarrow> quota \<ge> saturating_add (dq_expected_input_tokens q) (dq_expected_output_tokens q))"

definition route_key :: "ExternalRoute \<Rightarrow> u64 \<times> u64 \<times> string" where
  "route_key route =
     (unwrap_or (- 1) (usable (ps_latency_ms (rt_signals route))),
      unwrap_or (- 1) (map_option mn_micros (usable (ps_cost (rt_signals route)))),
      rt_route_id route)"

definition check_cost :: "RoutingRequest \<Rightarrow> ExternalRoute \<Rightarrow> ExternalRouter \<Rightarrow> (RoutingError, unit) res" where
  "check_cost q selected r =
     (case (Option.bind (er_limits r (dq_scope q)) bl_max_cost, usable (ps_cost (rt_signals selected))) of
        (Some limit, Some cost) \<Rightarrow>
          if mn_currency limit \<noteq> mn_currency cost
          then Err (Denied ''route cost currency does not match the declared budget'')
          else
            let used = unwrap_or 0 (bt_get (us_costs (router_usage r (dq_scope q))) (mn_currency limit)) in
            if saturating_add used (mn_micros cost) > mn_micros limit
            then Err (Denied ''declared cost budget exhausted'')
            else Ok ()
      | _ \<Rightarrow> Ok ())"

definition take_slot :: "WorkPolicy \<Rightarrow> ExternalRouter \<Rightarrow> (RoutingError, ExternalRouter) res" where
  "take_slot policy r =
     (if policy = Interactive
      then try_res (plus_res (er_active_interactive r) 1) (\<lambda>n. Ok (r\<lparr>er_active_interactive := n\<rparr>))
      else try_res (plus_res (er_active_background r) 1) (\<lambda>n. Ok (r\<lparr>er_active_background := n\<rparr>)))"

definition admission_of :: "RoutingRequest \<Rightarrow> ExternalRoute \<Rightarrow> RouteExplanation" where
  "admission_of q selected =
     \<lparr>ex_schema = EXTERNAL_ROUTING_SCHEMA, ex_dispatch_id = dq_dispatch_id q, ex_policy = dq_policy q,
      ex_selected_route_id = Some (rt_route_id selected), ex_selected_provider = Some (rt_provider selected),
      ex_reason = ''lowest observed latency, then cost, among externally authorized healthy routes within quota and budget'',
      ex_signals_used =
        [''external_authority'', ''quota'', ''health'', ''latency'', ''cost'', ''capacity'', ''budget''],
      ex_admitted = True\<rparr>"

definition recommend ::
  "RoutingRequest \<Rightarrow> ExternalRouter \<Rightarrow> ExternalRouter \<times> (RoutingError, RouteExplanation) res" where
  "recommend q r =
     st_try r (scope_validate (dq_scope q)) (\<lambda>_.
       if is_blank (dq_dispatch_id q) then (r, Err (Invalid ''dispatch_id is empty''))
       else if dq_dispatch_id q \<in> er_effects r \<and> \<not> dq_effect_reconciled q
       then (r, Err (EffectUnknown (dq_dispatch_id q)))
       else if dq_fan_out q = 0 \<or> dq_fan_out q > rc_max_fan_out (er_config r)
       then (r, denied q ''fan-out cap exceeded'')
       else st_try r (check_capacity q r) (\<lambda>_. st_try r (check_budget q r) (\<lambda>_.
         let eligible = filter (eligible_route q) (dq_candidates q) in
         if eligible = [] then (r, denied q ''no externally authorized route has usable quota/health'')
         else st_try r (index (sort_key route_key eligible) 0) (\<lambda>selected.
           st_try r (check_cost q selected r) (\<lambda>_.
             let r = r\<lparr>er_effects := insert (dq_dispatch_id q) (er_effects r)\<rparr> in
             st_try r (take_slot (dq_policy q) r) (\<lambda>r. (r, Ok (admission_of q selected))))))))"

section \<open>Reconciliation and cancellation\<close>

text \<open>The additions to the usage entry of a scope: those before a failing one stay.\<close>

fun charge_costs :: "string \<Rightarrow> (string \<times> u64) list \<Rightarrow> Usage \<Rightarrow> Usage \<times> (RoutingError, unit) res" where
  "charge_costs did [] entry = (entry, Ok ())"
| "charge_costs did ((currency, micros) # costs) entry =
     st_try entry (ok_or (AccountingConflict did)
         (checked_add_word (unwrap_or 0 (bt_get (us_costs entry) currency)) micros)) (\<lambda>n.
       charge_costs did costs (entry\<lparr>us_costs := bt_insert currency n (us_costs entry)\<rparr>))"

definition charge :: "string \<Rightarrow> Usage \<Rightarrow> Usage \<Rightarrow> Usage \<times> (RoutingError, unit) res" where
  "charge did actual entry =
     st_try entry (ok_or (AccountingConflict did)
         (checked_add_word (us_input_tokens entry) (us_input_tokens actual))) (\<lambda>n.
       let entry = entry\<lparr>us_input_tokens := n\<rparr> in
       st_try entry (ok_or (AccountingConflict did)
           (checked_add_word (us_output_tokens entry) (us_output_tokens actual))) (\<lambda>n.
         let entry = entry\<lparr>us_output_tokens := n\<rparr> in
         st_try entry (ok_or (AccountingConflict did)
             (checked_add_word (us_context_bytes entry) (us_context_bytes actual))) (\<lambda>n.
           charge_costs did (us_costs actual) (entry\<lparr>us_context_bytes := n\<rparr>))))"

definition release_slot :: "WorkPolicy \<Rightarrow> ExternalRouter \<Rightarrow> ExternalRouter" where
  "release_slot policy r =
     (if policy = Interactive
      then r\<lparr>er_active_interactive := saturating_sub (er_active_interactive r) 1\<rparr>
      else r\<lparr>er_active_background := saturating_sub (er_active_background r) 1\<rparr>)"

definition reconcile ::
  "string \<Rightarrow> BudgetScope \<Rightarrow> Usage \<Rightarrow> WorkPolicy \<Rightarrow> ExternalRouter \<Rightarrow> ExternalRouter \<times> (RoutingError, bool) res" where
  "reconcile did scope actual policy r =
     (case er_reconciled r did of
        Some previous \<Rightarrow>
          (r, if previous = (scope, actual, policy) then Ok False else Err (AccountingConflict did))
      | None \<Rightarrow>
          if did \<notin> er_effects r then (r, Ok False)
          else
            let r = r\<lparr>er_effects := er_effects r - {did}\<rparr> in
            case charge did actual (router_usage r scope) of (entry, res) \<Rightarrow>
              let r = r\<lparr>er_usage := (er_usage r)(scope \<mapsto> entry)\<rparr> in
              st_try r res (\<lambda>_.
                let r = release_slot policy r in
                (r\<lparr>er_reconciled := (er_reconciled r)(did \<mapsto> (scope, actual, policy))\<rparr>, Ok True)))"

definition cancel_before_effect :: "string \<Rightarrow> WorkPolicy \<Rightarrow> ExternalRouter \<Rightarrow> ExternalRouter \<times> bool" where
  "cancel_before_effect did policy r =
     (if did \<notin> er_effects r then (r, False)
      else (release_slot policy (r\<lparr>er_effects := er_effects r - {did}\<rparr>), True))"

section \<open>Context packs\<close>

record ContextPack =
  cp_hash :: string
  cp_provenance :: "string list"
  cp_bytes :: u64

type_synonym ContextPackRegistry = "string \<rightharpoonup> ContextPack"

text \<open>\<open>sort\<close> followed by \<open>dedup\<close>, which drops repeated neighbours.\<close>

definition sort_dedup :: "string list \<Rightarrow> string list" where
  "sort_dedup xs = remdups_adj (sort xs)"

definition pack_insert ::
  "(byte list \<Rightarrow> string) \<Rightarrow> byte list \<Rightarrow> string list \<Rightarrow> ContextPackRegistry
     \<Rightarrow> ContextPackRegistry \<times> (RoutingError, ContextPack \<times> bool) res" where
  "pack_insert blake3_hex content provenance packs =
     (if provenance = [] \<or> list_ex is_blank provenance
      then (packs, Err (Invalid ''context provenance is required''))
      else
        let provenance = sort_dedup provenance;
            hash = blake3_hex content
        in case packs hash of
             Some existing \<Rightarrow>
               let existing = existing\<lparr>cp_provenance := sort_dedup (cp_provenance existing @ provenance)\<rparr>
               in (packs(hash \<mapsto> existing), Ok (existing, True))
           | None \<Rightarrow>
               let pack = \<lparr>cp_hash = hash, cp_provenance = provenance, cp_bytes = of_nat (length content)\<rparr>
               in (packs(hash \<mapsto> pack), Ok (pack, False)))"

section \<open>Histories of calls\<close>

datatype RouterOp =
    DoSetBudget BudgetScope BudgetLimit
  | DoRecommend RoutingRequest
  | DoReconcile string BudgetScope Usage WorkPolicy
  | DoCancel string WorkPolicy

datatype RouterOut =
    OutBudget "(RoutingError, unit) res"
  | OutRoute "(RoutingError, RouteExplanation) res"
  | OutReconcile "(RoutingError, bool) res"
  | OutCancel bool

fun router_exec :: "RouterOp \<Rightarrow> ExternalRouter \<Rightarrow> ExternalRouter \<times> RouterOut" where
  "router_exec (DoSetBudget scope limit) r = apsnd OutBudget (set_budget scope limit r)"
| "router_exec (DoRecommend q) r = apsnd OutRoute (recommend q r)"
| "router_exec (DoReconcile did scope actual policy) r = apsnd OutReconcile (reconcile did scope actual policy r)"
| "router_exec (DoCancel did policy) r = apsnd OutCancel (cancel_before_effect did policy r)"

fun router_run :: "RouterOp list \<Rightarrow> ExternalRouter \<Rightarrow> ExternalRouter \<times> (RouterOp \<times> RouterOut) list" where
  "router_run [] r = (r, [])"
| "router_run (op # ops) r =
     (case router_exec op r of (r, out) \<Rightarrow> apsnd (Cons (op, out)) (router_run ops r))"

end
