(* ===== verification/Router_Properties.thy ===== *)
theory Router_Properties
  imports External_Router
begin

text \<open>
  What the external router promises: its slots are never oversubscribed and some are kept for interactive work,
  it admits exactly the requests within quota, capacity and budget and selects the best route, each dispatch is
  charged once and the accounts are the sums of the receipts, and context packs merge their provenance.
\<close>

section \<open>Capacity\<close>

definition router_inv :: "ExternalRouter \<Rightarrow> bool" where
  "router_inv r \<longleftrightarrow>
     0 < rc_interactive_reserved (er_config r)
     \<and> unat (er_active_background r) + unat (rc_interactive_reserved (er_config r)) \<le> unat (rc_max_active (er_config r))
     \<and> unat (er_active_interactive r) + unat (er_active_background r) \<le> unat (rc_max_active (er_config r))"

definition slot_free :: "WorkPolicy \<Rightarrow> ExternalRouter \<Rightarrow> bool" where
  "slot_free policy r \<longleftrightarrow>
     unat (er_active_interactive r) + unat (er_active_background r) < unat (rc_max_active (er_config r))
     \<and> (policy = Interactive
        \<or> unat (er_active_background r) + unat (rc_interactive_reserved (er_config r)) < unat (rc_max_active (er_config r)))"

lemma router_sums_fit:
  assumes "router_inv r"
  shows "unat (er_active_interactive r) + unat (er_active_background r) < 2 ^ 32"
    and "rc_interactive_reserved (er_config r) \<le> rc_max_active (er_config r)"
proof -
  have "unat (rc_max_active (er_config r)) < 2 ^ LENGTH(32)" by (rule unat_lt)
  with assms show "unat (er_active_interactive r) + unat (er_active_background r) < 2 ^ 32"
    by (simp add: router_inv_def)
  show "rc_interactive_reserved (er_config r) \<le> rc_max_active (er_config r)"
    using assms by (simp add: router_inv_def word_le_nat_alt)
qed

lemma check_capacity_exact:
  assumes "router_inv r"
  shows "check_capacity q r = Ok () \<longleftrightarrow> slot_free (dq_policy q) r" and "check_capacity q r \<noteq> Panic"
proof -
  note fit = router_sums_fit [OF assms]
  have "unat (er_active_interactive r + er_active_background r) = unat (er_active_interactive r) + unat (er_active_background r)"
    using fit(1) by (simp add: unat_plus no_overflow_iff)
  moreover have "unat (rc_max_active (er_config r) - rc_interactive_reserved (er_config r))
      = unat (rc_max_active (er_config r)) - unat (rc_interactive_reserved (er_config r))"
    using fit(2) by (simp add: unat_sub word_le_nat_alt)
  ultimately show "check_capacity q r = Ok () \<longleftrightarrow> slot_free (dq_policy q) r" and "check_capacity q r \<noteq> Panic"
    using fit assms
    by (auto simp: check_capacity_def slot_free_def plus_res_def minus_res_def no_overflow_iff word_le_nat_alt router_inv_def)
qed

section \<open>Selection\<close>

text \<open>The first of the best: no other element has a smaller key, and of those with its key it comes first.\<close>

definition first_best :: "('a \<Rightarrow> 'k::linorder) \<Rightarrow> 'a list \<Rightarrow> 'a \<Rightarrow> bool" where
  "first_best f xs x \<longleftrightarrow> x \<in> set xs \<and> (\<forall>y \<in> set xs. f x \<le> f y) \<and> find (\<lambda>y. f y = f x) xs = Some x"

lemma find_filter: "filter P xs = y # ys \<Longrightarrow> find P xs = Some y"
  by (induction xs) (auto split: if_splits)

lemma first_best_sort:
  assumes "xs \<noteq> []"
  shows "\<exists>z. index (sort_key f xs) 0 = Ok z \<and> (\<forall>x. first_best f xs x \<longleftrightarrow> x = z)"
proof -
  from assms obtain z zs where z: "sort_key f xs = z # zs" 
    using length_sort [of f xs] by (cases "sort_key f xs") auto
  have "sorted (map f (z # zs))" using sorted_sort_key [of f xs] by (simp only: z)
  then have least: "\<forall>y \<in> set xs. f z \<le> f y" and mem: "z \<in> set xs"
    using z set_sort [of f xs] by auto
  have "filter (\<lambda>y. f y = f z) xs = filter (\<lambda>y. f y = f z) (z # zs)"
    using sort_key_stable [of f "f z" xs] z by simp
  then have found: "find (\<lambda>y. f y = f z) xs = Some z" by (simp add: find_filter)
  with least mem have "first_best f xs z" by (simp add: first_best_def)
  moreover have "x = z" if "first_best f xs x" for x
  proof -
    from that mem have "f x \<le> f z" by (simp add: first_best_def)
    moreover from that least have "f z \<le> f x" by (simp add: first_best_def)
    ultimately have "f x = f z" by (rule order.antisym)
    with that have "find (\<lambda>y. f y = f z) xs = Some x" by (simp add: first_best_def)
    with found show ?thesis by simp
  qed
  ultimately have "\<forall>x. first_best f xs x \<longleftrightarrow> x = z" by blast
  moreover have "index (sort_key f xs) 0 = Ok z" by (simp add: z index_def)
  ultimately show ?thesis by blast
qed

section \<open>Budgets\<close>

text \<open>A limit of \<open>u64::MAX\<close> is no limit, because the sums saturate there.\<close>

definition within :: "u64 option \<Rightarrow> nat \<Rightarrow> bool" where
  "within limit n \<longleftrightarrow> (case limit of None \<Rightarrow> True | Some v \<Rightarrow> n \<le> unat v \<or> v = - 1)"

lemma saturating_within: "saturating_add a b \<le> v \<longleftrightarrow> within (Some v) (unat a + unat b)"
proof -
  have top: "v = - 1 \<longleftrightarrow> unat v = 2 ^ 64 - 1"
    by (simp add: word_unat_eq_iff unsigned_minus_1_eq_mask mask_eq_exp_minus_1)
  have "unat v < 2 ^ 64" using unat_lt [of v] by simp
  with top show ?thesis by (auto simp: within_def word_le_nat_alt unat_saturating_add)
qed

definition in_budget :: "RoutingRequest \<Rightarrow> ExternalRouter \<Rightarrow> bool" where
  "in_budget q r \<longleftrightarrow>
     (case er_limits r (dq_scope q) of
        None \<Rightarrow> True
      | Some limit \<Rightarrow>
          let used = router_usage r (dq_scope q) in
          within (bl_max_input_tokens limit) (unat (us_input_tokens used) + unat (dq_expected_input_tokens q))
          \<and> within (bl_max_output_tokens limit) (unat (us_output_tokens used) + unat (dq_expected_output_tokens q))
          \<and> within (bl_max_context_bytes limit) (unat (us_context_bytes used) + unat (dq_context_bytes q)))"

definition affordable :: "RoutingRequest \<Rightarrow> ExternalRouter \<Rightarrow> ExternalRoute \<Rightarrow> bool" where
  "affordable q r route \<longleftrightarrow>
     (case (Option.bind (er_limits r (dq_scope q)) bl_max_cost, usable (ps_cost (rt_signals route))) of
        (Some limit, Some cost) \<Rightarrow>
          mn_currency cost = mn_currency limit
          \<and> within (Some (mn_micros limit))
              (unat (unwrap_or 0 (bt_get (us_costs (router_usage r (dq_scope q))) (mn_currency limit))) + unat (mn_micros cost))
      | _ \<Rightarrow> True)"

lemma over_limit_within: "over_limit limit used expected \<longleftrightarrow> \<not> within limit (unat used + unat expected)"
proof (cases limit)
  case (Some v)
  then show ?thesis using saturating_within [of used expected v] by (auto simp: over_limit_def)
qed (simp add: over_limit_def within_def)

lemma check_budget_exact: "check_budget q r = Ok () \<longleftrightarrow> in_budget q r" "check_budget q r \<noteq> Panic"
  by (auto simp: check_budget_def in_budget_def over_limit_within Let_def split: option.splits)

lemma check_cost_exact: "check_cost q route r = Ok () \<longleftrightarrow> affordable q r route" "check_cost q route r \<noteq> Panic"
  by (auto simp: check_cost_def affordable_def saturating_within [symmetric] Let_def split: option.splits)

section \<open>Admission\<close>

definition named_scope :: "BudgetScope \<Rightarrow> bool" where
  "named_scope s \<longleftrightarrow> list_all (\<lambda>v. \<not> is_blank v)
     [bs_organization s, bs_project s, bs_session s, bs_turn s, bs_stage s, bs_agent s]"

lemma scope_validate_exact: "scope_validate s = Ok () \<longleftrightarrow> named_scope s" "scope_validate s \<noteq> Panic"
  by (auto simp: scope_validate_def named_scope_def)

definition admissible :: "RoutingRequest \<Rightarrow> ExternalRouter \<Rightarrow> ExternalRoute \<Rightarrow> bool" where
  "admissible q r route \<longleftrightarrow>
     named_scope (dq_scope q) \<and> \<not> is_blank (dq_dispatch_id q)
     \<and> (dq_dispatch_id q \<in> er_effects r \<longrightarrow> dq_effect_reconciled q)
     \<and> 0 < dq_fan_out q \<and> dq_fan_out q \<le> rc_max_fan_out (er_config r)
     \<and> slot_free (dq_policy q) r \<and> in_budget q r
     \<and> first_best route_key (filter (eligible_route q) (dq_candidates q)) route
     \<and> affordable q r route"

definition admit :: "RoutingRequest \<Rightarrow> ExternalRouter \<Rightarrow> ExternalRouter" where
  "admit q r =
     (let r = r\<lparr>er_effects := insert (dq_dispatch_id q) (er_effects r)\<rparr> in
      if dq_policy q = Interactive then r\<lparr>er_active_interactive := er_active_interactive r + 1\<rparr>
      else r\<lparr>er_active_background := er_active_background r + 1\<rparr>)"

lemma take_slot_admit:
  assumes "router_inv r" and "slot_free (dq_policy q) r"
  shows "take_slot (dq_policy q) (r\<lparr>er_effects := insert (dq_dispatch_id q) (er_effects r)\<rparr>) = Ok (admit q r)"
proof -
  have "unat (rc_max_active (er_config r)) < 2 ^ 32" using unat_lt [of "rc_max_active (er_config r)"] by simp
  with assms have "unat (er_active_interactive r) + 1 < 2 ^ 32" "unat (er_active_background r) + 1 < 2 ^ 32"
    by (auto simp: slot_free_def)
  then show ?thesis by (simp add: take_slot_def admit_def plus_res_def no_overflow_iff)
qed

lemma index_first_best:
  fixes xs :: "'a list" and f :: "'a \<Rightarrow> 'k::linorder"
  assumes "xs \<noteq> []"
  shows "(index (sort_key f xs) 0 :: ('e, 'a) res) = Ok x \<longleftrightarrow> first_best f xs x"
    and "\<exists>z. (index (sort_key f xs) 0 :: ('e, 'a) res) = Ok z"
proof -
  obtain z where z: "(index (sort_key f xs) 0 :: ('e, 'a) res) = Ok z" and best: "\<forall>x. first_best f xs x \<longleftrightarrow> x = z"
    using first_best_sort [OF assms, of f] by (elim exE conjE)
  from z show "\<exists>z. (index (sort_key f xs) 0 :: ('e, 'a) res) = Ok z" by (rule exI)
  show "(index (sort_key f xs) 0 :: ('e, 'a) res) = Ok x \<longleftrightarrow> first_best f xs x"
    unfolding z using best by (simp only: res.inject) (rule eq_commute)
qed

lemma first_best_Nil [simp]: "\<not> first_best f [] x"
  by (simp add: first_best_def)

text \<open>Every run of \<open>recommend\<close>: it admits exactly the admissible route, or leaves the router as it was.\<close>

lemma recommend_admits:
  assumes "router_inv r" and "admissible q r route"
  shows "recommend q r = (admit q r, Ok (admission_of q route))"
proof -
  have "scope_validate (dq_scope q) = Ok ()" "check_capacity q r = Ok ()" "check_budget q r = Ok ()"
      "check_cost q route r = Ok ()" "dq_fan_out q \<noteq> 0" "\<not> rc_max_fan_out (er_config r) < dq_fan_out q"
    using assms
    by (simp_all add: admissible_def scope_validate_exact check_capacity_exact check_budget_exact check_cost_exact
        word_gt_0 leD)
  moreover have ne: "filter (eligible_route q) (dq_candidates q) \<noteq> []"
    using assms(2) by (auto simp: admissible_def first_best_def simp del: filter_empty_conv)
  moreover have "(index (sort_key route_key (filter (eligible_route q) (dq_candidates q))) 0 :: (RoutingError, _) res) = Ok route"
    using assms(2) by (simp only: index_first_best(1) [OF ne] admissible_def)
  ultimately show ?thesis
    using assms(2) take_slot_admit [OF assms(1), of q] by (simp add: recommend_def admissible_def Let_def del: filter_empty_conv)
qed

definition refusal :: "ExternalRouter \<Rightarrow> ExternalRouter \<times> (RoutingError, RouteExplanation) res \<Rightarrow> bool" where
  "refusal r out \<longleftrightarrow> fst out = r \<and> snd out \<noteq> Panic \<and> (case snd out of Ok ex \<Rightarrow> \<not> ex_admitted ex | _ \<Rightarrow> True)"

lemma refusal_simps [simp]: "refusal r (r, Err e)" "refusal r (r, denied q reason)"
  by (simp_all add: refusal_def denied_def)

lemma refusal_check:
  "c \<noteq> Panic \<Longrightarrow> (c = Ok () \<Longrightarrow> refusal r (k ())) \<Longrightarrow> refusal r (st_try r c k)"
  by (cases c) simp_all

lemma refusal_pick:
  "c \<noteq> Panic \<Longrightarrow> (\<And>x :: ExternalRoute. c = Ok x \<Longrightarrow> refusal r (k x)) \<Longrightarrow> refusal r (st_try r c k)"
  by (cases c) simp_all

lemma refusal_if: "(c \<Longrightarrow> refusal r a) \<Longrightarrow> (\<not> c \<Longrightarrow> refusal r b) \<Longrightarrow> refusal r (if c then a else b)"
  by simp

lemma recommend_refuses:
  assumes inv: "router_inv r" and none: "\<forall>route. \<not> admissible q r route"
  shows "refusal r (recommend q r)"
  unfolding recommend_def Let_def
proof (intro refusal_check refusal_pick refusal_if refusal_simps)
  fix selected
  assume "scope_validate (dq_scope q) = Ok ()" "\<not> is_blank (dq_dispatch_id q)"
    "\<not> (dq_dispatch_id q \<in> er_effects r \<and> \<not> dq_effect_reconciled q)"
    "\<not> (dq_fan_out q = 0 \<or> rc_max_fan_out (er_config r) < dq_fan_out q)"
    "check_capacity q r = Ok ()" "check_budget q r = Ok ()" "check_cost q selected r = Ok ()"
    and ne: "filter (eligible_route q) (dq_candidates q) \<noteq> []"
    and "(index (sort_key route_key (filter (eligible_route q) (dq_candidates q))) 0 :: (RoutingError, _) res) = Ok selected"
  then have "admissible q r selected"
    by (simp add: admissible_def scope_validate_exact check_capacity_exact [OF inv] check_budget_exact check_cost_exact
        index_first_best(1) [OF ne] word_gt_0 not_less del: filter_empty_conv)
  with none show "refusal r (st_try (r\<lparr>er_effects := insert (dq_dispatch_id q) (er_effects r)\<rparr>)
      (take_slot (dq_policy q) (r\<lparr>er_effects := insert (dq_dispatch_id q) (er_effects r)\<rparr>))
      (\<lambda>r. (r, Ok (admission_of q selected))))" by blast
next
  assume "filter (eligible_route q) (dq_candidates q) \<noteq> []"
  from index_first_best(2) [OF this]
  show "(index (sort_key route_key (filter (eligible_route q) (dq_candidates q))) 0 :: (RoutingError, _) res) \<noteq> Panic"
    by (metis res.distinct(3))
qed (simp_all add: scope_validate_exact check_capacity_exact [OF inv] check_budget_exact check_cost_exact)

section \<open>Every call keeps the capacity\<close>

definition router_init :: "ExternalRouter \<Rightarrow> bool" where
  "router_init r \<longleftrightarrow> (\<exists>config. new_router config = Ok r)"

definition router_step :: "ExternalRouter \<Rightarrow> ExternalRouter \<Rightarrow> bool" where
  "router_step r r' \<longleftrightarrow> (\<exists>op. r' = fst (router_exec op r))"

lemma router_inv_new: "new_router config = Ok r \<Longrightarrow> router_inv r"
  by (auto simp: new_router_def router_inv_def word_gt_0 word_le_nat_alt not_less split: if_splits)

lemma unat_inc: "unat (w :: u32) < unat (b :: u32) \<Longrightarrow> unat (w + 1) = Suc (unat w)"
proof -
  assume "unat w < unat b"
  moreover have "unat b < 2 ^ LENGTH(32)" by (rule unat_lt)
  ultimately have "w \<le> w + 1" by (simp add: no_overflow_iff)
  from unat_plus [OF this] show ?thesis by simp
qed

lemma router_inv_admit: "router_inv r \<Longrightarrow> slot_free (dq_policy q) r \<Longrightarrow> router_inv (admit q r)"
  by (auto simp: router_inv_def slot_free_def admit_def Let_def unat_inc [of _ "rc_max_active (er_config r)"])

lemma router_inv_frame:
  "router_inv r \<Longrightarrow> er_config r' = er_config r \<Longrightarrow> unat (er_active_interactive r') \<le> unat (er_active_interactive r)
   \<Longrightarrow> unat (er_active_background r') \<le> unat (er_active_background r) \<Longrightarrow> router_inv r'"
  by (auto simp: router_inv_def)

lemma release_slot_simps [simp]:
  "er_config (release_slot policy r) = er_config r" "er_usage (release_slot policy r) = er_usage r"
  "er_effects (release_slot policy r) = er_effects r" "er_reconciled (release_slot policy r) = er_reconciled r"
  "er_limits (release_slot policy r) = er_limits r"
  "unat (er_active_interactive (release_slot policy r)) \<le> unat (er_active_interactive r)"
  "unat (er_active_background (release_slot policy r)) \<le> unat (er_active_background r)"
  by (simp_all add: release_slot_def unat_saturating_sub)

lemma charge_costs_no_panic: "charge_costs did costs entry \<noteq> (e, Panic)"
proof (induction did costs entry rule: charge_costs.induct)
  case (2 did currency micros costs entry)
  then show ?case
    by (cases "checked_add_word (unwrap_or 0 (bt_get (us_costs entry) currency)) micros") auto
qed simp

lemma charge_no_panic: "charge did actual entry \<noteq> (e, Panic)"
  by (auto simp: charge_def Let_def res_simps charge_costs_no_panic)

text \<open>A reconciliation changes nothing, or fails on an overflow, or charges the receipt and frees the slot.\<close>

lemma reconcile_cases:
  obtains (same) x where "reconcile did scope actual policy r = (r, x)" "x \<noteq> Ok True" "x \<noteq> Panic"
      "er_reconciled r did \<noteq> None \<or> did \<notin> er_effects r"
  | (conflict) entry err where "er_reconciled r did = None" "did \<in> er_effects r"
      "charge did actual (router_usage r scope) = (entry, Err err)"
      "reconcile did scope actual policy r
         = (r\<lparr>er_effects := er_effects r - {did}, er_usage := (er_usage r)(scope \<mapsto> entry)\<rparr>, Err err)"
  | (charged) entry where "er_reconciled r did = None" "did \<in> er_effects r"
      "charge did actual (router_usage r scope) = (entry, Ok ())"
      "reconcile did scope actual policy r
         = ((release_slot policy (r\<lparr>er_effects := er_effects r - {did}, er_usage := (er_usage r)(scope \<mapsto> entry)\<rparr>))
              \<lparr>er_reconciled := (er_reconciled r)(did \<mapsto> (scope, actual, policy))\<rparr>, Ok True)"
proof (cases "er_reconciled r did = None \<and> did \<in> er_effects r")
  case False
  then show ?thesis by (intro same [of "snd (reconcile did scope actual policy r)"]) (auto simp: reconcile_def split: option.splits)
next
  case True
  obtain entry res where c: "charge did actual (router_usage r scope) = (entry, res)" by fastforce
  moreover have u: "router_usage (r\<lparr>er_effects := E\<rparr>) scope = router_usage r scope" for E
    by (simp add: router_usage_def)
  ultimately show ?thesis
    using True charge_no_panic [of did actual "router_usage r scope" entry]
    by (cases res) (auto simp: reconcile_def u Let_def intro: conflict charged)
qed

lemma router_inv_exec: "router_inv r \<Longrightarrow> router_inv (fst (router_exec op r))"
proof (cases op)
  case (DoSetBudget scope limit)
  moreover assume "router_inv r"
  ultimately show ?thesis
    by (cases "scope_validate scope") (auto simp: set_budget_def intro: router_inv_frame)
next
  case (DoRecommend q)
  moreover assume inv: "router_inv r"
  ultimately show ?thesis
    using recommend_refuses [OF inv, of q] recommend_admits [OF inv, of q] router_inv_admit [OF inv, of q]
    by (cases "\<exists>route. admissible q r route") (auto simp: refusal_def admissible_def)
next
  case (DoReconcile did scope actual policy)
  moreover assume inv: "router_inv r"
  moreover have "router_inv (fst (reconcile did scope actual policy r))"
    using inv by (cases rule: reconcile_cases [of did scope actual policy r]) (auto intro!: router_inv_frame [OF inv] order.trans [OF release_slot_simps(6)] order.trans [OF release_slot_simps(7)])
  ultimately show ?thesis by simp
next
  case (DoCancel did policy)
  moreover assume inv: "router_inv r"
  ultimately show ?thesis
    by (auto simp: cancel_before_effect_def intro!: router_inv_frame [OF inv] order.trans [OF release_slot_simps(6)] order.trans [OF release_slot_simps(7)])
qed

interpretation router: invariant_system router_init router_step router_inv
  by unfold_locales (auto simp: router_init_def router_step_def intro: router_inv_new router_inv_exec)

section \<open>Accounting\<close>

text \<open>The quantities of a usage; the cost in a currency without an entry is zero.\<close>

datatype Quantity = InputTokens | OutputTokens | ContextBytes | CostIn string

fun amount :: "Quantity \<Rightarrow> Usage \<Rightarrow> nat" where
  "amount InputTokens u = unat (us_input_tokens u)"
| "amount OutputTokens u = unat (us_output_tokens u)"
| "amount ContextBytes u = unat (us_context_bytes u)"
| "amount (CostIn c) u = unat (unwrap_or 0 (bt_get (us_costs u) c))"

lemma charge_costs_amount:
  assumes "distinct (map fst costs)"
    and "\<And>c. unat (unwrap_or 0 (bt_get (us_costs entry) c)) + unat (unwrap_or 0 (bt_get costs c)) < 2 ^ 64"
  shows "\<exists>m. charge_costs did costs entry = (entry\<lparr>us_costs := m\<rparr>, Ok ())
    \<and> (\<forall>c. unat (unwrap_or 0 (bt_get m c)) = unat (unwrap_or 0 (bt_get (us_costs entry) c)) + unat (unwrap_or 0 (bt_get costs c)))"
  using assms
proof (induction costs arbitrary: entry)
  case Nil
  then show ?case by (intro exI [of _ "us_costs entry"]) (simp add: unwrap_or_def)
next
  case (Cons cost costs)
  obtain currency micros where cost: "cost = (currency, micros)" by fastforce
  let ?old = "unwrap_or 0 (bt_get (us_costs entry) currency)"
  let ?entry = "entry\<lparr>us_costs := bt_insert currency (?old + micros) (us_costs entry)\<rparr>"
  have none: "bt_get costs currency = None" using Cons.prems(1) by (simp add: cost bt_get_None)
  have fits: "unat ?old + unat micros < 2 ^ 64" using Cons.prems(2) [of currency] by (simp add: cost unwrap_or_def)
  then have sum: "unat (?old + micros) = unat ?old + unat micros" by (simp add: unat_plus no_overflow_iff)
  have get: "unwrap_or 0 (bt_get (us_costs ?entry) c) = (if c = currency then ?old + micros else unwrap_or 0 (bt_get (us_costs entry) c))"
    for c by (simp add: bt_get_insert unwrap_or_def)
  have "unat (unwrap_or 0 (bt_get (us_costs ?entry) c)) + unat (unwrap_or 0 (bt_get costs c)) < 2 ^ 64" for c
    using Cons.prems(2) [of c] fits sum none by (simp only: get) (simp add: cost unwrap_or_def split: if_splits)
  with Cons.IH [of ?entry] Cons.prems(1) obtain m where m: "charge_costs did costs ?entry = (?entry\<lparr>us_costs := m\<rparr>, Ok ())"
      "\<And>c. unat (unwrap_or 0 (bt_get m c)) = unat (unwrap_or 0 (bt_get (us_costs ?entry) c)) + unat (unwrap_or 0 (bt_get costs c))"
    by (auto simp: cost)
  have "charge_costs did (cost # costs) entry = (entry\<lparr>us_costs := m\<rparr>, Ok ())"
    using m(1) fits by (simp add: cost checked_add_word_def no_overflow_iff)
  moreover have "unat (unwrap_or 0 (bt_get m c))
      = unat (unwrap_or 0 (bt_get (us_costs entry) c)) + unat (unwrap_or 0 (bt_get (cost # costs) c))" for c
    unfolding m(2) get using sum none by (simp add: cost unwrap_or_def)
  ultimately show ?case by blast
qed

lemma charge_amount:
  assumes "bt_inv (us_costs actual)" and "\<And>k. amount k entry + amount k actual < 2 ^ 64"
  shows "\<exists>entry'. charge did actual entry = (entry', Ok ()) \<and> (\<forall>k. amount k entry' = amount k entry + amount k actual)"
proof -
  define tokens where "tokens = entry\<lparr>us_input_tokens := us_input_tokens entry + us_input_tokens actual,
      us_output_tokens := us_output_tokens entry + us_output_tokens actual,
      us_context_bytes := us_context_bytes entry + us_context_bytes actual\<rparr>"
  have "distinct (map fst (us_costs actual))" using assms(1) by (simp add: bt_inv_def strict_sorted_iff)
  moreover have "unat (unwrap_or 0 (bt_get (us_costs tokens) c)) + unat (unwrap_or 0 (bt_get (us_costs actual) c)) < 2 ^ 64" for c
    using assms(2) [of "CostIn c"] by (simp add: tokens_def)
  ultimately obtain m where m: "charge_costs did (us_costs actual) tokens = (tokens\<lparr>us_costs := m\<rparr>, Ok ())"
      and costs: "\<And>c. unat (unwrap_or 0 (bt_get m c)) = amount (CostIn c) entry + amount (CostIn c) actual"
    using charge_costs_amount [of "us_costs actual" tokens did] by (auto simp: tokens_def)
  have fits: "us_input_tokens entry \<le> us_input_tokens entry + us_input_tokens actual"
      "us_output_tokens entry \<le> us_output_tokens entry + us_output_tokens actual"
      "us_context_bytes entry \<le> us_context_bytes entry + us_context_bytes actual"
    using assms(2) [of InputTokens] assms(2) [of OutputTokens] assms(2) [of ContextBytes] by (simp_all add: no_overflow_iff)
  then have "charge did actual entry = (tokens\<lparr>us_costs := m\<rparr>, Ok ())"
    using m by (simp add: charge_def Let_def checked_add_word_def tokens_def)
  moreover have "amount k (tokens\<lparr>us_costs := m\<rparr>) = amount k entry + amount k actual" for k
    using fits costs by (cases k) (simp_all add: tokens_def unat_plus)
  ultimately show ?thesis by blast
qed

section \<open>Histories\<close>

text \<open>The receipts that calls submit for a scope, and those of a history that were charged.\<close>

fun op_receipts :: "BudgetScope \<Rightarrow> RouterOp \<Rightarrow> Usage list" where
  "op_receipts scope (DoReconcile did scope' actual policy) = (if scope' = scope then [actual] else [])"
| "op_receipts scope _ = []"

fun op_dispatch :: "RouterOp \<Rightarrow> string list" where
  "op_dispatch (DoReconcile did scope actual policy) = [did]"
| "op_dispatch _ = []"

definition charged :: "(RouterOp \<Rightarrow> 'a list) \<Rightarrow> (RouterOp \<times> RouterOut) list \<Rightarrow> 'a list" where
  "charged f trace = concat (map (\<lambda>(op, out). if out = OutReconcile (Ok True) then f op else []) trace)"

definition submitted :: "(RouterOp \<Rightarrow> 'a list) \<Rightarrow> RouterOp list \<Rightarrow> 'a list" where
  "submitted f ops = concat (map f ops)"

fun typed_call :: "RouterOp \<Rightarrow> bool" where
  "typed_call (DoReconcile did scope actual policy) = bt_inv (us_costs actual)"
| "typed_call _ = True"

lemma charged_simps [simp]:
  "charged f [] = []"
  "charged f ((op, out) # trace) = (if out = OutReconcile (Ok True) then f op else []) @ charged f trace"
  "submitted f [] = []" "submitted f (op # ops) = f op @ submitted f ops"
  by (simp_all add: charged_def submitted_def)

lemma exec_keeps_accounts:
  assumes "router_inv r" and "router_exec op r = (r', out)" and "op_dispatch op = []"
  shows "er_usage r' = er_usage r \<and> er_reconciled r' = er_reconciled r \<and> out \<noteq> OutReconcile (Ok True)"
proof (cases op)
  case (DoSetBudget scope limit)
  with assms show ?thesis by (cases "scope_validate scope") (auto simp: set_budget_def)
next
  case (DoRecommend q)
  with assms show ?thesis
    using recommend_refuses [OF assms(1), of q] recommend_admits [OF assms(1), of q]
    by (cases "recommend q r"; cases "\<exists>route. admissible q r route")
       (auto simp: refusal_def admit_def Let_def split: if_splits)
next
  case (DoCancel did policy)
  with assms show ?thesis by (cases "did \<in> er_effects r") (auto simp: cancel_before_effect_def)
qed (use assms(3) in simp)

lemma exec_account:
  assumes "router_inv r" and "router_exec op r = (r', out)" and "typed_call op"
    and "\<And>scope k. amount k (router_usage r scope) + sum_list (map (amount k) (op_receipts scope op)) < 2 ^ 64"
  shows "amount k (router_usage r' scope)
    = amount k (router_usage r scope) + sum_list (map (amount k) (charged (op_receipts scope) [(op, out)]))"
proof (cases "op_dispatch op = []")
  case True
  with exec_keeps_accounts [OF assms(1,2)] show ?thesis by (simp add: router_usage_def)
next
  case False
  then obtain did s actual policy where op: "op = DoReconcile did s actual policy" by (cases op) auto
  from assms(4) [of _ s] have "\<And>k. amount k (router_usage r s) + amount k actual < 2 ^ 64" by (simp add: op)
  with charge_amount [of actual "router_usage r s" did] assms(3) obtain entry
    where entry: "charge did actual (router_usage r s) = (entry, Ok ())"
      and sum: "\<And>k. amount k entry = amount k (router_usage r s) + amount k actual" by (auto simp: op)
  show ?thesis
    using assms(2) entry
    by (cases rule: reconcile_cases [of did s actual policy r]) (auto simp: op sum router_usage_def)
qed

lemma exec_dispatch_once:
  assumes "router_inv r" and "router_exec op r = (r', out)"
  shows "dom (er_reconciled r') = dom (er_reconciled r) \<union> set (charged op_dispatch [(op, out)])"
    and "set (charged op_dispatch [(op, out)]) \<inter> dom (er_reconciled r) = {}"
proof -
  have "dom (er_reconciled r') = dom (er_reconciled r) \<union> set (charged op_dispatch [(op, out)])
      \<and> set (charged op_dispatch [(op, out)]) \<inter> dom (er_reconciled r) = {}"
  proof (cases "op_dispatch op = []")
    case True
    with exec_keeps_accounts [OF assms] show ?thesis by simp
  next
    case False
    then obtain did s actual policy where op: "op = DoReconcile did s actual policy" by (cases op) auto
    with assms(2) show ?thesis by (cases rule: reconcile_cases [of did s actual policy r]) auto
  qed
  then show "dom (er_reconciled r') = dom (er_reconciled r) \<union> set (charged op_dispatch [(op, out)])"
    and "set (charged op_dispatch [(op, out)]) \<inter> dom (er_reconciled r) = {}" by blast+
qed

lemma run_dispatch_once:
  "router_inv r \<Longrightarrow> router_run ops r = (r', trace) \<Longrightarrow>
     distinct (charged op_dispatch trace) \<and> set (charged op_dispatch trace) \<inter> dom (er_reconciled r) = {}"
proof (induction ops arbitrary: r trace)
  case (Cons op ops)
  obtain r1 out where e: "router_exec op r = (r1, out)" by fastforce
  with Cons.prems(2) obtain tr where tr: "router_run ops r1 = (r', tr)" "trace = (op, out) # tr"
    by (cases "router_run ops r1") auto
  have "router_inv r1" using router_inv_exec [OF Cons.prems(1), of op] e by simp
  note once = exec_dispatch_once [OF Cons.prems(1) e] and rest = Cons.IH [OF \<open>router_inv r1\<close> tr(1)]
  have "length (op_dispatch op) \<le> 1" by (cases op) auto
  then have "distinct (charged op_dispatch [(op, out)])" by (auto simp: distinct_conv_nth)
  with once rest show ?case by (simp add: tr(2)) blast
qed simp

lemma run_account:
  "router_inv r \<Longrightarrow> router_run ops r = (r', trace) \<Longrightarrow> list_all typed_call ops \<Longrightarrow>
   (\<And>scope k. amount k (router_usage r scope) + sum_list (map (amount k) (submitted (op_receipts scope) ops)) < 2 ^ 64) \<Longrightarrow>
   amount k (router_usage r' scope)
     = amount k (router_usage r scope) + sum_list (map (amount k) (charged (op_receipts scope) trace))"
proof (induction ops arbitrary: r trace)
  case (Cons op ops)
  obtain r1 out where e: "router_exec op r = (r1, out)" by fastforce
  with Cons.prems(2) obtain tr where tr: "router_run ops r1 = (r', tr)" "trace = (op, out) # tr"
    by (cases "router_run ops r1") auto
  have inv: "router_inv r1" using router_inv_exec [OF Cons.prems(1), of op] e by simp
  have room: "amount k (router_usage r s) + sum_list (map (amount k) (op_receipts s op))
      + sum_list (map (amount k) (submitted (op_receipts s) ops)) < 2 ^ 64" for s k
    using Cons.prems(4) [of k s] by (simp add: add.assoc)
  have step: "amount k (router_usage r1 s)
      = amount k (router_usage r s) + sum_list (map (amount k) (charged (op_receipts s) [(op, out)]))" for s k
  proof (rule exec_account [OF Cons.prems(1) e])
    show "typed_call op" using Cons.prems(3) by simp
    show "amount k (router_usage r s) + sum_list (map (amount k) (op_receipts s op)) < 2 ^ 64" for s k
      using room [of k s] by simp
  qed
  have "amount k (router_usage r1 s) + sum_list (map (amount k) (submitted (op_receipts s) ops)) < 2 ^ 64" for s k
    using room [of k s] step [of k s] by (auto split: if_splits)
  from Cons.IH [OF inv tr(1) _ this] Cons.prems(3) step [of k scope] show ?case by (simp add: tr(2))
qed simp

section \<open>A router with one slot\<close>

definition demo_scope :: BudgetScope where
  "demo_scope = \<lparr>bs_organization = ''o'', bs_project = ''p'', bs_session = ''s'', bs_turn = ''t'', bs_stage = ''g'', bs_agent = ''a''\<rparr>"

definition demo_route :: ExternalRoute where
  "demo_route = \<lparr>rt_route_id = ''fast'', rt_provider = ''x'', rt_externally_authorized = True,
     rt_signals = \<lparr>ps_quota_remaining_tokens = measured 100, ps_latency_ms = measured 10, ps_healthy = measured True,
       ps_input_tokens = estimated 10, ps_output_tokens = missing ''omitted'', ps_context_bytes = measured 100,
       ps_cache_hit = missing ''unsupported'', ps_cost = missing ''omitted''\<rparr>\<rparr>"

definition demo_request :: "string \<Rightarrow> RoutingRequest" where
  "demo_request did = \<lparr>dq_dispatch_id = did, dq_scope = demo_scope, dq_policy = Interactive, dq_candidates = [demo_route],
     dq_expected_input_tokens = 10, dq_expected_output_tokens = 10, dq_context_bytes = 100, dq_fan_out = 1,
     dq_effect_reconciled = False\<rparr>"

definition demo_config :: RouterConfig where
  "demo_config = \<lparr>rc_max_fan_out = 1, rc_max_active = 1, rc_interactive_reserved = 1\<rparr>"

definition demo_usage :: "u64 \<Rightarrow> Usage" where
  "demo_usage n = \<lparr>us_input_tokens = n, us_output_tokens = 0, us_context_bytes = 0, us_costs = []\<rparr>"

definition demo_router :: ExternalRouter where
  "demo_router = \<lparr>er_config = demo_config, er_limits = Map.empty, er_usage = Map.empty, er_active_interactive = 0,
     er_active_background = 0, er_effects = {}, er_reconciled = Map.empty\<rparr>"

definition demo_ops :: "RouterOp list" where
  "demo_ops =
     [DoRecommend (demo_request ''a''), DoReconcile ''a'' demo_scope (demo_usage (- 1)) Interactive,
      DoRecommend (demo_request ''b''), DoReconcile ''b'' demo_scope (demo_usage 1) Interactive]"

lemma demo_new: "new_router demo_config = Ok demo_router"
  by (simp add: new_router_def demo_config_def demo_router_def)

lemma demo_outcomes:
  "map snd (snd (router_run demo_ops demo_router)) =
     [OutRoute (Ok (admission_of (demo_request ''a'') demo_route)), OutReconcile (Ok True),
      OutRoute (Ok (admission_of (demo_request ''b'') demo_route)), OutReconcile (Err (AccountingConflict ''b''))]"
  by code_simp

lemma demo_state:
  "er_effects (fst (router_run demo_ops demo_router)) = {} \<and> er_active_interactive (fst (router_run demo_ops demo_router)) = 1
    \<and> er_config (fst (router_run demo_ops demo_router)) = demo_config"
  by code_simp

lemma run_reach: "router_step\<^sup>*\<^sup>* r (fst (router_run ops r))"
proof (induction ops arbitrary: r)
  case (Cons op ops)
  have "router_step r (fst (router_exec op r))" by (auto simp: router_step_def)
  moreover note Cons.IH [of "fst (router_exec op r)"]
  ultimately show ?case by (simp add: case_prod_beta converse_rtranclp_into_rtranclp)
qed simp

lemma reach_run: "new_router config = Ok r \<Longrightarrow> reach router_init router_step (fst (router_run ops r))"
  by (rule router.reach_steps [OF reach_init run_reach]) (auto simp: router_init_def)

section \<open>The promises\<close>



text \<open>
  C15: The router admits exactly what it should and picks the best route. In every state that calls can produce a
  request is admitted with a route exactly if its scope and id are named, its effect is not open (or declared
  reconciled), its fan-out is allowed, a slot is free for its policy, the expected tokens and bytes stay within the
  declared budget, the route is the first of those with the least latency, then cost, then id among the candidates
  that are externally authorized, named, healthy and within quota, and its cost fits the cost budget; the router
  then records the effect and takes one slot. Otherwise the router is unchanged.
\<close>

theorem recommend_exact:
  assumes "reach router_init router_step r"
  shows "(recommend q r = (r', Ok ex) \<and> ex_admitted ex)
      = (\<exists>route. admissible q r route \<and> r' = admit q r \<and> ex = admission_of q route)
    \<and> ((\<exists>route. admissible q r route) \<or> fst (recommend q r) = r)"
proof (intro conjI iffI)
  have inv: "router_inv r" by (rule router.reach_inv [OF assms])
  show "\<exists>route. admissible q r route \<and> r' = admit q r \<and> ex = admission_of q route"
    if ok: "recommend q r = (r', Ok ex) \<and> ex_admitted ex"
  proof -
    have "\<exists>route. admissible q r route" using recommend_refuses [OF inv, of q] ok by (auto simp: refusal_def)
    then obtain route where a: "admissible q r route" ..
    with recommend_admits [OF inv a] ok show ?thesis by (intro exI [of _ route]) simp
  qed
  show "recommend q r = (r', Ok ex)" and "ex_admitted ex"
    if some: "\<exists>route. admissible q r route \<and> r' = admit q r \<and> ex = admission_of q route"
  proof -
    obtain route where "admissible q r route" "r' = admit q r" "ex = admission_of q route" using some by (elim exE conjE)
    with recommend_admits [OF inv this(1)] show "recommend q r = (r', Ok ex)" and "ex_admitted ex"
      by (simp_all add: admission_of_def)
  qed
  show "(\<exists>route. admissible q r route) \<or> fst (recommend q r) = r"
    using recommend_refuses [OF inv, of q] by (cases "\<exists>route. admissible q r route") (simp_all add: refusal_def)
qed

theorem recommend_exact_witness:
  "recommend (demo_request ''a'') demo_router = (admit (demo_request ''a'') demo_router, Ok (admission_of (demo_request ''a'') demo_route))
   \<and> (\<exists>route. admissible (demo_request ''a'') demo_router route)"
proof -
  have r: "recommend (demo_request ''a'') demo_router = (fst (recommend (demo_request ''a'') demo_router), Ok (admission_of (demo_request ''a'') demo_route))"
    by (rule prod_eqI, simp, code_simp)
  have "reach router_init router_step demo_router" using reach_run [OF demo_new, of "[]"] by simp
  from recommend_exact [OF this, of "demo_request ''a''" "fst (recommend (demo_request ''a'') demo_router)"
      "admission_of (demo_request ''a'') demo_route"] r
  have "\<exists>route. admissible (demo_request ''a'') demo_router route
      \<and> fst (recommend (demo_request ''a'') demo_router) = admit (demo_request ''a'') demo_router"
    by (auto simp: admission_of_def)
  with r show ?thesis by auto
qed


definition retry_ops :: "RouterOp list" where
  "retry_ops = DoRecommend (demo_request ''a'') # replicate 2 (DoReconcile ''a'' demo_scope (demo_usage 7) Interactive)"

lemma retry_charged:
  "charged op_dispatch (snd (router_run retry_ops demo_router)) = [''a'']"
  "charged (op_receipts demo_scope) (snd (router_run retry_ops demo_router)) = [demo_usage 7]"
  by code_simp+

lemma retry_submitted: "submitted (op_receipts scope) retry_ops = (if scope = demo_scope then [demo_usage 7, demo_usage 7] else [])"
  by (simp add: retry_ops_def numeral_2_eq_2)


text \<open>
  A router without open effects whose slots are all taken: nothing can free them any more.
\<close>

definition stalled :: "ExternalRouter \<Rightarrow> bool" where
  "stalled r \<longleftrightarrow> er_effects r = {}
     \<and> unat (rc_max_active (er_config r)) \<le> unat (er_active_interactive r) + unat (er_active_background r)"

lemma stalled_exec:
  assumes "router_inv r" and "stalled r" and "router_exec op r = (r', out)"
  shows "stalled r'" and "out = OutRoute (Ok ex) \<Longrightarrow> \<not> ex_admitted ex"
proof -
  have none: "\<not> admissible q r route" for q route using assms(2) by (simp add: admissible_def slot_free_def stalled_def)
  have "stalled r' \<and> (\<forall>ex. out = OutRoute (Ok ex) \<longrightarrow> \<not> ex_admitted ex)"
  proof (cases op)
    case (DoSetBudget scope limit)
    with assms show ?thesis by (cases "scope_validate scope") (auto simp: set_budget_def stalled_def)
  next
    case (DoRecommend q)
    with assms(2,3) recommend_refuses [OF assms(1), of q] none show ?thesis
      by (cases "recommend q r") (auto simp: refusal_def)
  next
    case (DoReconcile did scope actual policy)
    with assms(2,3) show ?thesis
      by (cases rule: reconcile_cases [of did scope actual policy r]) (auto simp: stalled_def)
  next
    case (DoCancel did policy)
    with assms(2,3) show ?thesis by (auto simp: cancel_before_effect_def stalled_def)
  qed
  then show "stalled r'" and "out = OutRoute (Ok ex) \<Longrightarrow> \<not> ex_admitted ex" by blast+
qed

lemma stalled_run:
  "router_inv r \<Longrightarrow> stalled r \<Longrightarrow> (op, OutRoute (Ok ex)) \<in> set (snd (router_run ops r)) \<Longrightarrow> \<not> ex_admitted ex"
proof (induction ops arbitrary: r)
  case (Cons op' ops)
  obtain r1 out where e: "router_exec op' r = (r1, out)" by fastforce
  have "router_inv r1" using router_inv_exec [OF Cons.prems(1), of op'] e by simp
  note next_call = Cons.IH [OF this stalled_exec(1) [OF Cons.prems(1,2) e]]
  show ?case using Cons.prems(3) next_call stalled_exec(2) [OF Cons.prems(1,2) e] by (auto simp: e)
qed simp

text \<open>
  C40: A receipt that overflows an account costs the router a slot for ever. \<open>reconcile\<close> forgets the effect before it
  adds the receipt up, and returns on an overflow without freeing the slot: on a router with one slot, after a first
  dispatch that was charged the greatest 64-bit count and a second one charged one token, no recommendation is
  admitted whatever is called afterwards.
\<close>

theorem overflow_stalls_router:
  "new_router demo_config = Ok demo_router
   \<and> map snd (snd (router_run demo_ops demo_router)) =
       [OutRoute (Ok (admission_of (demo_request ''a'') demo_route)), OutReconcile (Ok True),
        OutRoute (Ok (admission_of (demo_request ''b'') demo_route)), OutReconcile (Err (AccountingConflict ''b''))]
   \<and> {ex. \<exists>ops op. (op, OutRoute (Ok ex)) \<in> set (snd (router_run ops (fst (router_run demo_ops demo_router))))}
       \<subseteq> {ex. \<not> ex_admitted ex}"
proof -
  have "router_inv (fst (router_run demo_ops demo_router))" by (rule router.reach_inv [OF reach_run [OF demo_new]])
  moreover have "stalled (fst (router_run demo_ops demo_router))"
    by (simp add: stalled_def demo_state) (simp add: demo_config_def)
  ultimately show ?thesis using demo_new demo_outcomes stalled_run by blast
qed

text \<open>
  A second request for an open dispatch that declares the effect reconciled takes a second slot, while the set of
  effects holds the dispatch once: reconciling it frees one of the two, and no effect is left to free the other.
\<close>

lemma redeclared_effect_keeps_slot:
  "let r = fst (router_run
       [DoRecommend (demo_request ''a''), DoRecommend (demo_request ''a''\<lparr>dq_effect_reconciled := True\<rparr>),
        DoReconcile ''a'' demo_scope (demo_usage 1) Interactive] (demo_router\<lparr>er_config := demo_config\<lparr>rc_max_active := 2\<rparr>\<rparr>))
   in er_effects r = {} \<and> er_active_interactive r = 1"
  by code_simp

section \<open>Context packs\<close>

lemma sort_dedup_set: "sort_dedup xs = sorted_list_of_set (set xs)"
proof -
  have "sorted (remdups_adj (sort xs))" by simp
  moreover have "distinct (remdups_adj ys)" if "sorted ys" for ys :: "string list"
    using that
  proof (induction ys rule: remdups_adj.induct)
    case (3 x y ys)
    then show ?case by (auto simp: less_le)
  qed simp_all
  ultimately show ?thesis
    unfolding sort_dedup_def by (intro sorted_distinct_set_unique) simp_all
qed

definition sourced :: "(byte list \<times> string list) \<Rightarrow> bool" where
  "sourced ins \<longleftrightarrow> snd ins \<noteq> [] \<and> \<not> list_ex is_blank (snd ins)"

definition pack_run :: "(byte list \<Rightarrow> string) \<Rightarrow> (byte list \<times> string list) list \<Rightarrow> ContextPackRegistry" where
  "pack_run blake3_hex inserts =
     fold (\<lambda>(content, provenance) packs. fst (pack_insert blake3_hex content provenance packs)) inserts Map.empty"

text \<open>
  A context pack carries the provenance of everything inserted under its hash. After any sequence of insertions the
  registry holds, for every hash, nothing if no insertion with a provenance had content of that hash, and otherwise one
  pack of the size of the first of them, whose provenance is the sorted list, without repetitions, of the sources of
  them all.
\<close>

theorem context_packs_merge:
  "pack_run blake3_hex inserts h =
     (case filter (\<lambda>ins. sourced ins \<and> blake3_hex (fst ins) = h) inserts of
        [] \<Rightarrow> None
      | ins # rest \<Rightarrow> Some \<lparr>cp_hash = h, cp_provenance = sorted_list_of_set (\<Union>x \<in> set (ins # rest). set (snd x)),
          cp_bytes = of_nat (length (fst ins))\<rparr>)"
proof (induction inserts rule: rev_induct)
  case (snoc ins inserts)
  obtain content provenance where ins: "ins = (content, provenance)" by fastforce
  have run: "pack_run blake3_hex (inserts @ [(content, provenance)]) = fst (pack_insert blake3_hex content provenance (pack_run blake3_hex inserts))"
    by (simp add: pack_run_def)
  show ?case
  proof (cases "sourced ins \<and> blake3_hex content = h")
    case False
    then have "pack_run blake3_hex (inserts @ [ins]) h = pack_run blake3_hex inserts h"
      by (auto simp: run pack_insert_def sourced_def ins Let_def split: option.splits)
    with False snoc.IH show ?thesis by (auto simp: ins)
  next
    case True
    then show ?thesis using snoc.IH
      by (auto simp: run pack_insert_def sourced_def ins Let_def sort_dedup_set Un_ac split: list.splits)
  qed
qed (simp add: pack_run_def)

end
