(* ===== verification/Rust_Strings.thy ===== *)
theory Rust_Strings
  imports Rust_Text
begin

text \<open>
  More of \<open>str\<close>: slicing at byte offsets, which panics off a character boundary, searching from the end, replacing and
  trimming. The lemmas say what these do to valid UTF-8 and to the occurrences of a pattern.
\<close>

section \<open>Operations\<close>

definition is_char_boundary :: "string \<Rightarrow> nat \<Rightarrow> bool" where
  "is_char_boundary s i \<longleftrightarrow> i = 0 \<or> i = length s \<or> (i < length s \<and> \<not> cont_byte (s ! i))"

definition str_slice :: "string \<Rightarrow> nat \<Rightarrow> nat \<Rightarrow> ('e, string) res" where
  "str_slice s i j =
     (if i \<le> j \<and> j \<le> length s \<and> is_char_boundary s i \<and> is_char_boundary s j then Ok (take (j - i) (drop i s)) else Panic)"

text \<open>\<open>str::rfind\<close>: the last byte index at which the pattern occurs.\<close>

fun rfind_str :: "string \<Rightarrow> string \<Rightarrow> nat option" where
  "rfind_str [] p = (if p = [] then Some 0 else None)"
| "rfind_str (c # s) p =
     (case rfind_str s p of
        Some i \<Rightarrow> Some (Suc i)
      | None \<Rightarrow> if prefix p (c # s) then Some 0 else None)"

text \<open>\<open>str::replace\<close> of a pattern that is not empty: the occurrences from the left that do not overlap.\<close>

function replace_all :: "string \<Rightarrow> string \<Rightarrow> string \<Rightarrow> string" where
  "replace_all p r [] = []"
| "replace_all p r (c # s) =
     (if p \<noteq> [] \<and> prefix p (c # s) then r @ replace_all p r (drop (length p) (c # s)) else c # replace_all p r s)"
  by pat_completeness auto
termination
  by (relation "measure (\<lambda>(p, r, s). length s)") auto

declare replace_all.simps(2) [simp del]

text \<open>\<open>s.matches(p).count()\<close> for a pattern that is not empty.\<close>

function count_matches :: "string \<Rightarrow> string \<Rightarrow> nat" where
  "count_matches p [] = 0"
| "count_matches p (c # s) =
     (if p \<noteq> [] \<and> prefix p (c # s) then Suc (count_matches p (drop (length p) (c # s))) else count_matches p s)"
  by pat_completeness auto
termination
  by (relation "measure (\<lambda>(p, s). length s)") auto

declare count_matches.simps(2) [simp del]

definition trim_start :: "string \<Rightarrow> string" where
  "trim_start s = concat (dropWhile whitespace_at (chars_of s))"

text \<open>\<open>char_count\<close> is \<open>s.chars().count()\<close>.\<close>

definition char_count :: "string \<Rightarrow> nat" where
  "char_count s = length (chars_of s)"

text \<open>\<open>[&str]::join\<close>.\<close>

fun join_with :: "string \<Rightarrow> string list \<Rightarrow> string" where
  "join_with sep [] = []"
| "join_with sep [l] = l"
| "join_with sep (l # ls) = l @ sep @ join_with sep ls"

section \<open>Valid UTF-8\<close>

definition char_valid :: "string \<Rightarrow> bool" where
  "char_valid ch \<longleftrightarrow> ch \<noteq> [] \<and> (\<forall>t. utf8_tail (ch @ t) = Some t)"

lemma utf8_tail_char_valid:
  assumes "utf8_tail s = Some r"
  shows "\<exists>ch. s = ch @ r \<and> char_valid ch"
proof (cases s)
  case (Cons a cs)
  then show ?thesis
    using assms unfolding char_valid_def
    by (intro exI [of _ "take (length s - length r) s"]) (simp split: if_splits list.splits)
qed (use assms in simp)

lemma char_valid_tail: "char_valid ch \<Longrightarrow> utf8_tail (ch @ t) = Some t"
  by (simp add: char_valid_def)

lemma utf8_valid_char: "char_valid ch \<Longrightarrow> utf8_valid (ch @ t) \<longleftrightarrow> utf8_valid t"
  by (subst utf8_valid.simps) (simp add: char_valid_def)

lemma chars_of_char: "char_valid ch \<Longrightarrow> chars_of (ch @ t) = ch # chars_of t"
  by (subst chars_of.simps) (simp add: char_valid_tail)

lemma chars_of_Nil [simp]: "chars_of [] = []"
  by (subst chars_of.simps) simp

lemma concat_chars: "\<forall>ch \<in> set chs. char_valid ch \<Longrightarrow> utf8_valid (concat chs) \<and> chars_of (concat chs) = chs"
  by (induction chs) (simp_all add: utf8_valid_char chars_of_char)

lemma utf8_valid_induct [consumes 1, case_names Nil char]:
  assumes "utf8_valid s" and "P []" and "\<And>ch t. char_valid ch \<Longrightarrow> utf8_valid t \<Longrightarrow> P t \<Longrightarrow> P (ch @ t)"
  shows "P s"
  using assms(1)
proof (induction s rule: length_induct)
  case (1 s)
  show ?case
  proof (cases "s = []")
    case False
    with 1(2) obtain r where r: "utf8_tail s = Some r" "utf8_valid r"
      by (subst (asm) utf8_valid.simps) (auto split: option.splits)
    then obtain ch where "s = ch @ r" "char_valid ch" using utf8_tail_char_valid by blast
    with r 1(1) utf8_tail_shorter [OF r(1)] show ?thesis by (simp add: assms(3))
  qed (simp add: assms(2))
qed

lemma utf8_valid_cases [consumes 1, case_names Nil char]:
  assumes "utf8_valid s"
  obtains "s = []" | ch t where "s = ch @ t" "char_valid ch" "utf8_valid t"
proof -
  from assms have "s = [] \<or> (\<exists>ch t. s = ch @ t \<and> char_valid ch \<and> utf8_valid t)"
    by (induction rule: utf8_valid_induct) blast+
  with that show thesis by blast
qed

lemma utf8_valid_chars: "utf8_valid s \<Longrightarrow> concat (chars_of s) = s \<and> (\<forall>ch \<in> set (chars_of s). char_valid ch)"
  by (induction rule: utf8_valid_induct) (simp_all add: chars_of_char)

lemma utf8_valid_append: "utf8_valid a \<Longrightarrow> utf8_valid b \<Longrightarrow> utf8_valid (a @ b)"
  by (induction rule: utf8_valid_induct) (simp_all add: utf8_valid_char)

lemma char_valid_ascii:
  assumes "char_valid ch" and "c \<in> set ch" and "ord c < 128"
  shows "ch = [c]"
proof (cases ch)
  case (Cons a cs)
  have "utf8_tail (a # cs) = Some []" using char_valid_tail [OF assms(1), of "[]"] by (simp add: Cons)
  with assms(2,3) show ?thesis
    unfolding Cons by (auto simp: in_range_def cont_byte_def split: if_splits list.splits)
qed (use assms(2) in simp)

lemma char_valid_hd: "char_valid ch \<Longrightarrow> \<not> cont_byte (hd ch)"
proof (cases ch)
  case (Cons a cs)
  moreover assume "char_valid ch"
  then have "utf8_tail ch = Some []" using char_valid_tail [of ch "[]"] by simp
  ultimately show ?thesis by (auto simp: in_range_def cont_byte_def split: if_splits list.splits)
qed (simp add: char_valid_def)

lemma utf8_valid_hd: "utf8_valid s \<Longrightarrow> s \<noteq> [] \<Longrightarrow> \<not> cont_byte (hd s)"
  by (induction rule: utf8_valid_induct) (auto simp: char_valid_hd char_valid_def)

lemma utf8_valid_split:
  assumes "utf8_valid (a @ c # b)" and "ord c < 128"
  shows "utf8_valid a \<and> utf8_valid b"
  using assms(1)
proof (induction a rule: length_induct)
  case (1 a)
  show ?case
  proof (cases "a = []")
    case True
    with 1(2) assms(2) show ?thesis by simp
  next
    case False
    obtain r where r: "utf8_tail (a @ c # b) = Some r" "utf8_valid r"
      using 1(2) by (subst (asm) utf8_valid.simps) (auto split: option.splits)
    then obtain ch where ch: "a @ c # b = ch @ r" "char_valid ch" using utf8_tail_char_valid by blast
    have "length ch \<le> length a"
    proof (rule ccontr)
      assume long: "\<not> ?thesis"
      with ch(1) have "c \<in> set ch" by (auto simp: append_eq_append_conv2 Cons_eq_append_conv)
      from char_valid_ascii [OF ch(2) this assms(2)] ch(1) False long show False by (cases a) auto
    qed
    with ch(1) obtain a' where a: "a = ch @ a'" "r = a' @ c # b"
      by (auto simp: append_eq_append_conv2)
    with ch(2) have "length a' < length a" by (simp add: char_valid_def)
    from 1(1) [rule_format, OF this] a r(2) have "utf8_valid a'" "utf8_valid b" by simp_all
    with a ch(2) show ?thesis by (simp add: utf8_valid_char)
  qed
qed

definition ascii_text :: "string \<Rightarrow> bool" where
  "ascii_text p \<longleftrightarrow> p \<noteq> [] \<and> (\<forall>c \<in> set p. ord c < 128)"

lemma utf8_valid_parts:
  assumes "utf8_valid (a @ p @ b)" and "ascii_text p"
  shows "utf8_valid a" and "utf8_valid b"
proof -
  obtain c p' where p: "p = c # p'" "ord c < 128" "\<forall>d \<in> set p'. ord d < 128"
    using assms(2) by (cases p) (auto simp: ascii_text_def)
  with assms(1) utf8_valid_split [of a c "p' @ b"] have "utf8_valid a" "utf8_valid (p' @ b)" by simp_all
  moreover have "utf8_valid (q @ b) \<Longrightarrow> \<forall>d \<in> set q. ord d < 128 \<Longrightarrow> utf8_valid b" for q by (induction q) auto
  ultimately show "utf8_valid a" and "utf8_valid b" using p by blast+
qed

lemma boundary_split: "utf8_valid b \<Longrightarrow> is_char_boundary (a @ b) (length a)"
  using utf8_valid_hd [of b] by (cases b) (auto simp: is_char_boundary_def)

lemma str_slice_mid: "utf8_valid b \<Longrightarrow> utf8_valid d \<Longrightarrow> str_slice (a @ b @ d) (length a) (length a + length b) = Ok b"
  using boundary_split [OF utf8_valid_append [of b d], of a] boundary_split [of d "a @ b"]
  by (simp add: str_slice_def)

section \<open>Searching\<close>

lemma find_str_split: "find_str s p = Some i \<Longrightarrow> \<exists>a b. s = a @ p @ b \<and> length a = i"
  using find_str_Some [of s p i]
  by (metis append_take_drop_id length_take min.absorb2 add_leE)

lemma rfind_str_split: "rfind_str s p = Some i \<Longrightarrow> \<exists>a b. s = a @ p @ b \<and> length a = i"
proof (induction s arbitrary: i)
  case (Cons c s)
  show ?case
  proof (cases "rfind_str s p")
    case None
    with Cons.prems show ?thesis by (auto simp: prefix_def split: if_splits)
  next
    case (Some j)
    with Cons obtain a b where "s = a @ p @ b" "length a = j" by blast
    with Some Cons.prems show ?thesis by (intro exI [of _ "c # a"] exI [of _ b]) simp
  qed
qed (simp split: if_splits)

lemma contains_Nil [simp]: "p \<noteq> [] \<Longrightarrow> \<not> contains [] p"
  by (simp add: contains_def)

lemma contains_Cons: "contains (c # s) p \<longleftrightarrow> prefix p (c # s) \<or> contains s p"
  by (simp add: contains_def)

lemma contains_appendI: "contains t p \<Longrightarrow> contains (a @ t @ b) p"
  by (auto simp: contains_split) (metis append.assoc)

lemma contains_left: "contains t p \<Longrightarrow> contains (a @ t) p"
  using contains_appendI [of t p a "[]"] by simp

lemma contains_right: "contains t p \<Longrightarrow> contains (t @ b) p"
  using contains_appendI [of t p "[]" b] by simp

lemma contains_trans: "contains t p \<Longrightarrow> contains s t \<Longrightarrow> contains s p"
  by (auto simp: contains_split) (metis append.assoc)

lemma contains_self: "contains l l"
  by (auto simp: contains_split intro: exI [of _ "[]"])

lemma contains_join: "l \<in> set ls \<Longrightarrow> contains (join_with sep ls) l"
  by (induction sep ls rule: join_with.induct) (auto intro: contains_self contains_left contains_right)

lemma find_str_append: "find_str s p = Some i \<Longrightarrow> find_str (s @ t) p = Some i"
proof (induction s arbitrary: i)
  case (Cons c s)
  show ?case
  proof (cases "prefix p (c # s)")
    case True
    moreover from True have "prefix p (c # s @ t)" by (metis append_Cons prefix_prefix)
    ultimately show ?thesis using Cons.prems by simp
  next
    case False
    with Cons.prems obtain j where j: "find_str s p = Some j" "i = Suc j" by (auto split: option.splits)
    then have "length p \<le> length s" using find_str_Some [of s p j] by simp
    with False have "\<not> prefix p (c # s @ t)" by (metis append_Cons le_SucI length_Cons prefix_length_prefix prefixI)
    with Cons.IH [OF j(1)] j(2) show ?thesis by simp
  qed
qed (cases t; auto split: if_splits)

lemma find_str_skip: "l \<notin> set s \<Longrightarrow> find_str (s @ (l # p) @ t) (l # p) = Some (length s)"
  by (induction s) (auto simp: prefix_def)

subsection \<open>Counting\<close>

lemma count_matches_hit: "p \<noteq> [] \<Longrightarrow> count_matches p (p @ t) = Suc (count_matches p t)"
  by (cases p) (simp_all add: count_matches.simps)

lemma count_matches_zero: "p \<noteq> [] \<Longrightarrow> count_matches p s = 0 \<longleftrightarrow> \<not> contains s p"
proof (induction s)
  case (Cons c s)
  then show ?case by (simp add: count_matches.simps contains_Cons)
qed simp

text \<open>A pattern has no match across a letter that is not in its rest.\<close>

lemma prefix_no_straddle:
  assumes "prefix (l # q) (a @ c # b)" and "c \<notin> set q" and "a \<noteq> []"
  obtains u where "a = (l # q) @ u"
proof -
  obtain d a' where a: "a = d # a'" using assms(3) by (cases a) auto
  have "length (l # q) \<le> length a"
  proof (rule ccontr)
    assume short: "\<not> ?thesis"
    with assms(1) have "(l # q) ! length a = (a @ c # b) ! length a" unfolding prefix_def by (metis not_le nth_append)
    then have "q ! length a' = c" using a by simp
    with short a assms(2) show False by (auto simp: in_set_conv_nth)
  qed
  with assms(1) that show thesis by (metis append_eq_append_conv_if prefix_def append_take_drop_id)
qed

lemma count_matches_split:
  assumes "c \<notin> set q"
  shows "count_matches (l # q) (a @ c # b) = count_matches (l # q) a + count_matches (l # q) (c # b)"
proof (induction a rule: length_induct)
  case (1 a)
  show ?case
  proof (cases a)
    case (Cons d a')
    show ?thesis
    proof (cases "prefix (l # q) (a @ c # b)")
      case True
      then obtain u where u: "a = (l # q) @ u" using assms Cons by (metis list.distinct(1) prefix_no_straddle)
      then have "count_matches (l # q) (u @ c # b) = count_matches (l # q) u + count_matches (l # q) (c # b)" using 1 by simp
      then show ?thesis using u count_matches_hit [of "l # q" u] count_matches_hit [of "l # q" "u @ c # b"] by simp
    next
      case False
      moreover from False have "\<not> prefix (l # q) a" by (metis prefix_append)
      moreover have "count_matches (l # q) (a' @ c # b) = count_matches (l # q) a' + count_matches (l # q) (c # b)"
        using 1 Cons by simp
      ultimately show ?thesis by (simp only: Cons append_Cons count_matches.simps(2) [of _ d] simp_thms if_False)
    qed
  qed simp
qed

lemma find_str_at_end: "l \<notin> set q \<Longrightarrow> \<not> contains s (l # q) \<Longrightarrow> find_str (s @ l # q) (l # q) = Some (length s)"
proof (induction s)
  case (Cons c s)
  have "\<not> prefix (l # q) ((c # s) @ l # q)"
  proof
    assume "prefix (l # q) ((c # s) @ l # q)"
    then obtain u where "c # s = (l # q) @ u" using Cons.prems(1) by (blast elim: prefix_no_straddle)
    then have "prefix (l # q) (c # s)" by (metis prefixI)
    with Cons.prems(2) show False by (simp add: contains_Cons)
  qed
  with Cons show ?case by (simp add: contains_Cons)
qed simp

lemma contains_split_letter:
  "c \<notin> set q \<Longrightarrow> contains (a @ c # b) (l # q) \<longleftrightarrow> contains a (l # q) \<or> contains (c # b) (l # q)"
  using count_matches_split [of c q l a b] count_matches_zero [of "l # q"] by (metis add_is_0 list.distinct(1))

section \<open>Replacing\<close>

lemma char_valid_cases: "char_valid ch \<Longrightarrow> (\<exists>c. ch = [c] \<and> ord c < 128) \<or> (\<forall>c \<in> set ch. \<not> ord c < 128)"
  using char_valid_ascii by blast

lemma replace_all_skip:
  assumes "ascii_text p" and "\<forall>c \<in> set q. \<not> ord c < 128"
  shows "replace_all p r (q @ t) = q @ replace_all p r t"
  using assms(2)
proof (induction q)
  case (Cons c q)
  with assms(1) have "\<not> prefix p (c # q @ t)" by (cases p) (auto simp: ascii_text_def)
  with Cons show ?case by (simp add: replace_all.simps)
qed simp

lemma replace_all_prefix: "p \<noteq> [] \<Longrightarrow> replace_all p r (p @ t) = r @ replace_all p r t"
  by (cases p) (simp_all add: replace_all.simps)

lemma replace_all_valid:
  assumes "utf8_valid s" and "ascii_text p" and "utf8_valid r"
  shows "utf8_valid (replace_all p r s)"
  using assms(1)
proof (induction s rule: length_induct)
  case (1 s)
  have p: "p \<noteq> []" using assms(2) by (simp add: ascii_text_def)
  consider t where "s = p @ t" | "s = []" | c t where "s = c # t" "ord c < 128" "\<not> prefix p s"
    | ch t where "s = ch @ t" "char_valid ch" "\<forall>c \<in> set ch. \<not> ord c < 128" "utf8_valid t"
    using 1(2)
  proof (cases rule: utf8_valid_cases)
    case (char ch t)
    then show ?thesis using char_valid_cases [of ch] that by (cases "prefix p s") (auto simp: prefix_def)
  qed (use that in blast)
  then show ?case
  proof cases
    case (1 t)
    with \<open>utf8_valid s\<close> have "utf8_valid t" using utf8_valid_parts [of "[]" p t] assms(2) by simp
    with 1 "1.IH" p assms(3) show ?thesis by (simp add: replace_all_prefix utf8_valid_append)
  next
    case (3 c t)
    with \<open>utf8_valid s\<close> "1.IH" show ?thesis by (simp add: replace_all.simps)
  next
    case (4 ch t)
    with "1.IH" show ?thesis by (simp add: replace_all_skip [OF assms(2)] utf8_valid_char char_valid_def)
  qed simp
qed

lemma replace_all_length: "length r \<le> length p \<Longrightarrow> length (replace_all p r s) \<le> length s"
proof (induction p r s rule: replace_all.induct)
  case (2 p r c s)
  show ?case
  proof (cases "p \<noteq> [] \<and> prefix p (c # s)")
    case True
    with 2 have "length (replace_all p r (drop (length p) (c # s))) \<le> length (c # s) - length p" by auto
    with True 2(3) prefix_length_le [of p "c # s"] show ?thesis by (simp add: replace_all.simps)
  next
    case False
    with 2 show ?thesis by (auto simp: replace_all.simps)
  qed
qed simp

lemma replace_all_shorter: "length r < length p \<Longrightarrow> contains s p \<Longrightarrow> length (replace_all p r s) < length s"
proof (induction s)
  case (Cons c s)
  show ?case
  proof (cases "prefix p (c # s)")
    case True
    with Cons.prems replace_all_length [of r p "drop (length p) (c # s)"] prefix_length_le [of p "c # s"]
    show ?thesis by (cases "p = []") (auto simp: replace_all.simps)
  next
    case False
    with Cons show ?thesis by (auto simp: replace_all.simps contains_Cons)
  qed
qed (auto simp: contains_def split: if_splits)

text \<open>
  When pattern and replacement begin with the same letter, a text is changed only from such a letter on: what begins
  with other letters stays where it is.
\<close>

lemma replace_all_front:
  "l \<notin> set y \<Longrightarrow> prefix y (replace_all (l # x) (l # r) t) \<Longrightarrow> prefix y t"
proof (induction t arbitrary: y)
  case (Cons c t)
  show ?case
  proof (cases "prefix (l # x) (c # t)")
    case True
    with Cons.prems have "y = []" by (cases y) (auto simp: replace_all.simps)
    then show ?thesis by simp
  next
    case False
    with Cons show ?thesis by (cases y) (auto simp: replace_all.simps)
  qed
qed simp

lemma prefix_lead: "l \<notin> set t \<Longrightarrow> t \<noteq> [] \<Longrightarrow> \<not> prefix (l # y) (t @ u)"
  by (cases t) auto

lemma contains_skip: "l \<notin> set t \<Longrightarrow> contains (t @ u) (l # y) \<Longrightarrow> contains u (l # y)"
  by (induction t) (auto simp: contains_Cons)

text \<open>
  Replacing a marked word by one that differs from every marked word in its second letter: the word itself is gone,
  and no other marked word appears.
\<close>

lemma replace_all_absent:
  assumes "contains (replace_all (l # x) (l # z # r) s) (l # h # y)"
    and "l \<notin> set (h # y)" "l \<notin> set (z # r)" "z \<noteq> h"
  shows "contains s (l # h # y) \<and> x \<noteq> h # y"
  using assms(1)
proof (induction s rule: length_induct)
  case (1 s)
  show ?case
  proof (cases s)
    case (Cons c t)
    show ?thesis
    proof (cases "prefix (l # x) s")
      case True
      then obtain u where s: "s = (l # x) @ u" by (auto simp: prefix_def)
      with 1(2) have "contains ((l # z # r) @ replace_all (l # x) (l # z # r) u) (l # h # y)"
        by (simp only: replace_all_prefix list.distinct not_False_eq_True)
      with assms(2-4) have "contains (replace_all (l # x) (l # z # r) u) (l # h # y)"
        using contains_skip [of l "z # r"] by (auto simp: contains_Cons)
      with 1(1) s have "contains u (l # h # y)" "x \<noteq> h # y" by auto
      with s contains_appendI [of u "l # h # y" "l # x" "[]"] show ?thesis by simp
    next
      case False
      with 1(2) Cons have "prefix (l # h # y) (c # replace_all (l # x) (l # z # r) t)
          \<or> contains (replace_all (l # x) (l # z # r) t) (l # h # y)"
        by (simp add: replace_all.simps contains_Cons split: if_splits)
      then show ?thesis
      proof
        assume "prefix (l # h # y) (c # replace_all (l # x) (l # z # r) t)"
        with replace_all_front [OF assms(2), of x "z # r" t] have "prefix (l # h # y) s" by (auto simp: Cons)
        with False Cons show ?thesis by (auto simp: contains_Cons)
      next
        assume "contains (replace_all (l # x) (l # z # r) t) (l # h # y)"
        with 1(1) [rule_format, of t] Cons show ?thesis by (simp add: contains_Cons)
      qed
    qed
  qed (use 1(2) in simp)
qed

text \<open>A word without the letter of the replaced pattern does not appear either.\<close>

lemma replace_all_foreign:
  assumes "contains (replace_all (replicate (Suc n) l) (replicate (Suc m) l) s) q" and "l \<notin> set q" and "q \<noteq> []"
  shows "contains s q"
  using assms(1)
proof (induction s rule: length_induct)
  case (1 s)
  let ?p = "replicate (Suc n) l" and ?r = "replicate (Suc m) l"
  show ?case
  proof (cases s)
    case (Cons c t)
    show ?thesis
    proof (cases "prefix ?p s")
      case True
      then obtain u where s: "s = ?p @ u" by (auto simp: prefix_def)
      have "\<not> prefix q (replicate (Suc k) l @ v)" for k v using assms(2,3) by (cases q) auto
      then have "contains (replicate k l @ v) q \<Longrightarrow> contains v q" for k v
        by (induction k) (auto simp: contains_Cons)
      moreover have "contains (?r @ replace_all ?p ?r u) q" using 1(2) s by (simp add: replace_all_prefix del: replicate_Suc)
      ultimately have "contains (replace_all ?p ?r u) q" by blast
      with 1(1) [rule_format, of u] s have "contains u q" by (simp del: replicate_Suc)
      with s contains_appendI [of u q ?p "[]"] show ?thesis by simp
    next
      case False
      with 1(2) Cons have "prefix q (c # replace_all ?p ?r t) \<or> contains (replace_all ?p ?r t) q"
        by (simp add: replace_all.simps contains_Cons del: replicate_Suc split: if_splits)
      then show ?thesis
      proof
        assume "prefix q (c # replace_all ?p ?r t)"
        with assms(2,3) replace_all_front [of l "tl q" "replicate n l" "replicate m l" t] have "prefix q s"
          by (cases q) (auto simp: Cons)
        with Cons show ?thesis by (simp add: contains_Cons)
      next
        assume "contains (replace_all ?p ?r t) q"
        with 1(1) [rule_format, of t] Cons show ?thesis by (simp add: contains_Cons del: replicate_Suc)
      qed
    qed
  qed (use 1(2) assms(3) in simp)
qed

section \<open>Trimming\<close>

lemma concat_dropWhile_suffix: "suffix (concat (dropWhile P chs)) (concat chs)"
  by (metis concat_append suffixI takeWhile_dropWhile_id)

lemma trim_str_sublist: "utf8_valid s \<Longrightarrow> \<exists>a b. s = a @ trim_str s @ b"
proof -
  assume "utf8_valid s"
  define chs where "chs = dropWhile whitespace_at (chars_of s)"
  have "s = concat (takeWhile whitespace_at (chars_of s)) @ concat chs"
    using utf8_valid_chars [OF \<open>utf8_valid s\<close>] unfolding chs_def by (metis concat_append takeWhile_dropWhile_id)
  moreover have "chs = rev (dropWhile whitespace_at (rev chs)) @ rev (takeWhile whitespace_at (rev chs))"
    by (metis rev_append rev_rev_ident takeWhile_dropWhile_id)
  then have "concat chs = trim_str s @ concat (rev (takeWhile whitespace_at (rev chs)))"
    unfolding trim_str_def chs_def by (metis concat_append)
  ultimately show ?thesis by metis
qed

lemma trim_str_valid: "utf8_valid s \<Longrightarrow> utf8_valid (trim_str s)"
proof -
  assume "utf8_valid s"
  then have "\<forall>ch \<in> set (chars_of s). char_valid ch" using utf8_valid_chars by blast
  then have "\<forall>ch \<in> set (rev (dropWhile whitespace_at (rev (dropWhile whitespace_at (chars_of s))))). char_valid ch"
    by (auto dest!: set_dropWhileD)
  then show ?thesis unfolding trim_str_def using concat_chars by blast
qed

lemma trim_start_valid: "utf8_valid s \<Longrightarrow> utf8_valid (trim_start s)"
proof -
  assume "utf8_valid s"
  then have "\<forall>ch \<in> set (dropWhile whitespace_at (chars_of s)). char_valid ch"
    using utf8_valid_chars by (auto dest!: set_dropWhileD)
  then show ?thesis unfolding trim_start_def using concat_chars by blast
qed

lemma in_set_dropWhile: "x \<in> set ys \<Longrightarrow> \<not> P x \<Longrightarrow> x \<in> set (dropWhile P ys)"
  by (induction ys) auto

lemma chars_of_valid_append: "utf8_valid a \<Longrightarrow> chars_of (a @ b) = chars_of a @ chars_of b"
  by (induction rule: utf8_valid_induct) (simp_all add: chars_of_char)

lemma not_blank_within: "utf8_valid a \<Longrightarrow> ord c < 128 \<Longrightarrow> \<not> whitespace_at [c] \<Longrightarrow> \<not> is_blank (a @ c # b)"
proof -
  assume a: "utf8_valid a" and c: "ord c < 128" "\<not> whitespace_at [c]"
  then have "[c] \<in> set (chars_of (a @ c # b))" using chars_of_char [of "[c]" b] by (simp add: chars_of_valid_append char_valid_def)
  then have "[c] \<in> set (dropWhile whitespace_at (rev (dropWhile whitespace_at (chars_of (a @ c # b)))))"
    using c(2) by (simp only: in_set_dropWhile set_rev not_False_eq_True)
  then show ?thesis unfolding is_blank_def trim_str_def by force
qed

lemma not_blank: "ord c < 128 \<Longrightarrow> \<not> whitespace_at [c] \<Longrightarrow> \<not> is_blank (c # t)"
  using not_blank_within [of "[]" c t] by simp

lemma blank_empty: "is_blank []"
  by code_simp

end
