(* ===== verification/Compaction_Summary.thy ===== *)
theory Compaction_Summary
  imports Rust_Strings
begin

text \<open>
  Cleaning the text a model returns for a compaction (\<open>code_compaction/summary.rs\<close>): leading drafts are removed, the
  outer summary tags are unwrapped, control tokens that are left in the body are defused, blank lines collapsed. The
  theorem says that for every UTF-8 text this never slices out of range and leaves no control token.
\<close>

section \<open>The loop over leading drafts\<close>

lemma try_res_cong [fundef_cong]:
  "r = r' \<Longrightarrow> (\<And>x. r' = Ok x \<Longrightarrow> k x = k' x) \<Longrightarrow> try_res r k = try_res r' k'"
  by (cases r') simp_all

lemma str_slice_Ok: "str_slice s i j = Ok t \<Longrightarrow> i \<le> j \<and> j \<le> length s \<and> length t = j - i"
  by (auto simp: str_slice_def split: if_splits)

definition is_leading :: "string \<Rightarrow> nat \<Rightarrow> (unit, bool) res" where
  "is_leading result start =
     (case find_str result ''<summary>'' of
        Some sp \<Rightarrow>
          if start < sp then Ok True
          else try_res (str_slice result (sp + length ''<summary>'') start) (\<lambda>between. Ok (is_blank between))
      | None \<Rightarrow> try_res (str_slice result 0 start) (\<lambda>before. Ok (is_blank before)))"

function peel_analysis :: "string \<Rightarrow> (unit, string) res" where
  "peel_analysis result =
     (case find_str result ''<analysis>'' of
        None \<Rightarrow> Ok result
      | Some start \<Rightarrow>
          try_res (is_leading result start) (\<lambda>leading.
            if \<not> leading then Ok result
            else try_res (str_slice result start (length result)) (\<lambda>rest.
              try_res (str_slice result 0 start) (\<lambda>before.
                case find_str rest ''</analysis>'' of
                  Some rel \<Rightarrow>
                    try_res (str_slice result (start + rel + length ''</analysis>'') (length result)) (\<lambda>after.
                      peel_analysis (before @ after))
                | None \<Rightarrow>
                    let drop_to = (case find_str rest ''<summary>'' of None \<Rightarrow> length result | Some rel \<Rightarrow> start + rel)
                    in try_res (str_slice result drop_to (length result)) (\<lambda>after. Ok (before @ after))))))"
  by pat_completeness auto
termination
  by (relation "measure length") (auto dest!: str_slice_Ok)

declare peel_analysis.simps [simp del]

section \<open>The steps after it\<close>

definition strip_leading_scratchpad :: "string \<Rightarrow> (unit, string) res" where
  "strip_leading_scratchpad inner =
     (let s = trim_str inner;
          lead = dropWhile (\<lambda>c. c \<in> set ''#*-> '' \<or> ord c = 9) s
      in try_res
           (case (lead \<noteq> [] \<and> 48 \<le> ord (hd lead) \<and> ord (hd lead) \<le> 57, rfind_str s ''</analysis>'') of
              (False, Some pos) \<Rightarrow>
                try_res (str_slice s (pos + length ''</analysis>'') (length s)) (\<lambda>rest. Ok (trim_start rest))
            | _ \<Rightarrow> Ok s) (\<lambda>s.
         Ok (if prefix ''<summary>'' s then trim_start (drop (length ''<summary>'') s) else s)))"

definition unwrap_summary :: "string \<Rightarrow> (unit, string) res" where
  "unwrap_summary result =
     (case (find_str result ''<summary>'', rfind_str result ''</summary>'') of
        (Some start, Some end_pos) \<Rightarrow>
          if end_pos > start then
            try_res (str_slice result 0 start) (\<lambda>before.
              try_res (str_slice result (end_pos + length ''</summary>'') (length result)) (\<lambda>after.
                try_res (str_slice result (start + length ''<summary>'') end_pos) (\<lambda>body.
                  try_res (strip_leading_scratchpad (trim_str body)) (\<lambda>inner.
                    Ok (before @ ''Summary:'' @ [CHR 0x0A] @ inner @ after)))))
          else Ok result
      | _ \<Rightarrow> Ok result)"

text \<open>The zero-width space U+200B.\<close>

definition ZWSP :: string where
  "ZWSP = [CHR 0xE2, CHR 0x80, CHR 0x8B]"

definition neutralize_compaction_control_tokens :: "string \<Rightarrow> string" where
  "neutralize_compaction_control_tokens text =
     replace_all ''<summary_request>'' (''<'' @ ZWSP @ ''summary_request>'')
       (replace_all ''</summary_request>'' (''<'' @ ZWSP @ ''/summary_request>'')
         (replace_all ''<analysis>'' (''<'' @ ZWSP @ ''analysis>'')
           (replace_all ''</analysis>'' (''<'' @ ZWSP @ ''/analysis>'')
             (replace_all ''<summary>'' (''<'' @ ZWSP @ ''summary>'')
               (replace_all ''</summary>'' (''<'' @ ZWSP @ ''/summary>'') text)))))"

function collapse_blank_lines :: "string \<Rightarrow> string" where
  "collapse_blank_lines result =
     (if contains result (replicate 3 (CHR 0x0A))
      then collapse_blank_lines (replace_all (replicate 3 (CHR 0x0A)) (replicate 2 (CHR 0x0A)) result)
      else result)"
  by pat_completeness auto
termination
  by (relation "measure length") (auto intro: replace_all_shorter)

declare collapse_blank_lines.simps [simp del]

definition format_compact_summary :: "string \<Rightarrow> (unit, string) res" where
  "format_compact_summary summary =
     try_res (peel_analysis summary) (\<lambda>result.
       try_res (unwrap_summary result) (\<lambda>result.
         Ok (trim_str (collapse_blank_lines (neutralize_compaction_control_tokens result)))))"

definition MIN_SUMMARY_SEED_CHARS :: nat where
  "MIN_SUMMARY_SEED_CHARS = 500"

definition is_degenerate_summary :: "string \<Rightarrow> (unit, bool) res" where
  "is_degenerate_summary raw_summary =
     try_res (format_compact_summary raw_summary) (\<lambda>cleaned. Ok (char_count cleaned < MIN_SUMMARY_SEED_CHARS))"

definition CONTINUATION_PREAMBLE :: string where
  "CONTINUATION_PREAMBLE =
     ''This session is being continued from a previous conversation that ran out of context. ''
     @ ''The summary below covers the earlier portion of the conversation.'' @ [CHR 0x0A, CHR 0x0A]"

definition format_compact_summary_content :: "string \<Rightarrow> (unit, string) res" where
  "format_compact_summary_content raw_summary =
     try_res (format_compact_summary raw_summary) (\<lambda>cleaned. Ok (CONTINUATION_PREAMBLE @ cleaned))"

definition wrap_user_query :: "string \<Rightarrow> string" where
  "wrap_user_query text = ''<user_query>'' @ [CHR 0x0A] @ text @ [CHR 0x0A] @ ''</user_query>''"

section \<open>No slice is out of range\<close>

lemma tag_order:
  assumes "a @ (l # x) @ b = a' @ (l # y) @ b'" and "length a' < length a" and "l \<notin> set y"
  shows "\<exists>w. a = a' @ (l # y) @ w"
proof -
  obtain u where u: "a = a' @ u" "u @ l # x @ b = l # y @ b'"
    using assms(1,2) by (auto simp: append_eq_append_conv2)
  with assms(2) obtain v where v: "u = l # v" "v @ l # x @ b = y @ b'" by (cases u) auto
  have "length y \<le> length v"
  proof (rule ccontr)
    assume short: "\<not> ?thesis"
    then have "y ! length v = (y @ b') ! length v" by (simp add: nth_append)
    also have "\<dots> = l" by (simp flip: v(2))
    finally show False using assms(3) short by (metis not_le nth_mem)
  qed
  with v(2) obtain w where "v = y @ w" by (auto simp: append_eq_append_conv2)
  with u v show ?thesis by simp
qed

lemma ascii_tags:
  "ascii_text ''<summary>''" "ascii_text ''</summary>''" "ascii_text ''<analysis>''" "ascii_text ''</analysis>''"
  "ascii_text ''<summary_request>''" "ascii_text ''</summary_request>''"
  by (simp_all add: ascii_text_def)

lemma str_slice_front: "utf8_valid a \<Longrightarrow> utf8_valid b \<Longrightarrow> str_slice (a @ b) 0 (length a) = Ok a"
  using str_slice_mid [of a b "[]"] by simp

lemma str_slice_back: "utf8_valid b \<Longrightarrow> str_slice (a @ b) (length a) (length (a @ b)) = Ok b"
  using str_slice_mid [of b "[]" a] by simp

lemma is_leading_Ok:
  assumes "utf8_valid s" and "s = a @ ''<analysis>'' @ b"
  shows "\<exists>x. is_leading s (length a) = Ok x"
proof (cases "find_str s ''<summary>''")
  case None
  have "utf8_valid a" "utf8_valid (''<analysis>'' @ b)"
    using utf8_valid_parts [of a "''<analysis>''" b] assms by (simp_all add: ascii_tags)
  with None assms(2) show ?thesis by (simp add: is_leading_def str_slice_front)
next
  case (Some sp)
  then obtain a' b' where s: "s = a' @ ''<summary>'' @ b'" "length a' = sp" using find_str_split by blast
  show ?thesis
  proof (cases "length a < sp")
    case False
    have "a \<noteq> a'" using assms(2) s(1) by auto
    moreover have "length a \<noteq> length a'" using assms(2) s(1) calculation by (metis append_eq_append_conv)
    ultimately have "length a' < length a" using False s(2) by simp
    with tag_order [of a "CHR ''<''" "''analysis>''" b a' "''summary>''" b'] assms(2) s(1)
    obtain w where w: "a = a' @ ''<summary>'' @ w" by auto
    have "utf8_valid w"
      using utf8_valid_parts [of a "''<analysis>''" b] utf8_valid_parts [of a' "''<summary>''" w] assms w by (simp add: ascii_tags)
    moreover have "utf8_valid (''<analysis>'' @ b)" using utf8_valid_parts(2) [of a "''<analysis>''" b] assms by (simp add: ascii_tags)
    ultimately have "(str_slice s (sp + length ''<summary>'') (length a) :: (unit, _) res) = Ok w"
      using str_slice_mid [of w "''<analysis>'' @ b" "a' @ ''<summary>''"] by (simp add: assms(2) w s(2) [symmetric])
    with Some False show ?thesis by (simp add: is_leading_def)
  qed (auto simp: is_leading_def Some)
qed

text \<open>The parts of a text around an ASCII pattern that was found in it.\<close>

lemma find_parts:
  assumes "find_str s p = Some i \<or> rfind_str s p = Some i" and "utf8_valid s" and "ascii_text p"
  obtains a b where "s = a @ p @ b" "length a = i" "utf8_valid a" "utf8_valid b" "utf8_valid (p @ b)"
proof -
  obtain a b where s: "s = a @ p @ b" "length a = i" using assms(1) find_str_split rfind_str_split by blast
  moreover have "utf8_valid a" "utf8_valid b" using utf8_valid_parts [of a p b] assms(2,3) s(1) by simp_all
  moreover have "utf8_valid (p @ b)"
    using utf8_valid_ascii [of p] assms(3) \<open>utf8_valid b\<close> by (auto simp: ascii_text_def intro: utf8_valid_append)
  ultimately show thesis by (rule that)
qed

lemma str_slice_end: "str_slice s (length s) (length s) = Ok []"
  by (simp add: str_slice_def is_char_boundary_def)

lemma peel_analysis_valid: "utf8_valid s \<Longrightarrow> \<exists>t. peel_analysis s = Ok t \<and> utf8_valid t"
proof (induction s rule: length_induct)
  case (1 s)
  show ?case
  proof (cases "find_str s ''<analysis>''")
    case None
    with 1(2) show ?thesis by (subst peel_analysis.simps) simp
  next
    case (Some start)
    with 1(2) obtain a b where ab: "s = a @ ''<analysis>'' @ b" "length a = start" "utf8_valid a" "utf8_valid (''<analysis>'' @ b)"
      by (metis find_parts ascii_tags(3))
    then obtain lead where lead: "is_leading s start = Ok lead" using is_leading_Ok [OF 1(2) ab(1)] by auto
    obtain rest where s: "s = a @ rest" "utf8_valid rest" using ab by blast
    have slices: "(str_slice s start (length s) :: (unit, _) res) = Ok rest" "(str_slice s 0 start :: (unit, _) res) = Ok a"
      using str_slice_back [OF s(2), of a] str_slice_front [OF ab(3) s(2)] by (simp_all add: s(1) ab(2) [symmetric])
    note eqs = Some lead slices
    show ?thesis
    proof (cases "find_str rest ''</analysis>''")
      case (Some rel)
      then obtain c d where cd: "rest = c @ ''</analysis>'' @ d" "length c = rel" "utf8_valid d"
        using find_parts [of rest "''</analysis>''" rel] s(2) ascii_tags(4) by metis
      have "(str_slice s (start + rel + length ''</analysis>'') (length s) :: (unit, _) res) = Ok d"
        using str_slice_back [OF cd(3), of "a @ c @ ''</analysis>''"] by (simp add: s(1) cd ab(2) [symmetric])
      moreover have "\<exists>t. peel_analysis (a @ d) = Ok t \<and> utf8_valid t"
        using 1(1) utf8_valid_append [OF ab(3) cd(3)] by (simp add: s(1) cd(1))
      ultimately show ?thesis using eqs Some 1(2) by (subst peel_analysis.simps) simp
    next
      case None
      obtain d where "(str_slice s (case find_str rest ''<summary>'' of None \<Rightarrow> length s | Some rel \<Rightarrow> start + rel) (length s)
          :: (unit, _) res) = Ok d" "utf8_valid d"
      proof (cases "find_str rest ''<summary>''")
        case (Some rel)
        then obtain c d where cd: "rest = c @ ''<summary>'' @ d" "length c = rel" "utf8_valid (''<summary>'' @ d)"
          using find_parts [of rest "''<summary>''" rel] s(2) ascii_tags(1) by metis
        with str_slice_back [OF cd(3), of "a @ c"] Some show ?thesis
          by (intro that [of "''<summary>'' @ d"]) (simp_all add: s(1) cd(1,2) ab(2) [symmetric])
      qed (use that [of "[]"] in \<open>simp add: str_slice_end\<close>)
      with eqs None 1(2) ab(3) show ?thesis by (subst peel_analysis.simps) (simp add: Let_def utf8_valid_append)
    qed
  qed
qed


lemma after_analysis:
  assumes "utf8_valid s" and "rfind_str s ''</analysis>'' = Some pos"
  shows "\<exists>t. str_slice s (pos + length ''</analysis>'') (length s) = Ok t \<and> utf8_valid t"
proof -
  obtain a b where ab: "s = a @ ''</analysis>'' @ b" "length a = pos" "utf8_valid b"
    using find_parts [of s "''</analysis>''" pos] assms ascii_tags(4) by metis
  with str_slice_back [OF ab(3), of "a @ ''</analysis>''"] show ?thesis
    by (intro exI [of _ b]) (simp only: ab(1,2) append_assoc length_append)
qed

lemma drop_tag: "utf8_valid t \<Longrightarrow> ascii_text p \<Longrightarrow> utf8_valid (if prefix p t then trim_start (drop (length p) t) else t)"
  using utf8_valid_parts(2) [of "[]" p "drop (length p) t"] by (auto simp: prefix_def trim_start_valid)

lemmas drop_summary_tag = drop_tag [OF _ ascii_tags(1)]

lemma strip_leading_scratchpad_valid:
  assumes "utf8_valid s"
  shows "\<exists>t. strip_leading_scratchpad s = Ok t \<and> utf8_valid t"
proof -
  obtain u where u: "u = trim_str s" "utf8_valid u" using assms by (simp add: trim_str_valid)
  note rule = strip_leading_scratchpad_def Let_def u(1) [symmetric]
  show ?thesis
  proof (cases "rfind_str u ''</analysis>''")
    case None
    with drop_summary_tag [OF u(2)] show ?thesis unfolding rule by (auto split: bool.splits)
  next
    case (Some pos)
    then obtain t where "(str_slice u (pos + length ''</analysis>'') (length u) :: (unit, _) res) = Ok t" "utf8_valid t"
      using after_analysis u(2) by blast
    with Some drop_summary_tag [OF u(2)] drop_summary_tag [OF trim_start_valid [of t]] show ?thesis
      unfolding rule by (simp split: bool.splits)
  qed
qed

lemma unwrap_summary_valid:
  assumes "utf8_valid s"
  shows "\<exists>t. unwrap_summary s = Ok t \<and> utf8_valid t"
proof (cases "find_str s ''<summary>''")
  case (Some i)
  show ?thesis
  proof (cases "\<exists>j > i. rfind_str s ''</summary>'' = Some j")
    case True
    then obtain j where j: "i < j" "rfind_str s ''</summary>'' = Some j" by blast
    obtain a b where ab: "s = a @ ''<summary>'' @ b" "length a = i" "utf8_valid a" "utf8_valid (''<summary>'' @ b)"
      using find_parts [of s "''<summary>''" i] Some assms ascii_tags(1) by metis
    obtain a' b' where ab': "s = a' @ ''</summary>'' @ b'" "length a' = j" "utf8_valid a'" "utf8_valid b'" "utf8_valid (''</summary>'' @ b')"
      using find_parts [of s "''</summary>''" j] j(2) assms ascii_tags(2) by metis
    obtain w where w: "a' = a @ ''<summary>'' @ w"
      using tag_order [of a' "CHR ''<''" "''/summary>''" b' a "''summary>''" b] ab(1,2) ab'(1,2) j(1) by auto
    then have "utf8_valid w" using utf8_valid_parts(2) [of a "''<summary>''" w] ab'(3) by (simp add: ascii_tags)
    then obtain t where t: "strip_leading_scratchpad (trim_str w) = Ok t" "utf8_valid t"
      using strip_leading_scratchpad_valid trim_str_valid by blast
    have slices: "(str_slice s 0 i :: (unit, _) res) = Ok a"
      "(str_slice s (j + length ''</summary>'') (length s) :: (unit, _) res) = Ok b'"
      "(str_slice s (i + length ''<summary>'') j :: (unit, _) res) = Ok w"
    proof -
      show "(str_slice s 0 i :: (unit, _) res) = Ok a"
        using str_slice_front [OF ab(3,4)] by (simp only: ab(1,2))
      show "(str_slice s (j + length ''</summary>'') (length s) :: (unit, _) res) = Ok b'"
        using str_slice_back [OF ab'(4), of "a' @ ''</summary>''"] by (simp only: ab'(1,2) append_assoc length_append)
      show "(str_slice s (i + length ''<summary>'') j :: (unit, _) res) = Ok w"
        using str_slice_mid [OF \<open>utf8_valid w\<close> ab'(5), of "a @ ''<summary>''"] ab'(1,2) ab(2) w
        by (simp only: append_assoc length_append add.assoc)
    qed
    have "utf8_valid (a @ ''Summary:'' @ [CHR 0x0A] @ t @ b')"
      using ab(3) t(2) ab'(4) by (simp add: utf8_valid_append)
    with j Some t slices show ?thesis by (simp add: unwrap_summary_def)
  next
    case False
    with assms Some show ?thesis by (auto simp: unwrap_summary_def split: option.splits)
  qed
qed (simp add: unwrap_summary_def assms)


section \<open>No control token is left\<close>

text \<open>The bodies of the tags that steer a compaction, each written after a \<open><\<close>.\<close>

definition control_bodies :: "string list" where
  "control_bodies =
     [''summary_request>'', ''/summary_request>'', ''analysis>'', ''/analysis>'', ''summary>'', ''/summary>'']"

definition defused :: "string \<Rightarrow> bool" where
  "defused s \<longleftrightarrow> list_all (\<lambda>tag. \<not> contains s (CHR ''<'' # tag)) control_bodies"

definition defuse :: "string \<Rightarrow> string \<Rightarrow> string" where
  "defuse tag s = replace_all (CHR ''<'' # tag) (''<'' @ ZWSP @ tag) s"

lemma neutralize_fold: "neutralize_compaction_control_tokens s = foldr defuse control_bodies s"
  by (simp add: neutralize_compaction_control_tokens_def defuse_def control_bodies_def)

lemma control_bodies: "tag \<in> set control_bodies \<Longrightarrow> CHR ''<'' \<notin> set tag \<and> tag \<noteq> [] \<and> hd tag \<noteq> CHR 0xE2 \<and> ascii_text tag"
  by (auto simp: control_bodies_def ascii_text_def)

lemma defuse_absent:
  assumes "contains (defuse x s) (CHR ''<'' # y)" and "x \<in> set control_bodies" and "y \<in> set control_bodies"
  shows "contains s (CHR ''<'' # y) \<and> x \<noteq> y"
proof -
  obtain h t where y: "y = h # t" "h \<noteq> CHR 0xE2" using control_bodies [OF assms(3)] by (cases y) auto
  show ?thesis
    using replace_all_absent [of "CHR ''<''" x "CHR 0xE2" "[CHR 0x80, CHR 0x8B] @ x" s h t] assms(1)
      control_bodies [OF assms(2)] control_bodies [OF assms(3)] y
    by (simp add: defuse_def ZWSP_def)
qed

lemma defuse_all_absent:
  "set tags \<subseteq> set control_bodies \<Longrightarrow> y \<in> set control_bodies \<Longrightarrow> contains (foldr defuse tags s) (CHR ''<'' # y) \<Longrightarrow> y \<notin> set tags"
  by (induction tags) (auto dest: defuse_absent)

lemma neutralize_defused: "defused (neutralize_compaction_control_tokens s)"
  using defuse_all_absent [of control_bodies _ s] by (auto simp: defused_def neutralize_fold list_all_iff)

lemma defuse_valid: "utf8_valid s \<Longrightarrow> tag \<in> set control_bodies \<Longrightarrow> utf8_valid (defuse tag s)"
proof -
  assume s: "utf8_valid s" and "tag \<in> set control_bodies"
  then have tag: "ascii_text tag" using control_bodies by blast
  have "utf8_valid ZWSP" by code_simp
  then have "utf8_valid (''<'' @ ZWSP @ tag)"
    using tag utf8_valid_ascii [of tag] by (simp add: utf8_valid_append ascii_text_def)
  moreover have "ascii_text (CHR ''<'' # tag)" using tag by (simp add: ascii_text_def)
  ultimately show ?thesis using s replace_all_valid by (simp add: defuse_def)
qed

lemma neutralize_valid: "utf8_valid s \<Longrightarrow> utf8_valid (neutralize_compaction_control_tokens s)"
proof -
  assume "utf8_valid s"
  then have "set tags \<subseteq> set control_bodies \<Longrightarrow> utf8_valid (foldr defuse tags s)" for tags
    by (induction tags) (simp_all add: defuse_valid)
  then show ?thesis by (simp add: neutralize_fold)
qed

lemma collapse_blank_lines_none: "\<not> contains (collapse_blank_lines s) (replicate 3 (CHR 0x0A))"
proof (induction s rule: collapse_blank_lines.induct)
  case (1 s)
  then show ?case
    by (cases "contains s (replicate 3 (CHR 0x0A))") (subst collapse_blank_lines.simps; simp)+
qed

lemma collapse_blank_lines_valid: "utf8_valid s \<Longrightarrow> utf8_valid (collapse_blank_lines s)"
proof (induction s rule: collapse_blank_lines.induct)
  case (1 s)
  have "ascii_text (replicate 3 (CHR 0x0A))" "utf8_valid (replicate 2 (CHR 0x0A))"
    by (simp_all add: ascii_text_def numeral_eq_Suc)
  with 1 replace_all_valid [OF 1(2)] show ?case by (subst collapse_blank_lines.simps) simp
qed

lemma collapse_blank_lines_foreign:
  assumes "CHR 0x0A \<notin> set q" and "q \<noteq> []"
  shows "contains (collapse_blank_lines s) q \<Longrightarrow> contains s q"
proof (induction s rule: collapse_blank_lines.induct)
  case (1 s)
  show ?case
  proof (cases "contains s (replicate 3 (CHR 0x0A))")
    case True
    with 1 have "contains (replace_all (replicate 3 (CHR 0x0A)) (replicate 2 (CHR 0x0A)) s) q"
      by (subst (asm) (2) collapse_blank_lines.simps) simp
    then show ?thesis
      using replace_all_foreign [of 2 "CHR 0x0A" 1 s q] assms by (simp add: eval_nat_numeral)
  next
    case False
    with 1(2) show ?thesis by (subst (asm) collapse_blank_lines.simps) simp
  qed
qed

lemma trim_str_contains: "utf8_valid s \<Longrightarrow> contains (trim_str s) q \<Longrightarrow> contains s q"
  by (metis trim_str_sublist contains_appendI)


lemma format_compact_summary_clean:
  assumes "utf8_valid s"
  obtains t where "format_compact_summary s = Ok t" "utf8_valid t" "defused t" "\<not> contains t (replicate 3 (CHR 0x0A))"
proof -
  obtain p where p: "peel_analysis s = Ok p" "utf8_valid p" using peel_analysis_valid [OF assms] by blast
  obtain u where u: "unwrap_summary p = Ok u" "utf8_valid u" using unwrap_summary_valid [OF p(2)] by blast
  define n where "n = neutralize_compaction_control_tokens u"
  define c where "c = collapse_blank_lines n"
  have c: "utf8_valid c" unfolding c_def n_def using u(2) by (intro collapse_blank_lines_valid neutralize_valid)
  have "\<not> contains (trim_str c) (CHR ''<'' # tag)" if "tag \<in> set control_bodies" for tag
  proof
    assume "contains (trim_str c) (CHR ''<'' # tag)"
    then have "contains c (CHR ''<'' # tag)" by (rule trim_str_contains [OF c])
    moreover have "CHR 0x0A \<notin> set (CHR ''<'' # tag)" using that by (auto simp: control_bodies_def)
    ultimately have "contains n (CHR ''<'' # tag)" using collapse_blank_lines_foreign by (simp add: c_def)
    with neutralize_defused [of u] that show False by (simp add: n_def defused_def list_all_iff)
  qed
  then have "defused (trim_str c)" by (simp add: defused_def list_all_iff)
  moreover have "\<not> contains (trim_str c) (replicate 3 (CHR 0x0A))"
    using trim_str_contains [OF c] collapse_blank_lines_none by (auto simp: c_def)
  moreover have "format_compact_summary s = Ok (trim_str c)" by (simp add: format_compact_summary_def p u c_def n_def)
  ultimately show thesis using that trim_str_valid [OF c] by blast
qed

text \<open>A text without tags and without runs of line feeds is only trimmed.\<close>

lemma replace_all_id: "\<not> contains s p \<Longrightarrow> replace_all p r s = s"
  by (induction s) (auto simp: replace_all.simps contains_Cons)

lemma contains_hd: "contains s (l # p) \<Longrightarrow> l \<in> set s"
  by (auto simp: contains_split)

lemma format_plain_summary:
  assumes "CHR ''<'' \<notin> set s" and "\<not> contains s (replicate 3 (CHR 0x0A))"
  shows "format_compact_summary s = Ok (trim_str s)"
proof -
  have no: "\<not> contains s (CHR ''<'' # p)" for p using assms(1) contains_hd by metis
  then have none: "find_str s (CHR ''<'' # p) = None" for p by (simp add: contains_def)
  have "peel_analysis s = Ok s" by (subst peel_analysis.simps) (simp add: none)
  moreover have "unwrap_summary s = Ok s" by (simp add: unwrap_summary_def none)
  moreover have "foldr defuse tags s = s" for tags by (induction tags) (simp_all add: defuse_def replace_all_id no)
  moreover have "collapse_blank_lines s = s" using assms(2) by (subst collapse_blank_lines.simps) simp
  ultimately show ?thesis by (simp add: format_compact_summary_def neutralize_fold)
qed

lemma chars_of_ascii: "\<forall>c \<in> set s. ord c < 128 \<Longrightarrow> chars_of s = map (\<lambda>c. [c]) s"
proof (induction s)
  case (Cons c s)
  then show ?case using chars_of_char [of "[c]" s] by (simp add: char_valid_def)
qed simp

text \<open>
  C14: whatever UTF-8 text the model answers with - unbalanced, nested or misordered tags included - the cleaning of a
  compaction summary returns a text: no slice is out of range or inside a character. The text is valid UTF-8, holds no
  tag that steers a compaction (opening or closing, of request, draft or summary) and no run of three line feeds.
\<close>

theorem summary_seed_is_defused:
  assumes "utf8_valid raw"
  shows "\<exists>seed. format_compact_summary raw = Ok seed \<and> utf8_valid seed \<and> defused seed \<and>
                \<not> contains seed (replicate 3 (CHR 0x0A))"
  using format_compact_summary_clean [OF assms] by metis

text \<open>A misordered answer: a draft that never closes, a nested summary, a request tag in the body.\<close>

definition messy_answer :: string where
  "messy_answer = ''<analysis>draft<summary>1. </summary>ok <summary_request></summary>''"

theorem summary_seed_is_defused_witness:
  "utf8_valid messy_answer \<and> \<not> defused messy_answer \<and>
   (\<exists>seed. format_compact_summary messy_answer = Ok seed \<and> utf8_valid seed \<and> defused seed \<and>
           \<not> contains seed (replicate 3 (CHR 0x0A)))"
proof -
  have messy: "utf8_valid messy_answer" "\<not> defused messy_answer" by code_simp+
  show ?thesis using summary_seed_is_defused [OF messy(1)] messy by blast
qed

end
