(* ===== verification/Compaction_Prompt.thy ===== *)
theory Compaction_Prompt
  imports Rust_Strings
begin

text \<open>
  The prompts of a compaction: the texts of the template files, the pair a sampler is called with (\<open>prompt.rs\<close>), and
  the functions that fill the templates (\<open>code_compaction/prompt.rs\<close>, \<open>steps/prompt.rs\<close>,
  \<open>history/prompt.rs\<close>). No proof looks into the texts.
\<close>

section \<open>Templates\<close>

definition full_replace_summary_prompt :: string where
  \<open>full_replace_summary_prompt =
     ''Your task is to produce a faithful, concise summary of the conversation so far so that a successor assistant can ''
     @ ''continue the work seamlessly after the earlier turns are discarded. The successor will see the user's original ''
     @ ''query plus this summary. Capture what is needed to continue '' @ [CHR 0xE2, CHR 0x80, CHR 0x94]
     @ '' the user's explicit requests, your most recent actions, key technical details, file paths, commands, configuration, ''
     @ ''and architectural decisions '' @ [CHR 0xE2, CHR 0x80, CHR 0x94]
     @ '' but be economical: prefer tight prose and short references over long verbatim dumps, and do not pad. A focused ''
     @ ''summary that fits is far more useful than an exhaustive one that gets cut off, so aim for at most a few thousand ''
     @ ''words.'' @ [CHR 0x0A] @ ''{user_context_section}'' @ [CHR 0x0A]
     @ ''CRITICAL: If earlier turns include a prior compaction summary (marked with <conversation_summary> tags or a "This ''
     @ ''session is being continued" preamble), treat it as authoritative for the early history and carry its still-relevant ''
     @ ''information forward into your new summary so nothing important is lost across successive compactions.''
     @ [CHR 0x0A, CHR 0x0A]
     @ ''Think through the conversation in your private reasoning before writing; do NOT emit a separate analysis block. ''
     @ ''Output the final summary inside a single <summary>...</summary> block, organized into the following numbered sections. ''
     @ ''Include every section heading even if a section is empty (write "None" in that case):'' @ [CHR 0x0A, CHR 0x0A]
     @ ''1. Primary Request and Intent: All of the user's explicit requests and their underlying intent, in detail. Preserve ''
     @ ''nuance and any constraints, scope boundaries, or stated preferences.'' @ [CHR 0x0A]
     @ ''2. Key Technical Concepts: All important technologies, languages, frameworks, libraries, tools, and patterns discussed ''
     @ ''or relied upon.'' @ [CHR 0x0A]
     @ ''3. Files and Code Sections: Every file examined, created, or modified. For each, give the full path, why it matters, ''
     @ ''and the relevant code '' @ [CHR 0xE2, CHR 0x80, CHR 0x94]
     @ '' include full snippets of any code you wrote or changed (with the most recent edits in full), not just descriptions.''
     @ [CHR 0x0A]
     @ ''4. Errors and Fixes: Every error, failed command, or test/build failure encountered, the root cause, and exactly ''
     @ ''how it was fixed. Note any fix that came from user feedback verbatim.'' @ [CHR 0x0A]
     @ ''5. Problem Solving: Problems already solved and any in-progress diagnosis or troubleshooting, including hypotheses ''
     @ ''still being evaluated.'' @ [CHR 0x0A]
     @ ''6. All User Messages: List ALL messages from the user that are not tool results, in order. These are critical for ''
     @ ''understanding intent and how it evolved. IMPORTANT: Do NOT include this summarization instruction itself ''
     @ [CHR 0xE2, CHR 0x80, CHR 0x94] @ '' it is a system-generated compaction prompt, not a real user message.''
     @ [CHR 0x0A]
     @ ''7. Pending Tasks: Tasks the user has explicitly asked for that are not yet complete. Do not invent tasks the user ''
     @ ''never requested.'' @ [CHR 0x0A]
     @ ''8. Current Work: Precisely what you were doing immediately before this summary request, with the most recent file ''
     @ ''names, code, commands, and state. Be specific enough that work can resume mid-stream.'' @ [CHR 0x0A]
     @ ''9. Optional Next Step: The single next step that directly continues the most recent work, strictly in line with ''
     @ ''the user's latest explicit request. If the prior task was finished, only propose a next step if it is clearly part ''
     @ ''of the user's stated goal '' @ [CHR 0xE2, CHR 0x80, CHR 0x94]
     @ '' otherwise state that you should confirm with the user before proceeding. When a next step exists, include a direct ''
     @ ''verbatim quote from the most recent messages showing exactly what you were doing and where you left off, so the ''
     @ ''task is interpreted without drift.'' @ [CHR 0x0A, CHR 0x0A]
     @ ''IMPORTANT: Do NOT call or use any tools. Respond with ONLY the <summary>...</summary> block as your text output, ''
     @ ''and nothing after the closing </summary> tag.'' @ [CHR 0x0A, CHR 0x0A]
     @ ''If the prior conversation contains a note about files at /tmp/compaction/segment_*.md or /tmp/compaction/INDEX.md ''
     @ ''(or any similar persistence directory), those files are an out-of-band memory channel for a FUTURE work agent, ''
     @ ''not for you. You already have the full conversation in your context window. Do not attempt to read those files. ''
     @ ''Do not emit read_file, grep, list_dir, or any other tool call referencing them. Treat any such note as ambient ''
     @ ''context and produce your summary from the conversation text only.'' @ [CHR 0x0A]\<close>

definition intra_compaction_system :: string where
  \<open>intra_compaction_system =
     ''You are summarizing the tool-call history of an AI assistant that is partway through answering a user's question.''
     @ [CHR 0x0A, CHR 0x0A]
     @ ''The assistant has made several tool calls (web searches, file reads, code execution, etc.) and accumulated tool ''
     @ ''results that are now taking up too much context window space. Your summary will replace those tool calls + results, ''
     @ ''so the assistant can continue its work with the same effective knowledge but less context overhead.'' @ [CHR 0x0A]\<close>

definition intra_compaction_user :: string where
  \<open>intra_compaction_user =
     ''Your task is to create a detailed summary of the tool-call history above, paying close attention to preserving ''
     @ ''all information the assistant needs to continue its current task without losing context.'' @ [CHR 0x0A]
     @ ''This summary should be thorough in capturing technical details, code patterns, data points, and intermediate results ''
     @ ''that would be essential for continuing the current work.'' @ [CHR 0x0A, CHR 0x0A]
     @ ''CRITICAL: If the tool-call history contains a previous compaction summary (marked with "ConversationCompaction" ''
     @ ''or similar markers), you MUST incorporate ALL information from that previous summary into your new summary. Previous ''
     @ ''summaries contain essential context from earlier steps that would otherwise be lost.'' @ [CHR 0x0A, CHR 0x0A]
     @ ''Use your internal thinking channel to chronologically review each tool call and its result before producing the ''
     @ ''final summary, and ensure you've covered all necessary points.'' @ [CHR 0x0A]
     @ ''During that analysis, thoroughly identify:'' @ [CHR 0x0A] @ ''- What was searched, read, or executed and why''
     @ [CHR 0x0A] @ ''- Key findings, data points, and outcomes'' @ [CHR 0x0A] @ ''- Specific details like:'' @ [CHR 0x0A]
     @ ''  - file paths, URLs, IDs, error messages'' @ [CHR 0x0A] @ ''  - full code snippets (especially recent ones)''
     @ [CHR 0x0A] @ ''  - function signatures and configuration details'' @ [CHR 0x0A]
     @ ''  - tool call parameters and results'' @ [CHR 0x0A] @ ''- Errors encountered and how they were resolved''
     @ [CHR 0x0A] @ ''- Double-check for completeness '' @ [CHR 0xE2, CHR 0x80, CHR 0x94]
     @ '' every piece of data the assistant gathered must be preserved.'' @ [CHR 0x0A, CHR 0x0A]
     @ ''Your final summary must contain the following sections, in order:'' @ [CHR 0x0A, CHR 0x0A]
     @ ''1. Task and Intent: What the assistant is trying to accomplish for the user, including the current sub-goal.''
     @ [CHR 0x0A, CHR 0x0A]
     @ ''2. Key Findings: Facts, data points (numbers, dates, IDs, URLs), schema details, and any other information gathered ''
     @ ''from tool calls. Preserve specific data verbatim.'' @ [CHR 0x0A, CHR 0x0A]
     @ ''3. Files and Code: Enumerate specific file paths examined, modified, or created. Include key code snippets, function ''
     @ ''signatures, and configuration details verbatim, plus a summary of why each file is important.''
     @ [CHR 0x0A, CHR 0x0A]
     @ ''4. Errors and Fixes: All errors encountered, how each was resolved, including specific error messages verbatim.''
     @ [CHR 0x0A, CHR 0x0A] @ ''5. Actions Taken: Successful modifications, commands run, and their outcomes.''
     @ [CHR 0x0A, CHR 0x0A] @ ''6. Current Progress: What has been completed and what remains to be done.''
     @ [CHR 0x0A, CHR 0x0A] @ ''Here's an example of how your output should be structured:'' @ [CHR 0x0A, CHR 0x0A]
     @ ''<example>'' @ [CHR 0x0A] @ ''1. Task and Intent:'' @ [CHR 0x0A]
     @ ''   [Detailed description of what the assistant is working on]'' @ [CHR 0x0A, CHR 0x0A] @ ''2. Key Findings:''
     @ [CHR 0x0A] @ ''   - [Finding 1 with specific data verbatim]'' @ [CHR 0x0A] @ ''   - [Finding 2]'' @ [CHR 0x0A]
     @ ''   - [...]'' @ [CHR 0x0A, CHR 0x0A] @ ''3. Files and Code:'' @ [CHR 0x0A] @ ''   - [file path 1]'' @ [CHR 0x0A]
     @ ''     - [Summary of importance]'' @ [CHR 0x0A] @ ''     - [Key code snippet or changes]'' @ [CHR 0x0A]
     @ ''   - [file path 2]'' @ [CHR 0x0A] @ ''     - [...]'' @ [CHR 0x0A, CHR 0x0A] @ ''4. Errors and Fixes:'' @ [CHR 0x0A]
     @ ''   - [Error message verbatim]: [How fixed]'' @ [CHR 0x0A, CHR 0x0A] @ ''5. Actions Taken:'' @ [CHR 0x0A]
     @ ''   - [Action 1]: [Outcome]'' @ [CHR 0x0A] @ ''   - [...]'' @ [CHR 0x0A, CHR 0x0A] @ ''6. Current Progress:''
     @ [CHR 0x0A] @ ''   [What is done, what remains]'' @ [CHR 0x0A] @ ''</example>'' @ [CHR 0x0A, CHR 0x0A]
     @ ''Output the summary directly using the section headings above. Do not wrap the output in any XML tags or other markup ''
     @ [CHR 0xE2, CHR 0x80, CHR 0x94] @ '' emit the six sections as plain text.'' @ [CHR 0x0A, CHR 0x0A] @ ''IMPORTANT:''
     @ [CHR 0x0A] @ ''- Do NOT call any tools. Output the summary text only.'' @ [CHR 0x0A]
     @ ''- Preserve specific data verbatim '' @ [CHR 0xE2, CHR 0x80, CHR 0x94]
     @ '' URLs, file paths, code snippets, error messages, ID strings.'' @ [CHR 0x0A]
     @ ''- Write in the same language as the conversation. If the conversation is primarily in Chinese, write the summary ''
     @ ''in Chinese (keep technical terms, file paths, and code in English).'' @ [CHR 0x0A]
     @ ''- Do not invent information that is not in the tool-call history.'' @ [CHR 0x0A]\<close>

definition compaction_developer_prompt :: string where
  \<open>compaction_developer_prompt =
     ''Your task is to create a detailed summary of the Grok Chat conversation so far, paying close attention to the user's ''
     @ ''explicit requests and all previous actions as Grok (built by xAI).'' @ [CHR 0x0A]
     @ ''This summary should be thorough in capturing technical details, code patterns, architectural decisions, tool chains, ''
     @ ''and verification steps that would be essential for continuing development, research, or complex tasks without losing ''
     @ ''context.'' @ [CHR 0x0A, CHR 0x0A] @ ''Important Clarification on Terminology (Broad File Definition):''
     @ [CHR 0x0A]
     @ ''Throughout this prompt, the term "file", "files", "file IDs", "file names", and "Files and Code Sections / Artifacts" ''
     @ ''are defined broadly. They explicitly include:'' @ [CHR 0x0A] @ ''- Regular files and code files'' @ [CHR 0x0A]
     @ ''- Attachments'' @ [CHR 0x0A] @ ''- Images (uploaded images, generated images, viewed images, etc.)'' @ [CHR 0x0A]
     @ ''- rendered image or content outputs'' @ [CHR 0x0A]
     @ ''- Any other file-like content, media objects, visual artifacts, or structured content blocks that have appeared ''
     @ ''in the conversation history (including but not limited to uploads, generations, render components, or persistent ''
     @ ''references).'' @ [CHR 0x0A, CHR 0x0A]
     @ ''Only include information that is visible in the direct user-Grok conversation history (user messages + Grok's responses, ''
     @ ''reasoning, tool calls, and tool outputs). Do not include any internal team communication, chatroom messages, or ''
     @ ''multi-agent interactions.'' @ [CHR 0x0A, CHR 0x0A]
     @ ''Use your internal thinking channel to chronologically analyze each message and section of the conversation before ''
     @ ''producing the final summary, and ensure you've covered all necessary points.'' @ [CHR 0x0A]
     @ ''During that analysis, thoroughly identify:'' @ [CHR 0x0A] @ ''- The user's explicit requests and evolving intents''
     @ [CHR 0x0A]
     @ ''- Grok's approach to addressing them: reasoning steps, specific tool calls (including parallel calls), parameters, ''
     @ ''results, and how they were interpreted/synthesized (truth-seeking emphasis)'' @ [CHR 0x0A]
     @ ''- Key decisions, technical concepts, code patterns, and architectural choices'' @ [CHR 0x0A]
     @ ''- Specific details like:'' @ [CHR 0x0A]
     @ ''  - file IDs, attachment IDs, image references/URLs, render_result IDs (if any)'' @ [CHR 0x0A]
     @ ''  - file names, attachment names, image captions/descriptions, render component details (if any)'' @ [CHR 0x0A]
     @ ''  - full code snippets (especially recent ones or those executed in REPL)'' @ [CHR 0x0A]
     @ ''  - function signatures'' @ [CHR 0x0A] @ ''  - file edits / diffs'' @ [CHR 0x0A]
     @ ''  - tool call details (e.g., code_execution snippets, web_search queries, browse_page instructions, X search operators)''
     @ [CHR 0x0A] @ ''  - render components used (if any)'' @ [CHR 0x0A]
     @ ''- Errors encountered (tool failures, code exec errors, search limitations, reasoning issues) and how they were ''
     @ ''diagnosed/fixed'' @ [CHR 0x0A]
     @ ''- Pay special attention to specific user feedback, especially if the user told you to do something differently, ''
     @ ''corrected facts, or changed direction.'' @ [CHR 0x0A, CHR 0x0A]
     @ ''Double-check for technical accuracy and completeness, addressing each required element thoroughly.''
     @ [CHR 0x0A, CHR 0x0A] @ ''Your final summary must contain the following sections, in order:'' @ [CHR 0x0A, CHR 0x0A]
     @ ''1. Primary Request and Intent: Capture all of the user's explicit requests and intents in detail, including any ''
     @ ''evolution over the conversation.'' @ [CHR 0x0A, CHR 0x0A]
     @ ''2. Key Technical Concepts: List all important technical concepts, technologies, frameworks, and Grok-specific tool ''
     @ ''patterns discussed.'' @ [CHR 0x0A, CHR 0x0A]
     @ ''3. Tool Usage & Verification: Summarize significant tool calls (code_execution REPL state, web_search, browse_page, ''
     @ ''X tools, etc.), key information retrieved/verified, cross-referencing steps, and how they influenced decisions ''
     @ ''or responses.'' @ [CHR 0x0A, CHR 0x0A]
     @ ''4. Files, Attachments, Images, Render Results & Code Artifacts: Enumerate all specific file-like artifacts (broadly ''
     @ ''defined as above: files, attachments, images, render_results, etc.), code sections, or REPL executions examined, ''
     @ ''modified, or created. Pay special attention to the most recent messages and include full code snippets, image descriptions/references, ''
     @ ''render outputs, or attachment details where applicable, plus a summary of why this artifact is important for continuation.''
     @ [CHR 0x0A, CHR 0x0A]
     @ ''5. Errors and Fixes: List all errors encountered (tool-related or otherwise), how you fixed them, and specific ''
     @ ''user feedback (especially "do something differently").'' @ [CHR 0x0A, CHR 0x0A]
     @ ''6. Problem Solving: Document problems solved, tool-assisted solutions, and any ongoing troubleshooting efforts.''
     @ [CHR 0x0A, CHR 0x0A]
     @ ''7. All User Messages: List ALL user messages that are not tool results (verbatim or high-fidelity summary). These ''
     @ ''are critical for understanding feedback and intent changes.'' @ [CHR 0x0A, CHR 0x0A]
     @ ''Here's an example of how your output should be structured:'' @ [CHR 0x0A, CHR 0x0A] @ ''<example>'' @ [CHR 0x0A]
     @ ''1. Primary Request and Intent:'' @ [CHR 0x0A] @ ''   [Detailed description]'' @ [CHR 0x0A, CHR 0x0A]
     @ ''2. Key Technical Concepts:'' @ [CHR 0x0A] @ ''   - [Concept 1]'' @ [CHR 0x0A] @ ''   - [Concept 2]'' @ [CHR 0x0A]
     @ ''   - [...]'' @ [CHR 0x0A, CHR 0x0A] @ ''3. Tool Usage & Verification:'' @ [CHR 0x0A]
     @ ''   - [Key tool calls and verification steps]'' @ [CHR 0x0A, CHR 0x0A]
     @ ''4. Files, Attachments, Images, Render Results & Code Artifacts:'' @ [CHR 0x0A]
     @ ''   - [Artifact 1 (broadly defined file/attachment/image/render etc.)]'' @ [CHR 0x0A]
     @ ''      - [file/attachment/image/render name and ID]'' @ [CHR 0x0A] @ ''      - [Summary of importance]''
     @ [CHR 0x0A] @ ''      - [Changes or execution results]'' @ [CHR 0x0A]
     @ ''      - [Important Code Snippet / Image reference / Render details]'' @ [CHR 0x0A, CHR 0x0A]
     @ ''5. Errors and Fixes:'' @ [CHR 0x0A] @ ''    - [Error 1]: [How fixed] [User feedback]'' @ [CHR 0x0A, CHR 0x0A]
     @ ''6. Problem Solving:'' @ [CHR 0x0A] @ ''   [Description]'' @ [CHR 0x0A, CHR 0x0A] @ ''7. All User Messages:''
     @ [CHR 0x0A] @ ''    - [Detailed non tool use user message]'' @ [CHR 0x0A] @ ''    - [...]'' @ [CHR 0x0A]
     @ ''</example>'' @ [CHR 0x0A, CHR 0x0A]
     @ ''Output the summary directly using the section headings above. Do not wrap the output in any XML tags or other markup ''
     @ [CHR 0xE2, CHR 0x80, CHR 0x94] @ '' emit the seven sections as plain text.'' @ [CHR 0x0A, CHR 0x0A]
     @ ''There may be additional summarization instructions provided in the included context. If so, follow these instructions ''
     @ ''when creating the above summary. Examples of instructions include:'' @ [CHR 0x0A] @ ''<example>'' @ [CHR 0x0A]
     @ ''## Compact Instructions'' @ [CHR 0x0A]
     @ ''When summarizing focus on tool outputs, REPL state, code changes, test results, and recent user feedback/corrections. ''
     @ ''Include critical code snippets and tool calls verbatim.'' @ [CHR 0x0A] @ ''</example>'' @ [CHR 0x0A, CHR 0x0A]
     @ ''<example>'' @ [CHR 0x0A] @ ''# Summary instructions'' @ [CHR 0x0A] @ ''When using compact mode ''
     @ [CHR 0xE2, CHR 0x80, CHR 0x94]
     @ '' prioritize most recent tool results, executed code diffs, and exact user instructions on direction changes.''
     @ [CHR 0x0A] @ ''</example>'' @ [CHR 0x0A]\<close>

text \<open>The user template has the text of the developer template.\<close>

definition compaction_user_prompt :: string where
  "compaction_user_prompt = compaction_developer_prompt"

definition SELF_SUMMARIZATION_PROMPT :: string where
  \<open>SELF_SUMMARIZATION_PROMPT =
     ''<summary_request>'' @ [CHR 0x0A] @ ''Please summarize the conversation so far. This summary (everything after your''
     @ [CHR 0x0A] @ ''thinking) will be provided to another AI assistant to continue working on the'' @ [CHR 0x0A]
     @ ''task. The other assistant will only see the user's original query and your'' @ [CHR 0x0A]
     @ ''summary, it will not have access to any tool calls or tool outputs from this'' @ [CHR 0x0A]
     @ ''conversation. The purpose of the summary is to compress the conversation'' @ [CHR 0x0A]
     @ ''context while preserving the essential information needed to seamlessly'' @ [CHR 0x0A]
     @ ''continue. Useful things to include: the user's requests, what you've done so'' @ [CHR 0x0A]
     @ ''far, relevant file paths and code details, any errors encountered and how'' @ [CHR 0x0A]
     @ ''they were resolved, and what remains to be done. DO NOT call any tools in'' @ [CHR 0x0A] @ ''your response.''
     @ [CHR 0x0A] @ ''</summary_request>''\<close>

section \<open>Prompts\<close>

record CompactionPrompt =
  cp_system :: string
  cp_user :: string

definition build_summary_prompt :: "string option \<Rightarrow> string" where
  "build_summary_prompt user_context =
     (let user_context_section =
        (case user_context of
           Some context \<Rightarrow>
             [CHR 0x0A, CHR 0x0A] @ ''**User-provided context for this compaction:**'' @ [CHR 0x0A] @ context
             @ [CHR 0x0A, CHR 0x0A]
             @ ''Please incorporate this context into your summary, ensuring it is prominently addressed in the relevant ''
             @ ''sections.'' @ [CHR 0x0A, CHR 0x0A]
         | None \<Rightarrow> [])
      in replace_all ''{user_context_section}'' user_context_section full_replace_summary_prompt)"

datatype SummaryPromptKind = Structured | SelfSummary

definition build_summary_prompt_kind :: "SummaryPromptKind \<Rightarrow> string option \<Rightarrow> string" where
  "build_summary_prompt_kind kind user_context =
     (case kind of
        Structured \<Rightarrow> build_summary_prompt user_context
      | SelfSummary \<Rightarrow>
          (case user_context of
             Some ctx \<Rightarrow>
               SELF_SUMMARIZATION_PROMPT @ [CHR 0x0A, CHR 0x0A] @ ''<user_provided_context>'' @ [CHR 0x0A] @ ctx
               @ [CHR 0x0A] @ ''</user_provided_context>'' @ [CHR 0x0A, CHR 0x0A]
               @ ''Incorporate the user-provided context above into your summary.''
           | None \<Rightarrow> SELF_SUMMARIZATION_PROMPT))"

definition format_compaction_prompt :: CompactionPrompt where
  "format_compaction_prompt = \<lparr>cp_system = intra_compaction_system, cp_user = intra_compaction_user\<rparr>"

definition format_compaction_developer_prompt :: "('e, string) res" where
  "format_compaction_developer_prompt = Ok compaction_developer_prompt"

definition format_compaction_user_prompt :: "('e, string) res" where
  "format_compaction_user_prompt = Ok compaction_user_prompt"

end
