(* ===== verification/Compaction_Sampling.thy ===== *)
theory Compaction_Sampling
  imports Compaction_Summary Compaction_Prompt
begin

text \<open>
  Asking a model for a summary: the errors of a sampler (\<open>sampler.rs\<close>), which failures are worth a retry
  (\<open>code_compaction/failure.rs\<close>), and the loop that samples, classifies and retries
  (\<open>code_compaction/sample.rs\<close>). The sampler, the timer and the clock belong to the harness: they are operations on
  a world the model knows nothing about.
\<close>

section \<open>Samplers and their errors\<close>

record LlmCompactionOutput =
  lo_response :: string
  lo_thinking :: string

datatype CompactionSampleError =
    Sample_Timeout (timeout_secs: u64) (collected_bytes: nat)
  | Sample_Build string
  | Sample_Start string
  | Sample_EmptyResponse
  | Sample_Other string

fun sample_error_text :: "CompactionSampleError \<Rightarrow> string" where
  "sample_error_text (Sample_Timeout secs bytes) =
     ''Compaction sampling timed out after '' @ dec_string (unat secs) @ ''s (collected '' @ dec_string bytes @ '' bytes so far)''"
| "sample_error_text (Sample_Build msg) = ''Compaction sampler build failed: '' @ msg"
| "sample_error_text (Sample_Start msg) = ''Compaction sampler start failed: '' @ msg"
| "sample_error_text Sample_EmptyResponse = ''Compaction sampler returned no response channel content''"
| "sample_error_text (Sample_Other e) = e"

fun sample_error_is_deterministic :: "CompactionSampleError \<Rightarrow> bool" where
  "sample_error_is_deterministic (Sample_Timeout secs bytes) = False"
| "sample_error_is_deterministic Sample_EmptyResponse = False"
| "sample_error_is_deterministic (Sample_Build msg) = True"
| "sample_error_is_deterministic (Sample_Start msg) = True"
| "sample_error_is_deterministic (Sample_Other msg) =
     (contains msg ''Failed to build AgenticScheduler'' \<or> contains msg ''Failed to start compaction sample'')"

text \<open>
  The harness: a sampler, a sleep and a clock over the harness's own state \<open>'w\<close>. Timeouts and delays are in seconds,
  the clock is in nanoseconds.
\<close>

record ('w, 't) Host =
  h_sample :: "'t list \<Rightarrow> CompactionPrompt \<Rightarrow> u64 \<Rightarrow> 'w \<Rightarrow> 'w \<times> (CompactionSampleError + LlmCompactionOutput)"
  h_sleep :: "u64 \<Rightarrow> 'w \<Rightarrow> 'w"
  h_now :: "'w \<Rightarrow> nat"

section \<open>Failures\<close>

datatype FailureKind = Deterministic | Transient

definition kind_is_deterministic :: "FailureKind \<Rightarrow> bool" where
  "kind_is_deterministic k \<longleftrightarrow> k = Deterministic"

definition is_context_length_error :: "string \<Rightarrow> bool" where
  "is_context_length_error message \<longleftrightarrow>
     (let m = to_ascii_lowercase message in
      contains m ''too long for this model'' \<or> contains m ''prompt is too long'' \<or> contains m ''maximum prompt length''
      \<or> contains m ''maximum context length'' \<or> contains m ''context_length_exceeded'')"

definition classify_http_status :: "u16 \<Rightarrow> string \<Rightarrow> FailureKind" where
  "classify_http_status status message =
     (if is_context_length_error message \<or> ((400 \<le> status \<and> status < 500) \<and> status \<noteq> 408 \<and> status \<noteq> 429)
      then Deterministic else Transient)"

definition classify_stream_event_error :: "string option \<Rightarrow> string \<Rightarrow> FailureKind" where
  "classify_stream_event_error code message =
     (if code = Some ''invalid_request_error'' \<or> contains message ''invalid_request_error'' then Deterministic
      else if (case Option.bind code (parse_unsigned (2 ^ 16)) of
                 Some n \<Rightarrow> (let status_code = of_nat n :: u16 in
                   (400 \<le> status_code \<and> status_code < 500) \<and> status_code \<noteq> 408 \<and> status_code \<noteq> 429)
               | None \<Rightarrow> False) then Deterministic
      else if is_context_length_error message then Deterministic
      else Transient)"

section \<open>The retry loop\<close>

datatype FullReplaceAttemptOutcome =
    Attempt_Success string
  | Attempt_EmptyResponse (empty_retry: bool)
  | Attempt_Degenerate string (degenerate_retry: bool)
  | Attempt_Failure (failure_message: string) (failure_deterministic: bool) (failure_overflow: bool) (failure_retry: bool)

text \<open>What the loop and the pass around it report to the observer.\<close>

datatype FullReplaceEvent =
    On_attempt u32 FullReplaceAttemptOutcome
  | On_success u32 nat nat
  | On_error u32

record SampledSummary =
  ss_summary :: string
  ss_attempts :: u32

datatype SampleRetryError =
    Retry_Empty u32
  | Retry_Failure (retry_message: string) (retry_deterministic: bool) (retry_overflow: bool) (retry_attempts: u32)

fun sample_attempts :: "('w, 't) Host \<Rightarrow> 't list \<Rightarrow> CompactionPrompt \<Rightarrow> u32 \<Rightarrow> u64 \<Rightarrow> u64 \<Rightarrow> u32 list \<Rightarrow> 'w
    \<Rightarrow> 'w \<times> FullReplaceEvent list \<times> (SampleRetryError, SampledSummary) res" where
  "sample_attempts h turns prompt max_attempts retry_delay timeout [] w = (w, [], Err (Retry_Empty max_attempts))"
| "sample_attempts h turns prompt max_attempts retry_delay timeout (attempt # rest) w =
     (let will_retry = (attempt < max_attempts);
          (w1, reply) = h_sample h turns prompt timeout w;
          finish = (\<lambda>e r. (w1, [On_attempt attempt e], r));
          again = (\<lambda>e. case sample_attempts h turns prompt max_attempts retry_delay timeout rest (h_sleep h retry_delay w1) of
                         (w2, es, r) \<Rightarrow> (w2, On_attempt attempt e # es, r))
      in case reply of
        Inr output \<Rightarrow>
          if \<not> is_blank (lo_response output) then
            case is_degenerate_summary (lo_response output) of
              Ok True \<Rightarrow>
                let e = Attempt_Degenerate (lo_response output) will_retry in
                if \<not> will_retry then finish e (Err (Retry_Empty attempt)) else again e
            | Ok False \<Rightarrow>
                finish (Attempt_Success (lo_response output))
                  (Ok \<lparr>ss_summary = lo_response output, ss_attempts = attempt\<rparr>)
            | _ \<Rightarrow> (w1, [], Panic)
          else
            let e = Attempt_EmptyResponse will_retry in
            if \<not> will_retry then finish e (Err (Retry_Empty attempt)) else again e
      | Inl err \<Rightarrow>
          let message = sample_error_text err;
              context_overflow = is_context_length_error message;
              deterministic = (sample_error_is_deterministic err \<or> context_overflow);
              retrying = (will_retry \<and> \<not> deterministic);
              e = Attempt_Failure message deterministic context_overflow retrying
          in if deterministic then finish e (Err (Retry_Failure message True context_overflow attempt))
             else if \<not> will_retry then finish e (Err (Retry_Failure message False False attempt))
             else again e)"

definition sample_summary_with_retries :: "('w, 't) Host \<Rightarrow> 't list \<Rightarrow> CompactionPrompt \<Rightarrow> u32 \<Rightarrow> u64 \<Rightarrow> u64 \<Rightarrow> 'w
    \<Rightarrow> 'w \<times> FullReplaceEvent list \<times> (SampleRetryError, SampledSummary) res" where
  "sample_summary_with_retries h turns prompt max_attempts retry_delay timeout w =
     (let max_attempts = max max_attempts 1
      in sample_attempts h turns prompt max_attempts retry_delay timeout (map of_nat [1..<Suc (unat max_attempts)]) w)"


section \<open>Codes and statuses\<close>

text \<open>
  A failure that arrives in the stream with a numeric code is classified as the same HTTP status is: 4xx codes other
  than 408 and 429 and context overflows are not retried, everything else is - unless the message names a rejected
  request, which is never retried.
\<close>

theorem stream_codes_match_http:
  "classify_stream_event_error (Some (dec_string (unat status))) message =
     (if contains message ''invalid_request_error'' then Deterministic else classify_http_status status message)"
proof -
  have "CHR ''_'' \<notin> set (dec_string (unat status))" by (auto dest: dec_string_digits)
  then have "dec_string (unat status) \<noteq> ''invalid_request_error''" by auto
  moreover have "parse_unsigned (2 ^ 16) (dec_string (unat status)) = Some (unat status)"
    using parse_dec_string [of "unat status" "2 ^ 16"] unat_lt [of status] by simp
  ultimately show ?thesis
    by (simp add: classify_stream_event_error_def classify_http_status_def Let_def del: power_numeral)
qed

section \<open>What the loop does\<close>

text \<open>
  The reference: the replies that a run of attempts would see one after the other, which of them are worth another
  attempt, how each is reported, and what the last one is turned into.
\<close>

type_synonym reply = "CompactionSampleError + LlmCompactionOutput"

fun world_before :: "('w, 't) Host \<Rightarrow> 't list \<Rightarrow> CompactionPrompt \<Rightarrow> u64 \<Rightarrow> u64 \<Rightarrow> 'w \<Rightarrow> nat \<Rightarrow> 'w" where
  "world_before h turns prompt delay timeout w 0 = w"
| "world_before h turns prompt delay timeout w (Suc k) =
     world_before h turns prompt delay timeout (h_sleep h delay (fst (h_sample h turns prompt timeout w))) k"

definition reply_at :: "('w, 't) Host \<Rightarrow> 't list \<Rightarrow> CompactionPrompt \<Rightarrow> u64 \<Rightarrow> u64 \<Rightarrow> 'w \<Rightarrow> nat \<Rightarrow> reply" where
  "reply_at h turns prompt delay timeout w k =
     snd (h_sample h turns prompt timeout (world_before h turns prompt delay timeout w k))"

definition hopeless :: "CompactionSampleError \<Rightarrow> bool" where
  "hopeless e \<longleftrightarrow> sample_error_is_deterministic e \<or> is_context_length_error (sample_error_text e)"

definition too_short :: "string \<Rightarrow> bool" where
  "too_short response \<longleftrightarrow> is_degenerate_summary response = Ok True"

fun retryable :: "reply \<Rightarrow> bool" where
  "retryable (Inr output) \<longleftrightarrow> is_blank (lo_response output) \<or> too_short (lo_response output)"
| "retryable (Inl e) \<longleftrightarrow> \<not> hopeless e"

fun attempt_outcome :: "bool \<Rightarrow> reply \<Rightarrow> FullReplaceAttemptOutcome" where
  "attempt_outcome left (Inr output) =
     (if is_blank (lo_response output) then Attempt_EmptyResponse left
      else if too_short (lo_response output) then Attempt_Degenerate (lo_response output) left
      else Attempt_Success (lo_response output))"
| "attempt_outcome left (Inl e) =
     Attempt_Failure (sample_error_text e) (hopeless e) (is_context_length_error (sample_error_text e)) (left \<and> \<not> hopeless e)"

fun final_result :: "u32 \<Rightarrow> reply \<Rightarrow> (SampleRetryError, SampledSummary) res" where
  "final_result n (Inr output) =
     (if retryable (Inr output) then Err (Retry_Empty n)
      else Ok \<lparr>ss_summary = lo_response output, ss_attempts = n\<rparr>)"
| "final_result n (Inl e) =
     Err (Retry_Failure (sample_error_text e) (hopeless e) (hopeless e \<and> is_context_length_error (sample_error_text e)) n)"

text \<open>A sampler answers with strings, and a Rust string is valid UTF-8.\<close>

definition answers_in_utf8 :: "('w, 't) Host \<Rightarrow> bool" where
  "answers_in_utf8 h \<longleftrightarrow>
     (\<forall>turns prompt timeout w output. snd (h_sample h turns prompt timeout w) = Inr output \<longrightarrow> utf8_valid (lo_response output))"

lemma is_degenerate_summary_Ok: "utf8_valid s \<Longrightarrow> is_degenerate_summary s = Ok (too_short s)"
proof -
  assume "utf8_valid s"
  then obtain t where "format_compact_summary s = Ok t" by (rule format_compact_summary_clean)
  then show ?thesis by (simp add: is_degenerate_summary_def too_short_def)
qed

lemma sample_attempts_step:
  assumes "answers_in_utf8 h"
  shows "sample_attempts h turns prompt m delay timeout (a # rest) w =
    (case h_sample h turns prompt timeout w of (w1, r) \<Rightarrow>
       if retryable r \<and> a < m
       then (case sample_attempts h turns prompt m delay timeout rest (h_sleep h delay w1) of
               (w2, es, res) \<Rightarrow> (w2, On_attempt a (attempt_outcome True r) # es, res))
       else (w1, [On_attempt a (attempt_outcome (a < m) r)], final_result a r))"
proof -
  obtain w1 r where r: "h_sample h turns prompt timeout w = (w1, r)" by force
  show ?thesis
  proof (cases r)
    case (Inl e)
    with r show ?thesis by (auto simp: hopeless_def Let_def)
  next
    case (Inr out)
    with assms r have "utf8_valid (lo_response out)" unfolding answers_in_utf8_def by (metis snd_conv)
    from is_degenerate_summary_Ok [OF this] r Inr show ?thesis by (auto simp: Let_def)
  qed
qed


text \<open>The run that makes \<open>k\<close> attempts after attempt number \<open>a\<close>, of \<open>m\<close> that are allowed.\<close>

definition run_of :: "('w, 't) Host \<Rightarrow> 't list \<Rightarrow> CompactionPrompt \<Rightarrow> u64 \<Rightarrow> u64 \<Rightarrow> nat \<Rightarrow> nat \<Rightarrow> nat \<Rightarrow> 'w
    \<Rightarrow> 'w \<times> FullReplaceEvent list \<times> (SampleRetryError, SampledSummary) res" where
  "run_of h turns prompt delay timeout m a k w =
     (fst (h_sample h turns prompt timeout (world_before h turns prompt delay timeout w k)),
      map (\<lambda>i. On_attempt (of_nat (a + i)) (attempt_outcome (a + i < m) (reply_at h turns prompt delay timeout w i))) [0..<Suc k],
      final_result (of_nat (a + k)) (reply_at h turns prompt delay timeout w k))"

lemma map_upt_Suc: "map f [0..<Suc k] = f 0 # map (\<lambda>i. f (Suc i)) [0..<k]"
  by (simp add: upt_conv_Cons map_Suc_upt [symmetric] comp_def del: upt_Suc)

lemma run_of_Suc:
  assumes "h_sample h turns prompt timeout w = (w1, r)"
    and "run_of h turns prompt delay timeout m (Suc a) k (h_sleep h delay w1) = (w2, es, res)" and "a < m"
  shows "run_of h turns prompt delay timeout m a (Suc k) w = (w2, On_attempt (of_nat a) (attempt_outcome True r) # es, res)"
  using assms unfolding run_of_def reply_at_def map_upt_Suc [of _ "Suc k"]
  by (simp only: prod.inject) (simp add: ac_simps del: upt_Suc)

lemma sample_attempts_run:
  fixes m :: u32
  assumes "answers_in_utf8 h" and "1 \<le> a" and "a \<le> unat m"
  shows "\<exists>k. a + k \<le> unat m \<and> (\<forall>i < k. retryable (reply_at h turns prompt delay timeout w i))
      \<and> (retryable (reply_at h turns prompt delay timeout w k) \<longrightarrow> a + k = unat m)
      \<and> sample_attempts h turns prompt m delay timeout (map of_nat [a..<Suc (unat m)]) w
        = run_of h turns prompt delay timeout (unat m) a k w"
  using assms(2,3)
proof (induction "unat m - a" arbitrary: a w)
  case (0 a)
  then have a: "a = unat m" by simp
  then have list: "map of_nat [a..<Suc (unat m)] = [m]" by simp
  obtain w1 r where "h_sample h turns prompt timeout w = (w1, r)" by force
  then show ?case
    unfolding list sample_attempts_step [OF assms(1)] by (intro exI [of _ 0]) (simp add: a run_of_def reply_at_def)
next
  case (Suc d a)
  have list: "map of_nat [a..<Suc (unat m)] = (of_nat a :: u32) # map of_nat [Suc a..<Suc (unat m)]"
    using Suc.prems by (simp add: upt_conv_Cons del: upt_Suc)
  have less: "(of_nat a :: u32) < m" "a < unat m"
    using Suc.hyps(2) less_trans [OF _ unat_lt, of a m] by (simp_all add: word_less_nat_alt unat_of_nat take_bit_nat_eq_self)
  obtain w1 r where r: "h_sample h turns prompt timeout w = (w1, r)" by force
  show ?case
  proof (cases "retryable r")
    case True
    obtain k where k: "Suc a + k \<le> unat m" "\<forall>i < k. retryable (reply_at h turns prompt delay timeout (h_sleep h delay w1) i)"
      "retryable (reply_at h turns prompt delay timeout (h_sleep h delay w1) k) \<longrightarrow> Suc a + k = unat m"
      "sample_attempts h turns prompt m delay timeout (map of_nat [Suc a..<Suc (unat m)]) (h_sleep h delay w1)
        = run_of h turns prompt delay timeout (unat m) (Suc a) k (h_sleep h delay w1)"
    proof -
      have "d = unat m - Suc a" "1 \<le> Suc a" "Suc a \<le> unat m" using Suc.hyps(2) less(2) by simp_all
      from Suc.hyps(1) [OF this, of "h_sleep h delay w1"] that show thesis by blast
    qed
    have shift: "reply_at h turns prompt delay timeout w (Suc i) = reply_at h turns prompt delay timeout (h_sleep h delay w1) i" for i
      by (simp add: reply_at_def r)
    have "\<forall>i < Suc k. retryable (reply_at h turns prompt delay timeout w i)"
      using k(2) True r by (auto simp: less_Suc_eq_0_disj shift) (simp add: reply_at_def)
    with k True r less shift show ?thesis
      unfolding list sample_attempts_step [OF assms(1)]
      by (intro exI [of _ "Suc k"]) (auto simp: run_of_Suc [OF r _ less(2)] split: prod.splits)
  next
    case False
    with r less Suc.prems show ?thesis
      unfolding list sample_attempts_step [OF assms(1)] by (intro exI [of _ 0]) (simp add: run_of_def reply_at_def)
  qed
qed


lemma sample_summary_run:
  fixes m :: u32
  assumes "answers_in_utf8 h"
  obtains k where "k < unat (max m 1)" "\<forall>i < k. retryable (reply_at h turns prompt delay timeout w i)"
    "retryable (reply_at h turns prompt delay timeout w k) \<longrightarrow> Suc k = unat (max m 1)"
    "sample_summary_with_retries h turns prompt m delay timeout w = run_of h turns prompt delay timeout (unat (max m 1)) 1 k w"
proof -
  have "1 \<le> unat (max m 1)" by (simp add: max_def word_le_nat_alt)
  from sample_attempts_run [OF assms order_refl this, of turns prompt delay timeout w]
  obtain k where "1 + k \<le> unat (max m 1)" "\<forall>i < k. retryable (reply_at h turns prompt delay timeout w i)"
    "retryable (reply_at h turns prompt delay timeout w k) \<longrightarrow> 1 + k = unat (max m 1)"
    "sample_attempts h turns prompt (max m 1) delay timeout (map of_nat [1..<Suc (unat (max m 1))]) w
      = run_of h turns prompt delay timeout (unat (max m 1)) 1 k w" by blast
  with that [of k] show thesis by (simp add: sample_summary_with_retries_def del: upt_Suc)
qed

text \<open>
  C27: the sampling loop makes as many attempts as it needs and never more than it may (at least one). Every reply before
  the last was worth a retry; a last reply that is worth one was the last attempt allowed. Between two attempts it
  sleeps once, each attempt is reported once, in order, as what it was, and the result is what the last reply says: the
  first usable text, the first hopeless error, or the last failure.
\<close>

theorem retries_exact:
  assumes "answers_in_utf8 h"
  shows "\<exists>k. k < unat (max max_attempts 1)
      \<and> (\<forall>i < k. retryable (reply_at h turns prompt delay timeout w i))
      \<and> (retryable (reply_at h turns prompt delay timeout w k) \<longrightarrow> Suc k = unat (max max_attempts 1))
      \<and> sample_summary_with_retries h turns prompt max_attempts delay timeout w =
         (fst (h_sample h turns prompt timeout (world_before h turns prompt delay timeout w k)),
          map (\<lambda>i. On_attempt (of_nat (Suc i))
                 (attempt_outcome (Suc i < unat (max max_attempts 1)) (reply_at h turns prompt delay timeout w i))) [0..<Suc k],
          final_result (of_nat (Suc k)) (reply_at h turns prompt delay timeout w k))"
proof -
  obtain k where "k < unat (max max_attempts 1)" "\<forall>i < k. retryable (reply_at h turns prompt delay timeout w i)"
    "retryable (reply_at h turns prompt delay timeout w k) \<longrightarrow> Suc k = unat (max max_attempts 1)"
    "sample_summary_with_retries h turns prompt max_attempts delay timeout w
      = run_of h turns prompt delay timeout (unat (max max_attempts 1)) 1 k w"
    by (rule sample_summary_run [OF assms])
  then show ?thesis by (intro exI [of _ k] conjI) (simp_all only: run_of_def plus_1_eq_Suc)
qed

text \<open>An answer that is long enough.\<close>

definition long_answer :: string where
  "long_answer = replicate 600 (CHR ''x'')"

lemma long_answer_seed: "format_compact_summary long_answer = Ok long_answer" "char_count long_answer = 600"
  and long_answer_trim: "trim_str long_answer = long_answer"
proof -
  have x: "set long_answer = {CHR ''x''}" by (simp add: long_answer_def)
  then have chars: "chars_of long_answer = replicate 600 ''x''" by (subst chars_of_ascii) (auto simp: long_answer_def map_replicate_const)
  then show "char_count long_answer = 600" by (simp add: char_count_def)
  have "\<not> whitespace_at ''x''" by code_simp
  then have "trim_str long_answer = concat (replicate 600 ''x'')" unfolding trim_str_def chars
    by (simp add: dropWhile_replicate)
  also have "concat (replicate n ''x'') = replicate n (CHR ''x'')" for n by (induction n) auto
  finally show trim: "trim_str long_answer = long_answer" by (simp add: long_answer_def)
  have "\<not> contains long_answer (replicate 3 (CHR 0x0A))"
    using contains_hd [of long_answer "CHR 0x0A" "replicate 2 (CHR 0x0A)"] x by (auto simp: numeral_eq_Suc)
  with trim show "format_compact_summary long_answer = Ok long_answer" using format_plain_summary [of long_answer] x by simp
qed

text \<open>A scripted host: a timeout, then a blank answer, then a long one; the world counts the calls.\<close>

definition scripted_reply :: "nat \<Rightarrow> reply" where
  "scripted_reply n =
     (if n = 0 then Inl (Sample_Timeout 120 0)
      else Inr \<lparr>lo_response = (if n = 1 then [] else long_answer), lo_thinking = []\<rparr>)"

definition scripted_host :: "(nat, 't) Host" where
  "scripted_host = \<lparr>h_sample = \<lambda>turns prompt timeout n. (Suc n, scripted_reply n), h_sleep = \<lambda>secs n. n, h_now = \<lambda>n. n\<rparr>"

lemma scripted_host_utf8: "answers_in_utf8 scripted_host"
  by (auto simp: answers_in_utf8_def scripted_host_def scripted_reply_def long_answer_def intro!: utf8_valid_ascii split: if_splits)

theorem retries_exact_witness:
  "\<exists>k < 3. (\<forall>i < k. retryable (scripted_reply i)) \<and> (retryable (scripted_reply k) \<longrightarrow> k = 2)
     \<and> snd (snd (sample_summary_with_retries scripted_host [()] format_compaction_prompt 3 3 120 0))
       = final_result (of_nat (Suc k)) (scripted_reply k)"
proof -
  have "world_before scripted_host [()] format_compaction_prompt 3 120 n k = n + k" for n k
    by (induction k arbitrary: n) (simp_all add: scripted_host_def)
  then have "reply_at scripted_host [()] format_compaction_prompt 3 120 0 k = scripted_reply k" for k
    by (simp add: reply_at_def scripted_host_def)
  moreover have "unat (max (3 :: u32) 1) = 3" by code_simp
  ultimately show ?thesis
    using retries_exact [OF scripted_host_utf8, of 3 "[()]" format_compaction_prompt 3 120 0] by auto
qed


text \<open>
  The error for an empty run only says that the last attempt was empty: here the first attempt of two ran into the
  timeout.
\<close>

lemma empty_run_hides_timeout:
  "snd (snd (sample_summary_with_retries scripted_host turns prompt 2 delay timeout 0)) = Err (Retry_Empty 2)"
proof -
  have "max (2 :: u32) 1 = 2" "unat (2 :: u32) = 2" "[1..<Suc 2] = [1, 2]" "(1 :: u32) < 2" by code_simp+
  moreover have "is_blank []" by code_simp
  moreover have "\<not> is_context_length_error (sample_error_text (Sample_Timeout 120 0))" by code_simp
  ultimately show ?thesis
    by (simp add: sample_summary_with_retries_def scripted_host_def scripted_reply_def Let_def del: upt_Suc)
qed

end
