(* ===== verification/Compaction_Rebuild.thy ===== *)
theory Compaction_Rebuild
  imports Compaction_Sampling
begin

text \<open>
  The pass that replaces a whole conversation by its summary (\<open>code_compaction/compact.rs\<close>), the history it builds
  (\<open>code_compaction/assemble.rs\<close>) and the reminder about running work that survives it (\<open>reminder.rs\<close>).
\<close>

section \<open>The rebuilt history\<close>

text \<open>The constructors a harness gives for its items.\<close>

record 't CompactionItemFactory =
  new_user :: "string \<Rightarrow> 't"
  new_user_meta :: "string \<Rightarrow> 't"
  new_project_instructions :: "string \<Rightarrow> 't"
  new_system_reminder :: "string \<Rightarrow> 't"

record 't CompactedHistoryParts =
  hp_system_message :: 't
  hp_user_message_prefix :: string
  hp_agents_md_reminder :: "string option"
  hp_last_user_query :: "string option"
  hp_recent_messages :: "'t list"
  hp_compaction_summary :: string
  hp_system_reminder :: "string option"
  hp_transcript_hint :: "string option"

definition assemble_compacted_history :: "'t CompactionItemFactory \<Rightarrow> 't CompactedHistoryParts \<Rightarrow> ('e, 't list) res" where
  "assemble_compacted_history fac parts =
     (let compacted = [hp_system_message parts, new_user_meta fac (hp_user_message_prefix parts)];
          compacted = compacted @ (case hp_agents_md_reminder parts of
                        Some reminder \<Rightarrow> [new_project_instructions fac reminder] | None \<Rightarrow> []);
          compacted = compacted @ (case hp_last_user_query parts of
                        Some last_query \<Rightarrow> [new_user fac (wrap_user_query last_query)] | None \<Rightarrow> [])
      in case format_compact_summary_content (hp_compaction_summary parts) of
           Ok formatted_summary \<Rightarrow>
             let formatted_summary = formatted_summary @ (case hp_transcript_hint parts of Some hint \<Rightarrow> hint | None \<Rightarrow> []);
                 summary_item = new_user_meta fac formatted_summary;
                 compacted = compacted @ hp_recent_messages parts @ [summary_item]
             in Ok (compacted @ (case hp_system_reminder parts of
                      Some reminder \<Rightarrow> [new_system_reminder fac reminder] | None \<Rightarrow> []))
         | _ \<Rightarrow> Panic)"

section \<open>The pass\<close>

record FullReplaceConfig =
  fr_max_attempts :: u32
  fr_retry_delay_secs :: u64
  fr_sampling_timeout_secs :: u64

definition default_full_replace_config :: FullReplaceConfig where
  "default_full_replace_config = \<lparr>fr_max_attempts = 3, fr_retry_delay_secs = 3, fr_sampling_timeout_secs = 120\<rparr>"

record 't FullReplaceContext =
  fc_system_message :: 't
  fc_user_message_prefix :: string
  fc_agents_md_reminder :: "string option"
  fc_last_user_query :: "string option"
  fc_recent_messages :: "'t list"
  fc_system_reminder :: "string option"
  fc_transcript_hint :: "string option"

datatype FullReplaceError =
    Full_NothingToCompact
  | Full_EmptyResponse
  | Full_Sampler (full_message: string) (full_deterministic: bool) (full_overflow: bool)

fun full_replace_error_text :: "FullReplaceError \<Rightarrow> string" where
  "full_replace_error_text Full_NothingToCompact = ''nothing to compact''"
| "full_replace_error_text Full_EmptyResponse = ''compaction model returned an empty summary''"
| "full_replace_error_text (Full_Sampler message d c) = ''compaction sampling failed: '' @ message"

record 't FullReplaceOutput =
  fo_history :: "'t list"
  fo_summary :: string
  fo_attempts :: u32

record FullReplaceSummary =
  fs_summary :: string
  fs_attempts :: u32

definition sample_full_replace_summary :: "('w, 't) Host \<Rightarrow> 't list \<Rightarrow> string option \<Rightarrow> FullReplaceConfig \<Rightarrow> 'w
    \<Rightarrow> 'w \<times> FullReplaceEvent list \<times> (FullReplaceError, FullReplaceSummary) res" where
  "sample_full_replace_summary h llm_turns user_context config w =
     (if llm_turns = [] then (w, [], Err Full_NothingToCompact)
      else
        let prompt = \<lparr>cp_system = [], cp_user = build_summary_prompt user_context\<rparr>;
            timeout = fr_sampling_timeout_secs config;
            started = h_now h w
        in case sample_summary_with_retries h llm_turns prompt (fr_max_attempts config) (fr_retry_delay_secs config) timeout w of
             (w1, es, Ok s) \<Rightarrow>
               (w1, es @ [On_success (ss_attempts s) (char_count (ss_summary s)) (h_now h w1 - started)],
                Ok \<lparr>fs_summary = ss_summary s, fs_attempts = ss_attempts s\<rparr>)
           | (w1, es, Err (Retry_Empty attempts)) \<Rightarrow> (w1, es @ [On_error attempts], Err Full_EmptyResponse)
           | (w1, es, Err (Retry_Failure message deterministic context_overflow attempts)) \<Rightarrow>
               (w1, es @ [On_error attempts], Err (Full_Sampler message deterministic context_overflow))
           | (w1, es, Panic) \<Rightarrow> (w1, es, Panic))"

definition apply_full_replace_compaction :: "'t CompactionItemFactory \<Rightarrow> ('w, 't) Host \<Rightarrow> 't list \<Rightarrow> string option
    \<Rightarrow> 't FullReplaceContext \<Rightarrow> FullReplaceConfig \<Rightarrow> 'w
    \<Rightarrow> 'w \<times> FullReplaceEvent list \<times> (FullReplaceError, 't FullReplaceOutput) res" where
  "apply_full_replace_compaction fac h llm_turns user_context ctx config w =
     (case sample_full_replace_summary h llm_turns user_context config w of
        (w1, es, r) \<Rightarrow> (w1, es, try_res r (\<lambda>s.
          let parts = \<lparr>hp_system_message = fc_system_message ctx,
                hp_user_message_prefix = fc_user_message_prefix ctx,
                hp_agents_md_reminder = fc_agents_md_reminder ctx,
                hp_last_user_query = fc_last_user_query ctx,
                hp_recent_messages = fc_recent_messages ctx,
                hp_compaction_summary = fs_summary s,
                hp_system_reminder = fc_system_reminder ctx,
                hp_transcript_hint = fc_transcript_hint ctx\<rparr>
          in try_res (assemble_compacted_history fac parts) (\<lambda>history.
               Ok \<lparr>fo_history = history, fo_summary = fs_summary s, fo_attempts = fs_attempts s\<rparr>))))"

section \<open>The reminder\<close>

record SubagentToolNames =
  tn_poll :: string
  tn_cancel :: string

datatype TodoStatus = Pending | InProgress | Completed | Cancelled

fun is_actionable :: "TodoStatus \<Rightarrow> bool" where
  "is_actionable Pending = True"
| "is_actionable InProgress = True"
| "is_actionable _ = False"

fun todo_tag :: "TodoStatus \<Rightarrow> string" where
  "todo_tag Pending = ''[pending]''"
| "todo_tag InProgress = ''[in_progress]''"
| "todo_tag Completed = ''[completed]''"
| "todo_tag Cancelled = ''[cancelled]''"

record TodoItem =
  ti_id :: string
  ti_content :: string
  ti_status :: TodoStatus

record BackgroundTask =
  bt_task_id :: string
  bt_command :: string
  bt_status :: string
  bt_tool_name :: "string option"

record RunningSubagent =
  rs_subagent_id :: string
  rs_subagent_type :: "string option"
  rs_description :: "string option"
  rs_elapsed_secs :: u64

record ActiveAgentReminderState =
  as_running_commands :: "BackgroundTask list"
  as_todos :: "TodoItem list"
  as_running_subagents :: "RunningSubagent list"

definition has_actionable_todos :: "ActiveAgentReminderState \<Rightarrow> bool" where
  "has_actionable_todos st \<longleftrightarrow> list_ex (\<lambda>t. is_actionable (ti_status t)) (as_todos st)"

definition reminder_state_is_empty :: "ActiveAgentReminderState \<Rightarrow> bool" where
  "reminder_state_is_empty st \<longleftrightarrow>
     as_running_commands st = [] \<and> as_running_subagents st = [] \<and> \<not> has_actionable_todos st"

definition background_task_line :: "BackgroundTask \<Rightarrow> string" where
  "background_task_line t =
     (case bt_tool_name t of
        Some tool \<Rightarrow> ''- '' @ [CHR 0x22] @ bt_task_id t @ [CHR 0x22] @ '': '' @ [CHR 0x60] @ bt_command t @ [CHR 0x60]
                     @ '' ('' @ bt_status t @ '', '' @ tool @ '')''
      | None \<Rightarrow> ''- '' @ [CHR 0x22] @ bt_task_id t @ [CHR 0x22] @ '': '' @ [CHR 0x60] @ bt_command t @ [CHR 0x60]
                @ '' ('' @ bt_status t @ '')'')"

definition section_background_tasks :: "BackgroundTask list \<Rightarrow> string option" where
  "section_background_tasks tasks =
     (if tasks = [] then None
      else Some (''## Running Background Tasks'' @ [CHR 0x0A] @ ''These tasks are still running:'' @ [CHR 0x0A]
                 @ join_with [CHR 0x0A] (map background_task_line tasks)))"

definition todo_trailer :: "nat \<Rightarrow> nat \<Rightarrow> string" where
  "todo_trailer completed cancelled =
     (if completed = 0 \<and> cancelled = 0 then []
      else if cancelled = 0 then [CHR 0x0A] @ ''('' @ dec_string completed @ '' completed)''
      else if completed = 0 then [CHR 0x0A] @ ''('' @ dec_string cancelled @ '' cancelled)''
      else [CHR 0x0A] @ ''('' @ dec_string completed @ '' completed, '' @ dec_string cancelled @ '' cancelled)'')"

definition todo_line :: "TodoItem \<Rightarrow> string" where
  "todo_line t = ''- '' @ todo_tag (ti_status t) @ '' '' @ ti_id t @ '': '' @ ti_content t"

definition section_todo_list :: "TodoItem list \<Rightarrow> string option" where
  "section_todo_list todos =
     (let active = map todo_line (filter (\<lambda>t. is_actionable (ti_status t)) todos)
      in if active = [] then None
         else
           let completed = length (filter (\<lambda>t. ti_status t = Completed) todos);
               cancelled = length (filter (\<lambda>t. ti_status t = Cancelled) todos)
           in Some (''## TODO List'' @ [CHR 0x0A]
                @ ''This is your task list from before the conversation was compacted '' @ [CHR 0xE2, CHR 0x80, CHR 0x94]
                @ '' it is still active. Keep working through the items below and update their status as you make progress:''
                @ [CHR 0x0A] @ join_with [CHR 0x0A] active @ todo_trailer completed cancelled))"

definition format_subagent_line :: "RunningSubagent \<Rightarrow> string" where
  "format_subagent_line s =
     (let head = ''subagent_id: '' @ [CHR 0x60] @ rs_subagent_id s @ [CHR 0x60];
          head = head @ (case rs_subagent_type s of Some ty \<Rightarrow> '', type: '' @ [CHR 0x60] @ ty @ [CHR 0x60] | None \<Rightarrow> []);
          head = head @ (case rs_description s of Some desc \<Rightarrow> '', task: '' @ [CHR 0x22] @ desc @ [CHR 0x22] | None \<Rightarrow> [])
      in ''- '' @ head @ '' (running for '' @ dec_string (unat (rs_elapsed_secs s)) @ ''s)'')"

definition section_running_subagents :: "RunningSubagent list \<Rightarrow> SubagentToolNames \<Rightarrow> string option" where
  "section_running_subagents subagents tools =
     (if subagents = [] then None
      else Some (''## Running Subagents'' @ [CHR 0x0A]
                 @ ''These subagents were launched before this compaction and are still running. Use '' @ [CHR 0x60] @ tn_poll tools
                 @ [CHR 0x60] @ '' with the subagent_id to check their status or retrieve results. Use '' @ [CHR 0x60]
                 @ tn_cancel tools @ [CHR 0x60] @ '' with the subagent_id to cancel a subagent.'' @ [CHR 0x0A]
                 @ join_with [CHR 0x0A] (map format_subagent_line subagents)))"

definition format_active_agent_sections :: "ActiveAgentReminderState \<Rightarrow> SubagentToolNames option \<Rightarrow> string list" where
  "format_active_agent_sections st subagent_tools =
     (let push = (\<lambda>s sections. case s of Some t \<Rightarrow> sections @ [t] | None \<Rightarrow> sections);
          sections = push (section_background_tasks (as_running_commands st)) [];
          sections = push (section_todo_list (as_todos st)) sections
      in case subagent_tools of
           Some tools \<Rightarrow> push (section_running_subagents (as_running_subagents st) tools) sections
         | None \<Rightarrow> sections)"

fun reminder_body :: "string list \<Rightarrow> string \<Rightarrow> string" where
  "reminder_body [] body = body"
| "reminder_body (s # ss) body =
     (if is_blank s then reminder_body ss body
      else reminder_body ss ((if body \<noteq> [] then body @ [CHR 0x0A, CHR 0x0A] else body) @ s))"

definition wrap_system_reminder :: "string list \<Rightarrow> string option" where
  "wrap_system_reminder sections =
     (let body = reminder_body sections []
      in if body = [] then None
         else Some (''<system-reminder>'' @ [CHR 0x0A] @ body @ [CHR 0x0A] @ ''</system-reminder>''))"

definition format_active_agent_reminder :: "ActiveAgentReminderState \<Rightarrow> SubagentToolNames option \<Rightarrow> string option" where
  "format_active_agent_reminder st subagent_tools = wrap_system_reminder (format_active_agent_sections st subagent_tools)"

definition append_reminder_block :: "string \<Rightarrow> string option \<Rightarrow> string" where
  "append_reminder_block summary reminder =
     (case reminder of
        Some reminder \<Rightarrow> if \<not> is_blank reminder then summary @ [CHR 0x0A, CHR 0x0A] @ reminder else summary
      | None \<Rightarrow> summary)"


section \<open>What the pass installs\<close>

lemma final_result_Ok:
  "final_result n r = Ok s \<longleftrightarrow> (\<exists>output. r = Inr output \<and> \<not> retryable r \<and> s = \<lparr>ss_summary = lo_response output, ss_attempts = n\<rparr>)"
  by (cases r) auto

lemma final_result_no_Panic: "final_result n r \<noteq> Panic"
  by (cases r) auto

lemma usable_seed:
  assumes "utf8_valid s" and "\<not> too_short s"
  obtains seed where "format_compact_summary s = Ok seed" "utf8_valid seed" "defused seed" "MIN_SUMMARY_SEED_CHARS \<le> char_count seed"
proof -
  obtain t where t: "format_compact_summary s = Ok t" "utf8_valid t" "defused t" using format_compact_summary_clean [OF assms(1)] by blast
  with assms(2) have "MIN_SUMMARY_SEED_CHARS \<le> char_count t" by (auto simp: too_short_def is_degenerate_summary_def)
  with t that show thesis by blast
qed

lemma sample_summary_Ok:
  assumes "answers_in_utf8 h" and "sample_summary_with_retries h turns prompt m delay timeout w = (w1, es, r)"
  shows "r \<noteq> Panic" and "r = Ok s \<Longrightarrow> utf8_valid (ss_summary s) \<and> \<not> too_short (ss_summary s) \<and> \<not> is_blank (ss_summary s)
      \<and> 1 \<le> ss_attempts s \<and> ss_attempts s \<le> max m 1"
proof -
  obtain k where k: "k < unat (max m 1)" and
    "sample_summary_with_retries h turns prompt m delay timeout w = run_of h turns prompt delay timeout (unat (max m 1)) 1 k w"
    by (rule sample_summary_run [OF assms(1)])
  with assms(2) have r: "r = final_result (of_nat (Suc k)) (reply_at h turns prompt delay timeout w k)" by (simp add: run_of_def)
  then show "r \<noteq> Panic" using final_result_no_Panic by metis
  assume "r = Ok s"
  with r obtain out where out: "reply_at h turns prompt delay timeout w k = Inr out" "\<not> retryable (Inr out)"
    "s = \<lparr>ss_summary = lo_response out, ss_attempts = of_nat (Suc k)\<rparr>" using final_result_Ok by metis
  moreover have "utf8_valid (lo_response out)" using assms(1) out(1) unfolding answers_in_utf8_def reply_at_def by blast
  moreover have "unat (of_nat (Suc k) :: u32) = Suc k"
    using k less_le_trans [OF k unat_lt [THEN less_imp_le]] unat_lt [of "max m 1"] by (simp add: unat_of_nat take_bit_nat_eq_self del: of_nat_Suc)
  ultimately show "utf8_valid (ss_summary s) \<and> \<not> too_short (ss_summary s) \<and> \<not> is_blank (ss_summary s)
      \<and> 1 \<le> ss_attempts s \<and> ss_attempts s \<le> max m 1"
    using k by (auto simp: word_le_nat_alt)
qed


text \<open>The items of an optional part.\<close>

definition opt_item :: "(string \<Rightarrow> 't) \<Rightarrow> string option \<Rightarrow> 't list" where
  "opt_item f x = (case x of Some s \<Rightarrow> [f s] | None \<Rightarrow> [])"

lemma assemble_seed:
  "format_compact_summary (hp_compaction_summary parts) = Ok seed \<Longrightarrow> assemble_compacted_history fac parts =
     Ok ([hp_system_message parts, new_user_meta fac (hp_user_message_prefix parts)]
         @ opt_item (new_project_instructions fac) (hp_agents_md_reminder parts)
         @ opt_item (new_user fac \<circ> wrap_user_query) (hp_last_user_query parts)
         @ hp_recent_messages parts
         @ [new_user_meta fac (CONTINUATION_PREAMBLE @ seed @ concat (opt_item id (hp_transcript_hint parts)))]
         @ opt_item (new_system_reminder fac) (hp_system_reminder parts))"
  by (simp add: assemble_compacted_history_def format_compact_summary_content_def opt_item_def split: option.splits)

text \<open>
  C13: replacing a conversation by its summary never panics, and a history it returns is rebuilt from what it was given:
  the system message, the prefix, the project instructions and the last query first, then the recent messages as they
  were, then one message with the summary, then the reminder. The summary in it is the cleaned answer of the model: no
  tag that steers a compaction is left in it, it has at least the length a summary must have, and it took no more
  attempts than allowed.
\<close>

theorem full_replace_installs_clean_summary:
  assumes "answers_in_utf8 h" and "apply_full_replace_compaction fac h llm_turns user_context ctx config w = (w1, es, r)"
  shows "r \<noteq> Panic \<and> (\<forall>output. r = Ok output \<longrightarrow> llm_turns \<noteq> [] \<and>
     (\<exists>seed. format_compact_summary (fo_summary output) = Ok seed \<and> defused seed \<and> MIN_SUMMARY_SEED_CHARS \<le> char_count seed
       \<and> fo_history output =
           [fc_system_message ctx, new_user_meta fac (fc_user_message_prefix ctx)]
           @ opt_item (new_project_instructions fac) (fc_agents_md_reminder ctx)
           @ opt_item (new_user fac \<circ> wrap_user_query) (fc_last_user_query ctx)
           @ fc_recent_messages ctx
           @ [new_user_meta fac (CONTINUATION_PREAMBLE @ seed @ concat (opt_item id (fc_transcript_hint ctx)))]
           @ opt_item (new_system_reminder fac) (fc_system_reminder ctx))
     \<and> 1 \<le> fo_attempts output \<and> fo_attempts output \<le> max (fr_max_attempts config) 1)"
proof (cases "llm_turns = []")
  case True
  with assms(2) show ?thesis by (auto simp: apply_full_replace_compaction_def sample_full_replace_summary_def)
next
  case False
  let ?prompt = "\<lparr>cp_system = [], cp_user = build_summary_prompt user_context\<rparr>"
  obtain w2 es2 q where q: "sample_summary_with_retries h llm_turns ?prompt (fr_max_attempts config)
      (fr_retry_delay_secs config) (fr_sampling_timeout_secs config) w = (w2, es2, q)" by (metis surj_pair)
  note sample = sample_summary_Ok [OF assms(1) q]
  note pass = apply_full_replace_compaction_def sample_full_replace_summary_def Let_def
  show ?thesis
  proof (cases q)
    case (Ok s)
    from sample(2) [OF this] obtain seed where seed: "format_compact_summary (ss_summary s) = Ok seed" "defused seed"
      "MIN_SUMMARY_SEED_CHARS \<le> char_count seed" using usable_seed by blast
    with assms(2) sample(2) [OF Ok] False show ?thesis by (auto simp: pass q Ok assemble_seed)
  next
    case (Err e)
    with assms(2) False show ?thesis by (cases e) (auto simp: pass q)
  qed (use sample(1) in simp)
qed



text \<open>A run on the scripted host: the third attempt is the one that is kept.\<close>

lemma scripted_run:
  "\<exists>es. sample_summary_with_retries scripted_host turns prompt 3 delay timeout 0 = (3, es, Ok \<lparr>ss_summary = long_answer, ss_attempts = 3\<rparr>)"
proof -
  have "max (3 :: u32) 1 = 3" "unat (3 :: u32) = 3" "[1..<Suc 3] = [1, 2, 3]" "(1 :: u32) < 3" "(2 :: u32) < 3" by code_simp+
  moreover have "is_blank []" by code_simp
  moreover have "\<not> is_context_length_error (sample_error_text (Sample_Timeout 120 0))" by code_simp
  moreover have "\<not> is_blank long_answer" using long_answer_trim by (simp add: is_blank_def) (simp add: long_answer_def)
  moreover have "is_degenerate_summary long_answer = Ok False"
    by (simp add: is_degenerate_summary_def long_answer_seed MIN_SUMMARY_SEED_CHARS_def)
  ultimately show ?thesis
    by (simp add: sample_summary_with_retries_def scripted_host_def scripted_reply_def Let_def del: upt_Suc)
qed

definition mock_factory :: "string CompactionItemFactory" where
  "mock_factory = \<lparr>new_user = id, new_user_meta = id, new_project_instructions = id, new_system_reminder = id\<rparr>"

definition mock_context :: "string FullReplaceContext" where
  "mock_context = \<lparr>fc_system_message = ''system'', fc_user_message_prefix = ''info'', fc_agents_md_reminder = None,
     fc_last_user_query = Some ''fix it'', fc_recent_messages = [''tool result''], fc_system_reminder = None,
     fc_transcript_hint = None\<rparr>"

theorem full_replace_installs_clean_summary_witness:
  "\<exists>w1 es output. apply_full_replace_compaction mock_factory scripted_host [''turn''] None mock_context default_full_replace_config 0
       = (w1, es, Ok output)
     \<and> fo_history output = [''system'', ''info'', wrap_user_query ''fix it'', ''tool result'', CONTINUATION_PREAMBLE @ long_answer]"
proof -
  let ?run = "apply_full_replace_compaction mock_factory scripted_host [''turn''] None mock_context default_full_replace_config 0"
  obtain es out where run: "?run = (3, es, Ok out)" "fo_summary out = long_answer"
    using scripted_run [of "[''turn'']" "\<lparr>cp_system = [], cp_user = build_summary_prompt None\<rparr>" 3 120]
    by (auto simp: apply_full_replace_compaction_def sample_full_replace_summary_def default_full_replace_config_def
        assemble_seed long_answer_seed Let_def)
  with full_replace_installs_clean_summary [OF scripted_host_utf8 run(1)] show ?thesis
    by (auto simp: long_answer_seed mock_factory_def mock_context_def opt_item_def)
qed


section \<open>What the reminder names\<close>

lemma section_not_blank: "\<not> is_blank (''## '' @ t)"
proof -
  have "\<not> whitespace_at ''#''" by code_simp
  then show ?thesis using not_blank [of "CHR ''#''"] by simp
qed

lemma sections_not_blank:
  "section_background_tasks tasks = Some s \<Longrightarrow> \<not> is_blank s"
  "section_todo_list todos = Some s \<Longrightarrow> \<not> is_blank s"
  "section_running_subagents subs tools = Some s \<Longrightarrow> \<not> is_blank s"
  using section_not_blank
  by (auto simp: section_background_tasks_def section_todo_list_def section_running_subagents_def Let_def split: if_splits)

lemma sections_None:
  "section_background_tasks tasks = None \<longleftrightarrow> tasks = []"
  "section_todo_list todos = None \<longleftrightarrow> \<not> list_ex (\<lambda>t. is_actionable (ti_status t)) todos"
  "section_running_subagents subs tools = None \<longleftrightarrow> subs = []"
  by (auto simp: section_background_tasks_def section_todo_list_def section_running_subagents_def Let_def list_ex_iff filter_empty_conv)

lemma section_lines:
  "section_background_tasks tasks = Some s \<Longrightarrow> t \<in> set tasks \<Longrightarrow> contains s (background_task_line t)"
  "section_todo_list todos = Some s \<Longrightarrow> todo \<in> set todos \<Longrightarrow> is_actionable (ti_status todo) \<Longrightarrow> contains s (todo_line todo)"
  "section_running_subagents subs tools = Some s \<Longrightarrow> sub \<in> set subs \<Longrightarrow> contains s (format_subagent_line sub)"
proof -
  have tail: "contains (a @ b @ c @ d @ t) p" if "contains t p" for a b c d t p :: string
    using that by (intro contains_left)
  show "contains s (background_task_line t)" if "section_background_tasks tasks = Some s" "t \<in> set tasks"
  proof -
    have "contains (join_with [CHR 0x0A] (map background_task_line tasks)) (background_task_line t)"
      using that(2) by (intro contains_join) simp
    with tail that(1) show ?thesis unfolding section_background_tasks_def by (metis option.distinct(1) option.inject)
  qed
  show "contains s (todo_line todo)" if "section_todo_list todos = Some s" "todo \<in> set todos" "is_actionable (ti_status todo)"
  proof -
    have "contains (join_with [CHR 0x0A] (map todo_line (filter (\<lambda>t. is_actionable (ti_status t)) todos)) @ v) (todo_line todo)" for v
      using that(2,3) by (intro contains_right contains_join) simp
    with tail that(1) show ?thesis unfolding section_todo_list_def Let_def
      by (metis contains_left option.distinct(1) option.inject)
  qed
  show "contains s (format_subagent_line sub)" if "section_running_subagents subs tools = Some s" "sub \<in> set subs"
  proof -
    have "contains (join_with [CHR 0x0A] (map format_subagent_line subs)) (format_subagent_line sub)"
      using that(2) by (intro contains_join) simp
    with tail that(1) show ?thesis unfolding section_running_subagents_def
      by (metis option.distinct(1) option.inject)
  qed
qed


lemma reminder_body_front: "\<exists>u. reminder_body ss body = body @ u"
proof (induction ss body rule: reminder_body.induct)
  case (2 s ss body)
  then show ?case by (cases "is_blank s") (auto simp del: append_assoc simp: append_assoc [symmetric], auto)
qed simp

lemma reminder_body_section: "s \<in> set ss \<Longrightarrow> \<not> is_blank s \<Longrightarrow> contains (reminder_body ss body) s"
proof (induction ss body rule: reminder_body.induct)
  case (2 t ss body)
  let ?body = "if body \<noteq> [] then body @ [CHR 0x0A, CHR 0x0A] else body"
  show ?case
  proof (cases "s = t")
    case True
    obtain u where "reminder_body ss (?body @ s) = (?body @ s) @ u" using reminder_body_front by blast
    then have "reminder_body ss (?body @ s) = ?body @ s @ u" by (simp only: append_assoc)
    then have "contains (reminder_body ss (?body @ s)) s" using contains_appendI [OF contains_self] by metis
    with True 2(4) show ?thesis by (simp only: reminder_body.simps if_False)
  next
    case False
    with 2 show ?thesis by (cases "is_blank t") (simp_all only: reminder_body.simps if_True if_False, auto)
  qed
qed simp

lemma reminder_body_blank: "\<forall>s \<in> set ss. is_blank s \<Longrightarrow> reminder_body ss body = body"
  by (induction ss) auto

lemma wrap_None: "wrap_system_reminder ss = None \<longleftrightarrow> (\<forall>s \<in> set ss. is_blank s)"
proof
  assume none: "wrap_system_reminder ss = None"
  show "\<forall>s \<in> set ss. is_blank s"
  proof (intro ballI, rule ccontr)
    fix s
    assume s: "s \<in> set ss" "\<not> is_blank s"
    from none have "reminder_body ss [] = []" by (simp add: wrap_system_reminder_def Let_def split: if_splits)
    with reminder_body_section [OF s, of "[]"] have "s = []" by (simp add: contains_split)
    with s(2) blank_empty show False by simp
  qed
qed (simp add: wrap_system_reminder_def reminder_body_blank)

lemma wrap_section: "wrap_system_reminder ss = Some r \<Longrightarrow> s \<in> set ss \<Longrightarrow> \<not> is_blank s \<Longrightarrow> contains r s"
proof -
  assume "wrap_system_reminder ss = Some r" and s: "s \<in> set ss" "\<not> is_blank s"
  then have "r = (''<system-reminder>'' @ [CHR 0x0A]) @ reminder_body ss [] @ ([CHR 0x0A] @ ''</system-reminder>'')"
    unfolding wrap_system_reminder_def Let_def by (auto split: if_splits)
  with reminder_body_section [OF s, of "[]"] show ?thesis by (simp only: contains_appendI)
qed

lemma set_sections:
  "set (format_active_agent_sections st (Some tools)) =
     set_option (section_background_tasks (as_running_commands st)) \<union> set_option (section_todo_list (as_todos st))
     \<union> set_option (section_running_subagents (as_running_subagents st) tools)"
  by (auto simp: format_active_agent_sections_def Let_def split: option.splits)

lemma reminder_section:
  assumes "format_active_agent_reminder st (Some tools) = Some r"
    and "section_background_tasks (as_running_commands st) = Some s \<or> section_todo_list (as_todos st) = Some s
      \<or> section_running_subagents (as_running_subagents st) tools = Some s"
  shows "contains r s"
  using assms sections_not_blank unfolding format_active_agent_reminder_def
  by (intro wrap_section [OF assms(1) [unfolded format_active_agent_reminder_def]]) (auto simp: set_sections)



end
