(* ===== verification/Compaction_Select.thy ===== *)
theory Compaction_Select
  imports Rust_Int
begin

text \<open>
  Choosing what to compact (\<open>select.rs\<close> and \<open>item.rs\<close> of the compaction crate).
  The conversation items are the type of the host application: they are reached through the methods of the trait
  \<open>CompactionItem\<close>, a record of functions here. The theorems say that the kept tail is the longest within the budget,
  moved past the tool results it would begin with, so that no tool result is separated from its request.
\<close>

section \<open>Conversation items\<close>

datatype CompactionRole = System | Developer | User | Assistant | Tool

record CompactionFileRef =
  fr_id :: string
  fr_name :: string

record 't CompactionItem =
  ci_role :: "'t \<Rightarrow> CompactionRole"
  ci_text :: "'t \<Rightarrow> string option"
  ci_has_tool_requests :: "'t \<Rightarrow> bool"
  ci_is_compaction_summary :: "'t \<Rightarrow> bool"
  ci_attachment_refs :: "'t \<Rightarrow> CompactionFileRef list"

definition is_tool_result :: "('t, 'm) CompactionItem_scheme \<Rightarrow> 't \<Rightarrow> bool" where
  "is_tool_result ci t \<longleftrightarrow> ci_role ci t = Tool"

section \<open>Selection\<close>

record SplitPlan =
  sp_split_idx :: nat
  sp_tokens_to_compact :: u32

text \<open>The walk from the newest item down; \<open>i\<close> items are still to be looked at.\<close>

fun walk_back :: "u32 list \<Rightarrow> u32 \<Rightarrow> nat \<Rightarrow> u32 \<Rightarrow> nat \<Rightarrow> (unit, nat) res" where
  "walk_back counts target_tokens 0 kept split_idx = Ok split_idx"
| "walk_back counts target_tokens (Suc i) kept split_idx =
     try_res (index counts i) (\<lambda>count.
       if saturating_add kept count > target_tokens then Ok (i + 1)
       else walk_back counts target_tokens i (saturating_add kept count) i)"

fun skip_tool_results :: "('t, 'm) CompactionItem_scheme \<Rightarrow> 't list \<Rightarrow> nat" where
  "skip_tool_results ci [] = 0"
| "skip_tool_results ci (t # ts) = (if is_tool_result ci t then Suc (skip_tool_results ci ts) else 0)"

definition snap_to_safe_boundary :: "('t, 'm) CompactionItem_scheme \<Rightarrow> 't list \<Rightarrow> nat \<Rightarrow> nat" where
  "snap_to_safe_boundary ci items candidate =
     (if candidate \<ge> length items then length items
      else if \<not> is_tool_result ci (items ! candidate) then candidate
      else candidate + skip_tool_results ci (drop candidate items))"

text \<open>The lengths are compared by a debug assertion.\<close>

definition select_turns_to_compact ::
  "('t, 'm) CompactionItem_scheme \<Rightarrow> u32 list \<Rightarrow> 't list \<Rightarrow> u32 \<Rightarrow> u32 \<Rightarrow> (unit, SplitPlan option) res" where
  "select_turns_to_compact ci item_token_counts items target_tokens min_compactable =
     (if length item_token_counts \<noteq> length items then Panic
      else if length items = 0 then Ok None
      else try_res (walk_back item_token_counts target_tokens (length items) 0 (length items)) (\<lambda>split_idx.
        if split_idx = 0 then Ok None
        else
          let safe_split_idx = snap_to_safe_boundary ci items split_idx in
          if safe_split_idx \<ge> length items then Ok None
          else try_res (slice item_token_counts 0 safe_split_idx) (\<lambda>compacted.
            let tokens_to_compact = fold (\<lambda>count acc. saturating_add acc count) compacted 0 in
            if tokens_to_compact < min_compactable then Ok None
            else Ok (Some \<lparr>sp_split_idx = safe_split_idx, sp_tokens_to_compact = tokens_to_compact\<rparr>))))"

section \<open>The walk finds the longest tail within the budget\<close>

definition tail_tokens :: "u32 list \<Rightarrow> nat \<Rightarrow> nat" where
  "tail_tokens counts i = sum_list (map unat (drop i counts))"

text \<open>A target of \<open>u32::MAX\<close> is no limit, because the sum saturates there.\<close>

definition in_target :: "u32 \<Rightarrow> nat \<Rightarrow> bool" where
  "in_target target n \<longleftrightarrow> n \<le> unat target \<or> target = - 1"

definition saturated :: "nat \<Rightarrow> u32" where
  "saturated n = (if n < 2 ^ 32 then of_nat n else - 1)"

lemma unat_saturated: "unat (saturated n) = min n (2 ^ 32 - 1)"
  by (auto simp: saturated_def unat_of_nat unsigned_minus_1_eq_mask mask_eq_exp_minus_1)

lemma saturating_add_saturated: "saturating_add (saturated n) w = saturated (n + unat w)"
  by (rule iffD2 [OF word_unat_eq_iff]) (simp add: unat_saturating_add unat_saturated min_def)

lemma saturated_le: "saturated n \<le> target \<longleftrightarrow> in_target target n"
proof -
  have "target = - 1 \<longleftrightarrow> unat target = 2 ^ 32 - 1"
    by (simp add: word_unat_eq_iff unsigned_minus_1_eq_mask mask_eq_exp_minus_1)
  moreover have "unat target < 2 ^ 32" using unat_lt [of target] by simp
  ultimately show ?thesis by (auto simp: in_target_def word_le_nat_alt unat_saturated)
qed

lemma saturated_less: "target < saturated n \<longleftrightarrow> \<not> in_target target n"
  by (simp add: saturated_le [symmetric] not_le)

lemma fold_saturated: "fold (\<lambda>count acc. saturating_add acc count) xs (saturated n) = saturated (n + sum_list (map unat xs))"
  by (induction xs arbitrary: n) (simp_all add: saturating_add_saturated add.assoc)

lemma tail_tokens_step: "i < length counts \<Longrightarrow> tail_tokens counts i = unat (counts ! i) + tail_tokens counts (Suc i)"
  by (simp add: tail_tokens_def Cons_nth_drop_Suc [symmetric])

lemma tail_tokens_anti: "i \<le> j \<Longrightarrow> tail_tokens counts j \<le> tail_tokens counts i"
proof -
  assume "i \<le> j"
  then have "drop i counts = take (j - i) (drop i counts) @ drop j counts" by (metis append_take_drop_id drop_drop le_add_diff_inverse2)
  then show ?thesis unfolding tail_tokens_def by (metis le_add2 map_append sum_list_append)
qed

lemma walk_back_least:
  assumes "i \<le> length counts" and "in_target target (tail_tokens counts i)"
  shows "\<exists>j \<le> i. walk_back counts target i (saturated (tail_tokens counts i)) i = Ok j
    \<and> in_target target (tail_tokens counts j) \<and> (\<forall>k < j. \<not> in_target target (tail_tokens counts k))"
  using assms
proof (induction i)
  case (Suc i)
  from Suc.prems(1) have i: "(index counts i :: (unit, u32) res) = Ok (counts ! i)" "i < length counts" by (simp_all add: index_def)
  have kept: "saturating_add (saturated (tail_tokens counts (Suc i))) (counts ! i) = saturated (tail_tokens counts i)"
    using i(2) by (simp add: saturating_add_saturated tail_tokens_step add.commute)
  show ?case
  proof (cases "in_target target (tail_tokens counts i)")
    case True
    with Suc.IH i kept obtain j where "j \<le> i" "walk_back counts target i (saturated (tail_tokens counts i)) i = Ok j"
        "in_target target (tail_tokens counts j)" "\<forall>k < j. \<not> in_target target (tail_tokens counts k)" by auto
    with True i kept show ?thesis by (intro exI [of _ j]) (simp add: saturated_less)
  next
    case False
    then have "\<not> in_target target (tail_tokens counts k)" if "k < Suc i" for k
      using that tail_tokens_anti [of k i counts] by (auto simp: in_target_def)
    with False Suc.prems(2) i kept show ?thesis
      by (intro exI [of _ "Suc i"]) (auto simp: saturated_less)
  qed
qed (simp add: saturated_def)

section \<open>The boundary\<close>

lemma skip_tool_results_le: "skip_tool_results ci ts \<le> length ts"
  by (induction ts) auto

lemma skip_tool_results_skipped: "k < skip_tool_results ci ts \<Longrightarrow> is_tool_result ci (ts ! k)"
proof (induction ts arbitrary: k)
  case (Cons t ts)
  then show ?case by (cases k) (auto split: if_splits)
qed simp

lemma skip_tool_results_stops: "skip_tool_results ci ts < length ts \<Longrightarrow> \<not> is_tool_result ci (ts ! skip_tool_results ci ts)"
  by (induction ts) auto

lemma snap_boundary:
  assumes "candidate < length items"
  shows "candidate \<le> snap_to_safe_boundary ci items candidate"
    and "snap_to_safe_boundary ci items candidate \<le> length items"
    and "snap_to_safe_boundary ci items candidate < length items \<Longrightarrow> \<not> is_tool_result ci (items ! snap_to_safe_boundary ci items candidate)"
    and "candidate \<le> k \<Longrightarrow> k < snap_to_safe_boundary ci items candidate \<Longrightarrow> is_tool_result ci (items ! k)"
  using assms skip_tool_results_le [of ci "drop candidate items"] skip_tool_results_stops [of ci "drop candidate items"]
    skip_tool_results_skipped [of "k - candidate" ci "drop candidate items"]
  by (auto simp: snap_to_safe_boundary_def split: if_splits)

text \<open>
  A conversation whose tool results follow the assistant item that asked for them, directly or after other results.
\<close>

definition paired :: "('t, 'm) CompactionItem_scheme \<Rightarrow> 't list \<Rightarrow> bool" where
  "paired ci items \<longleftrightarrow> (\<forall>k < length items. is_tool_result ci (items ! k) \<longrightarrow>
     0 < k \<and> (is_tool_result ci (items ! (k - 1)) \<or> ci_has_tool_requests ci (items ! (k - 1))))"

lemma paired_take: "paired ci items \<Longrightarrow> paired ci (take n items)"
  by (auto simp: paired_def)

lemma paired_drop:
  assumes "paired ci items" and "n < length items \<Longrightarrow> \<not> is_tool_result ci (items ! n)"
  shows "paired ci (drop n items)"
  unfolding paired_def
proof (intro allI impI)
  fix k assume k: "k < length (drop n items)" "is_tool_result ci (drop n items ! k)"
  with assms(2) have "0 < k" by (cases k) auto
  moreover have "is_tool_result ci (items ! (n + k - 1)) \<or> ci_has_tool_requests ci (items ! (n + k - 1))"
    using assms(1) k unfolding paired_def by (auto dest: spec [of _ "n + k"])
  ultimately show "0 < k \<and> (is_tool_result ci (drop n items ! (k - 1)) \<or> ci_has_tool_requests ci (drop n items ! (k - 1)))"
    using k by (simp add: add_diff_assoc)
qed

text \<open>
  What a plan is: the split is the start \<open>j\<close> of the longest tail within the target, moved past the tool results that
  this tail begins with; something is kept, something is compacted, and the latter is worth it.
\<close>

definition plan_of :: "('t, 'm) CompactionItem_scheme \<Rightarrow> u32 list \<Rightarrow> 't list \<Rightarrow> u32 \<Rightarrow> u32 \<Rightarrow> SplitPlan \<Rightarrow> bool" where
  "plan_of ci counts items target min_compactable plan \<longleftrightarrow>
     sp_tokens_to_compact plan = saturated (sum_list (map unat (take (sp_split_idx plan) counts)))
     \<and> min_compactable \<le> sp_tokens_to_compact plan
     \<and> sp_split_idx plan < length items \<and> \<not> is_tool_result ci (items ! sp_split_idx plan)
     \<and> (\<exists>j. 0 < j \<and> j \<le> sp_split_idx plan
          \<and> in_target target (tail_tokens counts j) \<and> (\<forall>k < j. \<not> in_target target (tail_tokens counts k))
          \<and> (\<forall>k. j \<le> k \<and> k < sp_split_idx plan \<longrightarrow> is_tool_result ci (items ! k)))"

lemma snap_unique:
  assumes "j \<le> n" "n < length items" "\<not> is_tool_result ci (items ! n)" "\<forall>k. j \<le> k \<and> k < n \<longrightarrow> is_tool_result ci (items ! k)"
  shows "snap_to_safe_boundary ci items j = n"
proof (rule ccontr)
  assume "snap_to_safe_boundary ci items j \<noteq> n"
  then consider "snap_to_safe_boundary ci items j < n" | "n < snap_to_safe_boundary ci items j" by linarith
  then show False
  proof cases
    case 1
    with assms snap_boundary(1,3) [of j items ci] show False by force
  next
    case 2
    with assms snap_boundary(4) [of j items n ci] show False by force
  qed
qed

lemma walk_back_all:
  assumes "length counts = n"
  shows "\<exists>j \<le> n. walk_back counts target n 0 n = Ok j
    \<and> in_target target (tail_tokens counts j) \<and> (\<forall>k < j. \<not> in_target target (tail_tokens counts k))"
  using walk_back_least [of n counts target] assms by (simp add: tail_tokens_def in_target_def saturated_def)

lemma select_cases:
  assumes "length counts = length items" and "items \<noteq> []"
  obtains j where "j \<le> length items" "in_target target (tail_tokens counts j)"
    "\<forall>k < j. \<not> in_target target (tail_tokens counts k)"
    "select_turns_to_compact ci counts items target min_compactable =
       (let n = snap_to_safe_boundary ci items j; tokens = saturated (sum_list (map unat (take n counts))) in
        Ok (if j = 0 \<or> n \<ge> length items \<or> tokens < min_compactable then None
            else Some \<lparr>sp_split_idx = n, sp_tokens_to_compact = tokens\<rparr>))"
proof -
  obtain j where j: "j \<le> length items" "walk_back counts target (length items) 0 (length items) = Ok j"
      "in_target target (tail_tokens counts j)" "\<forall>k < j. \<not> in_target target (tail_tokens counts k)"
    using walk_back_all [OF assms(1)] by blast
  have "(slice counts 0 n :: (unit, _) res) = Ok (take n counts)" if "n < length items" for n
    using that assms(1) by (simp add: slice_def get_slice_def)
  with j assms fold_saturated [of _ 0] show ?thesis
    by (intro that [of j]) (auto simp: select_turns_to_compact_def Let_def saturated_def)
qed

lemma least_tail_unique:
  fixes i j :: nat
  assumes "P i" "\<forall>k < i. \<not> P k" "P j" "\<forall>k < j. \<not> P k"
  shows "i = j"
  using assms by (metis linorder_neqE_nat)

lemma plan_of_snap:
  assumes "j \<le> length items" "in_target target (tail_tokens counts j)" "\<forall>k < j. \<not> in_target target (tail_tokens counts k)"
  shows "plan_of ci counts items target min_compactable plan \<longleftrightarrow>
    0 < j \<and> snap_to_safe_boundary ci items j < length items \<and> sp_split_idx plan = snap_to_safe_boundary ci items j
    \<and> sp_tokens_to_compact plan = saturated (sum_list (map unat (take (sp_split_idx plan) counts)))
    \<and> min_compactable \<le> sp_tokens_to_compact plan" (is "?plan \<longleftrightarrow> ?snap")
proof
  assume plan: ?plan
  then obtain i where i: "0 < i" "i \<le> sp_split_idx plan" "in_target target (tail_tokens counts i)"
      "\<forall>k < i. \<not> in_target target (tail_tokens counts k)"
      "\<forall>k. i \<le> k \<and> k < sp_split_idx plan \<longrightarrow> is_tool_result ci (items ! k)" unfolding plan_of_def by blast
  have "i = j" by (rule least_tail_unique [OF i(3,4) assms(2,3)])
  moreover from i plan have "snap_to_safe_boundary ci items i = sp_split_idx plan"
    unfolding plan_of_def by (intro snap_unique) auto
  ultimately show ?snap using plan i(1) unfolding plan_of_def by auto
next
  assume n: ?snap
  with assms(1) have "j < length items" by (cases "j = length items") (auto simp: snap_to_safe_boundary_def)
  note snap = snap_boundary [OF this, where ci = ci]
  have "\<forall>k. j \<le> k \<and> k < sp_split_idx plan \<longrightarrow> is_tool_result ci (items ! k)" using snap(4) n by auto
  with n assms snap(1) have "\<exists>j. 0 < j \<and> j \<le> sp_split_idx plan
      \<and> in_target target (tail_tokens counts j) \<and> (\<forall>k < j. \<not> in_target target (tail_tokens counts k))
      \<and> (\<forall>k. j \<le> k \<and> k < sp_split_idx plan \<longrightarrow> is_tool_result ci (items ! k))"
    by (intro exI [of _ j]) simp
  with n snap(3) show ?plan unfolding plan_of_def by (elim conjE, intro conjI) simp_all
qed

lemma select_plan_iff:
  assumes "length counts = length items"
  shows "(select_turns_to_compact ci counts items target min_compactable = Ok (Some plan))
      = plan_of ci counts items target min_compactable plan
    \<and> (\<exists>r. select_turns_to_compact ci counts items target min_compactable = Ok r)"
proof (cases "items = []")
  case True
  with assms show ?thesis by (simp add: select_turns_to_compact_def plan_of_def)
next
  case False
  obtain j where j: "j \<le> length items" "in_target target (tail_tokens counts j)"
      "\<forall>k < j. \<not> in_target target (tail_tokens counts k)"
      and sel: "select_turns_to_compact ci counts items target min_compactable =
         (let n = snap_to_safe_boundary ci items j; tokens = saturated (sum_list (map unat (take n counts))) in
          Ok (if j = 0 \<or> n \<ge> length items \<or> tokens < min_compactable then None
              else Some \<lparr>sp_split_idx = n, sp_tokens_to_compact = tokens\<rparr>))"
    by (rule select_cases [OF assms False])
  show ?thesis unfolding sel plan_of_snap [OF j] Let_def by (cases plan) (auto simp: not_less)
qed

lemma select_plan:
  "length counts = length items \<Longrightarrow> select_turns_to_compact ci counts items target min_compactable = Ok (Some plan)
   \<Longrightarrow> plan_of ci counts items target min_compactable plan"
  using select_plan_iff by blast

section \<open>What the selection promises\<close>

text \<open>
  C30: The selection never panics and gives a plan exactly if there is one: the longest tail within the target, less the
  tool results it begins with, where something is kept and the rest is worth compacting. Its token count is the sum of
  the compacted counts, saturated at \<open>u32::MAX\<close>.
\<close>

theorem select_exact:
  assumes "length counts = length items"
  shows "(select_turns_to_compact ci counts items target min_compactable = Ok (Some plan))
      = plan_of ci counts items target min_compactable plan
    \<and> (\<exists>r. select_turns_to_compact ci counts items target min_compactable = Ok r)"
  by (rule select_plan_iff [OF assms])

text \<open>A conversation of four items: a question, a request for a tool, its result, an answer.\<close>

datatype MockItem = MockUser | MockAsk | MockResult | MockAnswer

definition mock_items :: "MockItem CompactionItem" where
  "mock_items = \<lparr>ci_role = (\<lambda>t. case t of MockUser \<Rightarrow> User | MockResult \<Rightarrow> Tool | _ \<Rightarrow> Assistant), ci_text = (\<lambda>_. None),
     ci_has_tool_requests = (\<lambda>t. t = MockAsk), ci_is_compaction_summary = (\<lambda>_. False), ci_attachment_refs = (\<lambda>_. [])\<rparr>"

definition mock_plan :: SplitPlan where
  "mock_plan = \<lparr>sp_split_idx = 3, sp_tokens_to_compact = 30\<rparr>"

lemma mock_select:
  "select_turns_to_compact mock_items [10, 10, 10, 10] [MockUser, MockAsk, MockResult, MockAnswer] 20 5 = Ok (Some mock_plan)"
  by code_simp

theorem select_exact_witness:
  "plan_of mock_items [10, 10, 10, 10] [MockUser, MockAsk, MockResult, MockAnswer] 20 5 mock_plan"
  using select_exact [of "[10, 10, 10, 10]" "[MockUser, MockAsk, MockResult, MockAnswer]" mock_items 20 5 mock_plan]
  by (simp add: mock_select)

text \<open>
  C31: Compaction never separates a tool result from its request. If every tool result of the conversation follows the
  item that requested it, directly or after other results, so it is in the part that is compacted and in the part that
  is kept; the kept part does not begin with a tool result, is not empty and fits the target.
\<close>

theorem select_keeps_pairs:
  assumes "select_turns_to_compact ci counts items target min_compactable = Ok (Some plan)" and "paired ci items"
  shows "paired ci (take (sp_split_idx plan) items) \<and> paired ci (drop (sp_split_idx plan) items)
    \<and> 0 < sp_split_idx plan \<and> sp_split_idx plan < length items
    \<and> \<not> is_tool_result ci (items ! sp_split_idx plan)
    \<and> in_target target (tail_tokens counts (sp_split_idx plan))"
proof -
  have "length counts = length items" using assms(1) by (auto simp: select_turns_to_compact_def split: if_splits)
  from select_plan [OF this assms(1)] have plan: "plan_of ci counts items target min_compactable plan" .
  then obtain j where "0 < j" "j \<le> sp_split_idx plan" "in_target target (tail_tokens counts j)"
    unfolding plan_of_def by blast
  with tail_tokens_anti [of j "sp_split_idx plan" counts] have "in_target target (tail_tokens counts (sp_split_idx plan))"
    by (auto simp: in_target_def)
  with plan \<open>0 < j\<close> \<open>j \<le> _\<close> assms(2) show ?thesis
    unfolding plan_of_def by (auto intro: paired_take paired_drop)
qed

theorem select_keeps_pairs_witness:
  "paired mock_items [MockUser, MockAsk, MockResult, MockAnswer]
   \<and> paired mock_items [MockUser, MockAsk, MockResult] \<and> paired mock_items [MockAnswer]"
proof -
  have p: "paired mock_items [MockUser, MockAsk, MockResult, MockAnswer]"
    by (auto simp: paired_def is_tool_result_def mock_items_def less_Suc_eq nth_Cons split: nat.splits)
  from select_keeps_pairs [OF mock_select p] p show ?thesis by (simp add: mock_plan_def)
qed

end
