(* ===== verification/Compaction_History.thy ===== *)
theory Compaction_History
  imports Compaction_Select Compaction_Summary
begin

text \<open>
  What is kept of a conversation around its summary (\<open>history/filter.rs\<close>, \<open>history/validate.rs\<close>): which items
  the model sees, the block with the user's own messages that is put before a summary, how it is taken out of an earlier
  summary again, and the check of a finished text. The theorem says that the messages survive any number of
  compactions, each exactly once.
\<close>

section \<open>Filters\<close>

record 't CompactionItemBuilder = "'t CompactionItem" +
  cb_compaction_summary_item :: "string \<Rightarrow> 't"
  cb_strip_tool_content :: "'t \<Rightarrow> 't option"

definition keep_turn_for_basic_compaction :: "('t, 'm) CompactionItem_scheme \<Rightarrow> 't \<Rightarrow> bool" where
  "keep_turn_for_basic_compaction ci turn =
     (case ci_role ci turn of
        System \<Rightarrow> False
      | Developer \<Rightarrow> ci_is_compaction_summary ci turn
      | _ \<Rightarrow> True)"

definition filter_turns_for_basic :: "('t, 'm) CompactionItem_scheme \<Rightarrow> 't list \<Rightarrow> 't list" where
  "filter_turns_for_basic ci turns = filter (keep_turn_for_basic_compaction ci) turns"

definition filter_turns_for_inter_compaction :: "'t CompactionItemBuilder \<Rightarrow> 't list \<Rightarrow> 't list" where
  "filter_turns_for_inter_compaction cb turns =
     List.map_filter (\<lambda>turn.
       case ci_role cb turn of
         Tool \<Rightarrow> None
       | System \<Rightarrow> None
       | Developer \<Rightarrow> if ci_is_compaction_summary cb turn then Some turn else None
       | User \<Rightarrow> Some turn
       | Assistant \<Rightarrow> cb_strip_tool_content cb turn) turns"

section \<open>User queries\<close>

abbreviation start_tag :: string where
  "start_tag \<equiv> ''<grok_user_queries>''"

abbreviation end_tag :: string where
  "end_tag \<equiv> ''</grok_user_queries>''"

definition push_rest :: "string \<Rightarrow> string \<Rightarrow> string" where
  "push_rest rest piece = (if piece \<noteq> [] then (if rest \<noteq> [] then rest @ [CHR 0x0A] else rest) @ piece else rest)"

function split_loop :: "string \<Rightarrow> nat \<Rightarrow> string list \<Rightarrow> string \<Rightarrow> (unit, string list \<times> string) res" where
  "split_loop text cursor user_sections rest =
     try_res (str_slice text cursor (length text)) (\<lambda>tail.
       case find_str tail start_tag of
         None \<Rightarrow> Ok (user_sections, push_rest rest (trim_str tail))
       | Some start \<Rightarrow>
           let abs_start = cursor + start in
           try_res (str_slice text abs_start (length text)) (\<lambda>tail_from_start.
             case find_str tail_from_start end_tag of
               None \<Rightarrow> Ok (user_sections, push_rest rest (trim_str tail))
             | Some end_pos \<Rightarrow>
                 let abs_end = abs_start + end_pos + length end_tag in
                 try_res (str_slice text cursor abs_start) (\<lambda>before.
                   try_res (str_slice text abs_start abs_end) (\<lambda>block.
                     split_loop text abs_end (user_sections @ [block]) (push_rest rest (trim_str before))))))"
  by pat_completeness auto
termination
  by (relation "measure (\<lambda>(text, cursor, user_sections, rest). length text - cursor)") (auto dest!: str_slice_Ok)

declare split_loop.simps [simp del]

definition split_prior_compaction_text :: "string \<Rightarrow> (unit, string option \<times> string) res" where
  "split_prior_compaction_text text =
     try_res (split_loop text 0 [] []) (\<lambda>(user_sections, rest).
       Ok (if user_sections = [] then (None, text) else (Some (join_with [CHR 0x0A] user_sections), rest)))"

definition truncate_middle :: "string \<Rightarrow> nat \<Rightarrow> string option" where
  "truncate_middle msg max_chars =
     (if char_count msg \<le> max_chars then None
      else
        let front_len = max_chars div 2;
            back_len = max_chars - front_len;
            front = concat (take front_len (chars_of msg));
            back = concat (drop (char_count msg - back_len) (chars_of msg))
        in Some (front @ ''...[truncated]...'' @ back))"

definition file_line :: "CompactionFileRef \<Rightarrow> string" where
  "file_line f = ''<grok_file id='' @ [CHR 0x22] @ fr_id f @ [CHR 0x22] @ '' name='' @ [CHR 0x22] @ fr_name f @ [CHR 0x22] @ '' />'' @ [CHR 0x0A]"

definition query_entry :: "('t, 'm) CompactionItem_scheme \<Rightarrow> nat \<Rightarrow> 't \<Rightarrow> string option" where
  "query_entry ci threshold turn =
     (if ci_role ci turn \<noteq> User then None
      else
        let text = (case ci_text ci turn of Some t \<Rightarrow> t | None \<Rightarrow> []);
            attachments = ci_attachment_refs ci turn
        in if text = [] \<and> attachments = [] then None
           else Some (''<grok_query>''
             @ (case truncate_middle text threshold of Some truncated \<Rightarrow> truncated | None \<Rightarrow> text)
             @ (if attachments \<noteq> [] then [CHR 0x0A] @ concat (map file_line attachments) else [])
             @ ''</grok_query>'' @ [CHR 0x0A]))"

definition extract_user_queries_from_turns :: "('t, 'm) CompactionItem_scheme \<Rightarrow> 't list \<Rightarrow> u32 \<Rightarrow> string option" where
  "extract_user_queries_from_turns ci turns user_truncate_chars =
     (let entries = List.map_filter (query_entry ci (unat user_truncate_chars)) turns
      in if entries = [] then None
         else Some (start_tag @ [CHR 0x0A] @ concat entries @ end_tag))"

record 't SeparatedHistoryTurns =
  st_turns_for_llm :: "'t list"
  st_prior_user_queries :: "string option"
  st_has_prior_compaction :: bool

fun separate_loop :: "'t CompactionItemBuilder \<Rightarrow> 't list \<Rightarrow> 't SeparatedHistoryTurns \<Rightarrow> (unit, 't SeparatedHistoryTurns) res" where
  "separate_loop cb [] st = Ok st"
| "separate_loop cb (turn # turns) st =
     (if ci_is_compaction_summary cb turn then
        let content = (case ci_text cb turn of Some t \<Rightarrow> t | None \<Rightarrow> []) in
        try_res (split_prior_compaction_text content) (\<lambda>(user_section, rest).
          separate_loop cb turns
            \<lparr>st_turns_for_llm = st_turns_for_llm st @ (if rest \<noteq> [] then [cb_compaction_summary_item cb rest] else []),
             st_prior_user_queries =
               (case user_section of
                  Some user_sec \<Rightarrow>
                    (case st_prior_user_queries st of
                       Some existing \<Rightarrow> Some (existing @ [CHR 0x0A] @ user_sec)
                     | None \<Rightarrow> Some user_sec)
                | None \<Rightarrow> st_prior_user_queries st),
             st_has_prior_compaction = True\<rparr>)
      else separate_loop cb turns (st\<lparr>st_turns_for_llm := st_turns_for_llm st @ [turn]\<rparr>))"

definition separate_prior_user_queries :: "'t CompactionItemBuilder \<Rightarrow> 't list \<Rightarrow> (unit, 't SeparatedHistoryTurns) res" where
  "separate_prior_user_queries cb turns =
     separate_loop cb turns \<lparr>st_turns_for_llm = [], st_prior_user_queries = None, st_has_prior_compaction = False\<rparr>"

definition extract_prior_user_queries :: "'t CompactionItemBuilder \<Rightarrow> 't list \<Rightarrow> (unit, string option) res" where
  "extract_prior_user_queries cb turns = try_res (separate_prior_user_queries cb turns) (\<lambda>st. Ok (st_prior_user_queries st))"

definition assemble_user_queries_preamble :: "string option \<Rightarrow> string option \<Rightarrow> string" where
  "assemble_user_queries_preamble prior current =
     (case prior of Some p \<Rightarrow> p @ [CHR 0x0A, CHR 0x0A] | None \<Rightarrow> [])
     @ (case current of Some c \<Rightarrow> c @ [CHR 0x0A, CHR 0x0A] | None \<Rightarrow> [])"

definition build_user_queries_preamble :: "'t CompactionItemBuilder \<Rightarrow> 't list \<Rightarrow> string option \<Rightarrow> (unit, string) res" where
  "build_user_queries_preamble cb turns current_user_queries =
     try_res (extract_prior_user_queries cb turns) (\<lambda>prior. Ok (assemble_user_queries_preamble prior current_user_queries))"

definition wrap_chunk_analysis :: "nat \<Rightarrow> string \<Rightarrow> string" where
  "wrap_chunk_analysis i thinking =
     (let trimmed = trim_str thinking
      in if trimmed = [] then []
         else ''<chunk_analysis index='' @ [CHR 0x22] @ dec_string i @ [CHR 0x22] @ ''>'' @ [CHR 0x0A] @ trimmed @ [CHR 0x0A]
              @ ''</chunk_analysis>'' @ [CHR 0x0A, CHR 0x0A])"

section \<open>Validation\<close>

datatype CompactionStrategy = Basic | DivideAndConquer | FullReplace

fun strategy_label :: "CompactionStrategy \<Rightarrow> string" where
  "strategy_label Basic = ''basic''"
| "strategy_label DivideAndConquer = ''divide_and_conquer''"
| "strategy_label FullReplace = ''full_replace''"

datatype CompactionValidationError =
    EmptyContent
  | UnbalancedChunkTags (tags_open: nat) (tags_close: nat)

fun validation_error_text :: "CompactionValidationError \<Rightarrow> string" where
  "validation_error_text EmptyContent = ''compaction message has empty text content''"
| "validation_error_text (UnbalancedChunkTags n m) =
     ''unbalanced chunk_summary tags: '' @ dec_string n @ '' open, '' @ dec_string m @ '' close''"

definition validate_compaction_text :: "string \<Rightarrow> CompactionStrategy \<Rightarrow> (CompactionValidationError, unit) res" where
  "validate_compaction_text text_content strategy =
     (if is_blank text_content then Err EmptyContent
      else if strategy = DivideAndConquer then
        let open_count = count_matches ''<chunk_summary'' text_content;
            close_count = count_matches ''</chunk_summary>'' text_content
        in if open_count \<noteq> close_count then Err (UnbalancedChunkTags open_count close_count) else Ok ()
      else Ok ())"


section \<open>Taking the blocks out again\<close>

text \<open>A block of user queries that ends at its first closing tag.\<close>

definition query_block :: "string \<Rightarrow> bool" where
  "query_block b \<longleftrightarrow> prefix start_tag b \<and> find_str b end_tag = Some (length b - length end_tag) \<and> utf8_valid b"

definition line_feeds :: "string \<Rightarrow> bool" where
  "line_feeds ws \<longleftrightarrow> set ws \<subseteq> {CHR 0x0A}"

lemma trim_line_feeds: "line_feeds ws \<Longrightarrow> trim_str (ws @ s) = trim_str s"
proof (induction ws)
  case (Cons c ws)
  then have c: "c = CHR 0x0A" "line_feeds ws" by (auto simp: line_feeds_def)
  have "chars_of (c # ws @ s) = [c] # chars_of (ws @ s)" using chars_of_char [of "[c]" "ws @ s"] c(1) by (simp add: char_valid_def)
  moreover have "whitespace_at [c]" unfolding c(1) by code_simp
  ultimately have "trim_str (c # ws @ s) = trim_str (ws @ s)" by (simp add: trim_str_def)
  with Cons.IH c(2) show ?case by simp
qed simp

lemma line_feeds_valid: "line_feeds ws \<Longrightarrow> utf8_valid ws"
  by (intro utf8_valid_ascii) (auto simp: line_feeds_def)

lemma line_feeds_blank: "line_feeds ws \<Longrightarrow> trim_str ws = []"
  using trim_line_feeds [of ws "[]"] by (simp add: trim_str_def)

lemma query_block_valid: "query_block b \<Longrightarrow> utf8_valid b"
  by (simp add: query_block_def)

lemma query_block_found:
  assumes "query_block b" and "line_feeds ws"
  shows "find_str (ws @ b @ t) start_tag = Some (length ws)" and "find_str (b @ t) end_tag = Some (length b - length end_tag)"
    and "length end_tag \<le> length b"
proof -
  obtain u where u: "b = start_tag @ u" using assms(1) by (auto simp: query_block_def prefix_def)
  have "CHR ''<'' \<notin> set ws" using assms(2) by (auto simp: line_feeds_def)
  from find_str_skip [OF this, of "''grok_user_queries>''" "u @ t"] show "find_str (ws @ b @ t) start_tag = Some (length ws)"
    by (simp only: u append_assoc append_Cons append_Nil)
  show "find_str (b @ t) end_tag = Some (length b - length end_tag)"
    using assms(1) by (intro find_str_append) (simp only: query_block_def)
  show "length end_tag \<le> length b"
    using assms(1) find_str_Some [of b end_tag "length b - length end_tag"] unfolding query_block_def by (metis add_leD2)
qed

lemma split_loop_block:
  assumes "query_block b" and "line_feeds ws" and "utf8_valid t"
  shows "split_loop (pre @ ws @ b @ t) (length pre) secs rest = split_loop ((pre @ ws @ b) @ t) (length (pre @ ws @ b)) (secs @ [b]) rest"
proof -
  note found = query_block_found(1,2) [OF assms(1,2), of t] query_block_found(3) [OF assms(1,2)]
  have b: "utf8_valid b" using assms(1) by (simp add: query_block_def)
  have ws: "utf8_valid ws" using assms(2) by (rule line_feeds_valid)
  have bt: "utf8_valid (b @ t)" using b assms(3) by (rule utf8_valid_append)
  obtain rem where rem: "rem = b @ t" by simp
  obtain all where all: "all = pre @ ws @ rem" by simp
  have "(str_slice all (length pre) (length all) :: (unit, _) res) = Ok (ws @ rem)"
    using str_slice_back [OF utf8_valid_append [OF ws bt], of pre] by (simp add: all rem)
  moreover have "(str_slice all (length pre + length ws) (length all) :: (unit, _) res) = Ok rem"
    using str_slice_back [OF bt, of "pre @ ws"] by (simp add: all rem)
  moreover have "(str_slice all (length pre) (length pre + length ws) :: (unit, _) res) = Ok ws"
    using str_slice_mid [OF ws bt, of pre] by (simp add: all rem)
  moreover have sum: "length pre + length ws + (length b - length end_tag) + length end_tag = length (pre @ ws @ b)"
    using found(3) by (simp only: length_append add.assoc le_add_diff_inverse2)
  moreover have "(str_slice all (length pre + length ws) (length (pre @ ws @ b)) :: (unit, _) res) = Ok b"
    using str_slice_mid [OF b assms(3), of "pre @ ws"] by (simp add: all rem add.assoc)
  moreover have "push_rest rest (trim_str ws) = rest" using line_feeds_blank [OF assms(2)] by (simp add: push_rest_def)
  ultimately have "split_loop all (length pre) secs rest = split_loop all (length (pre @ ws @ b)) (secs @ [b]) rest"
    using found(1,2) [folded rem] by (subst split_loop.simps) (simp only: try_res.simps option.case Let_def)
  then show ?thesis by (simp add: all rem)
qed


lemma split_loop_end:
  assumes "utf8_valid t" and "\<not> contains t start_tag"
  shows "split_loop (pre @ t) (length pre) secs rest = Ok (secs, push_rest rest (trim_str t))"
proof -
  obtain tag where tag: "tag = start_tag" by simp
  have none: "find_str t tag = None" using assms(2) by (simp add: contains_def tag)
  have "(str_slice (pre @ t) (length pre) (length (pre @ t)) :: (unit, _) res) = Ok t" using str_slice_back [OF assms(1)] .
  with none show ?thesis by (subst split_loop.simps) (simp only: try_res.simps tag [symmetric] option.case)
qed

lemma split_loop_blocks:
  assumes "\<forall>(ws, b) \<in> set parts. line_feeds ws \<and> query_block b" and "utf8_valid t" and "\<not> contains t start_tag"
  shows "split_loop (pre @ concat (map (\<lambda>(ws, b). ws @ b) parts) @ t) (length pre) secs rest
    = Ok (secs @ map snd parts, push_rest rest (trim_str t))"
  using assms(1)
proof (induction parts arbitrary: pre secs)
  case Nil
  then show ?case using split_loop_end [OF assms(2,3)] by simp
next
  case (Cons part parts)
  obtain ws b where part: "part = (ws, b)" by force
  let ?more = "concat (map (\<lambda>(ws, b). ws @ b) parts) @ t"
  have "utf8_valid (concat (map (\<lambda>(ws, b). ws @ b) qs) @ t)" if "\<forall>(ws, b) \<in> set qs. line_feeds ws \<and> query_block b" for qs
    using that by (induction qs) (auto simp: assms(2) query_block_valid line_feeds_valid intro!: utf8_valid_append)
  then have "utf8_valid ?more" using Cons.prems by simp
  with Cons.prems part have "split_loop (pre @ ws @ b @ ?more) (length pre) secs rest
      = split_loop ((pre @ ws @ b) @ ?more) (length (pre @ ws @ b)) (secs @ [b]) rest" by (intro split_loop_block) auto
  also have "\<dots> = Ok ((secs @ [b]) @ map snd parts, push_rest rest (trim_str t))"
    using Cons.IH [of "pre @ ws @ b" "secs @ [b]"] Cons.prems by simp
  finally show ?case by (simp add: part)
qed

definition joined :: "string list \<Rightarrow> string option" where
  "joined bs = (if bs = [] then None else Some (join_with [CHR 0x0A] bs))"

definition blocks_of :: "string option \<Rightarrow> string list" where
  "blocks_of x = (case x of Some b \<Rightarrow> [b] | None \<Rightarrow> [])"

text \<open>The blocks of a preamble, each with the line feeds before it.\<close>

lemma join_parts: "join_with sep (b # bs) = b @ concat (map (\<lambda>b. sep @ b) bs)"
  by (induction bs arbitrary: b) auto

lemma preamble_parts:
  obtains parts ws where "assemble_user_queries_preamble (joined bs) cur = concat (map (\<lambda>(ws, b). ws @ b) parts) @ ws"
    "map snd parts = bs @ blocks_of cur" "\<forall>(ws, b) \<in> set parts. line_feeds ws" "line_feeds ws"
    "bs @ blocks_of cur = [] \<longrightarrow> ws = []"
proof -
  let ?lf = "[CHR 0x0A]"
  define prior where "prior = (case bs of [] \<Rightarrow> [] | b # bs \<Rightarrow> ([], b) # map (Pair ?lf) bs)"
  define cur_parts where "cur_parts = map (Pair (if bs = [] then [] else ?lf @ ?lf)) (blocks_of cur)"
  define ws where "ws = (if bs @ blocks_of cur = [] then [] else ?lf @ ?lf)"
  have "assemble_user_queries_preamble (joined bs) cur = concat (map (\<lambda>(ws, b). ws @ b) (prior @ cur_parts)) @ ws"
    by (cases bs; cases cur)
      (simp_all add: assemble_user_queries_preamble_def joined_def prior_def cur_parts_def ws_def blocks_of_def join_parts comp_def del: join_with.simps)
  moreover have "map snd (prior @ cur_parts) = bs @ blocks_of cur"
    by (cases bs) (simp_all add: prior_def cur_parts_def comp_def)
  moreover have "\<forall>(ws, b) \<in> set (prior @ cur_parts). line_feeds ws"
    by (cases bs) (auto simp: prior_def cur_parts_def line_feeds_def)
  ultimately show thesis using that [of "prior @ cur_parts" ws] by (simp add: ws_def line_feeds_def)
qed

lemma split_preamble:
  assumes "\<forall>b \<in> set (bs @ blocks_of cur). query_block b" and "utf8_valid summary" and "\<not> contains summary start_tag"
  shows "split_prior_compaction_text (assemble_user_queries_preamble (joined bs) cur @ summary) =
     Ok (joined (bs @ blocks_of cur), if bs @ blocks_of cur = [] then summary else trim_str summary)"
proof -
  obtain parts ws where parts: "assemble_user_queries_preamble (joined bs) cur = concat (map (\<lambda>(ws, b). ws @ b) parts) @ ws"
    "map snd parts = bs @ blocks_of cur" "\<forall>(ws, b) \<in> set parts. line_feeds ws" "line_feeds ws"
    "bs @ blocks_of cur = [] \<longrightarrow> ws = []" by (rule preamble_parts)
  let ?text = "assemble_user_queries_preamble (joined bs) cur @ summary"
  have "\<not> contains (ws @ summary) start_tag"
    using contains_skip [of "CHR ''<''" ws summary "''grok_user_queries>''"] assms(3) parts(4) by (auto simp: line_feeds_def)
  moreover have "utf8_valid (ws @ summary)" using line_feeds_valid [OF parts(4)] assms(2) by (rule utf8_valid_append)
  moreover have "\<forall>(ws, b) \<in> set parts. line_feeds ws \<and> query_block b"
  proof -
    have "query_block b" if "(u, b) \<in> set parts" for u b
      using that assms(1) unfolding parts(2) [symmetric] by force
    with parts(3) show ?thesis by blast
  qed
  ultimately have "split_loop ?text 0 [] [] = Ok (bs @ blocks_of cur, push_rest [] (trim_str (ws @ summary)))"
    using split_loop_blocks [of parts "ws @ summary" "[]" "[]" "[]"] by (simp add: parts(1,2))
  then show ?thesis
    using trim_line_feeds [OF parts(4)] parts(1,2,5)
    by (auto simp: split_prior_compaction_text_def push_rest_def joined_def)
qed


text \<open>Whatever the text is, no slice is out of range.\<close>

lemma ascii_query_tags: "ascii_text start_tag" "ascii_text end_tag"
  by (simp_all add: ascii_text_def)

lemma split_loop_total: "utf8_valid t \<Longrightarrow> \<exists>r. split_loop (pre @ t) (length pre) secs rest = Ok r"
proof (induction t arbitrary: pre secs rest rule: length_induct)
  case (1 t)
  obtain all where all: "all = pre @ t" by simp
  obtain s_tag e_tag where tags: "s_tag = start_tag" "e_tag = end_tag" by simp
  have whole: "(str_slice all (length pre) (length all) :: (unit, _) res) = Ok t" using str_slice_back [OF 1(2), of pre] by (simp add: all)
  show ?case
  proof (cases "find_str t s_tag")
    case None
    with whole show ?thesis unfolding all [symmetric] by (subst split_loop.simps) (simp only: tags [symmetric] try_res.simps option.case, blast)
  next
    case (Some i)
    then obtain a b where ab: "t = a @ s_tag @ b" "length a = i" "utf8_valid a" "utf8_valid (s_tag @ b)"
      using find_parts [of t s_tag i] 1(2) ascii_query_tags(1) by (metis tags(1))
    obtain rem where rem: "rem = s_tag @ b" by simp
    have t: "t = a @ rem" "utf8_valid rem" using ab rem by simp_all
    have from_start: "(str_slice all (length pre + i) (length all) :: (unit, _) res) = Ok rem"
      using str_slice_back [OF t(2), of "pre @ a"] by (simp add: all t(1) ab(2))
    show ?thesis
    proof (cases "find_str rem e_tag")
      case None
      with whole Some from_start show ?thesis unfolding all [symmetric]
        by (subst split_loop.simps) (simp only: tags [symmetric] try_res.simps option.case Let_def, blast)
    next
      case (Some j)
      then obtain c d where cd: "rem = c @ e_tag @ d" "length c = j" "utf8_valid c" "utf8_valid d"
        using find_parts [of rem e_tag j] t(2) ascii_query_tags(2) by (metis tags(2))
      have block: "utf8_valid (c @ e_tag)" using cd(3) ascii_query_tags(2) utf8_valid_ascii [of e_tag]
        by (auto simp: tags(2) ascii_text_def intro!: utf8_valid_append)
      have "(str_slice all (length pre) (length pre + i) :: (unit, _) res) = Ok a"
        using str_slice_mid [OF ab(3) t(2), of pre] by (simp add: all t(1) ab(2))
      moreover have "(str_slice all (length pre + i) (length pre + i + j + length e_tag) :: (unit, _) res) = Ok (c @ e_tag)"
        using str_slice_mid [OF block cd(4), of "pre @ a"] by (simp add: all t(1) cd(1,2) ab(2) add.assoc)
      ultimately have "split_loop all (length pre) secs rest =
          split_loop all (length pre + i + j + length e_tag) (secs @ [c @ e_tag]) (push_rest rest (trim_str a))"
        using whole \<open>find_str t s_tag = Some i\<close> from_start Some
        by (subst split_loop.simps) (simp only: tags [symmetric] try_res.simps option.case Let_def)
      moreover have "all = (pre @ a @ c @ e_tag) @ d" "length pre + i + j + length e_tag = length (pre @ a @ c @ e_tag)"
        using ab(2) cd(1,2) by (simp_all add: all t(1))
      moreover have "e_tag \<noteq> []" by (simp add: tags(2))
      then have "length d < length t" unfolding t(1) cd(1) by simp
      ultimately show ?thesis using 1(1) [rule_format, of d "pre @ a @ c @ e_tag"] cd(4) by (simp add: all)
    qed
  qed
qed

lemma split_prior_total: "utf8_valid s \<Longrightarrow> \<exists>r. split_prior_compaction_text s = Ok r"
  using split_loop_total [of s "[]" "[]" "[]"] by (auto simp: split_prior_compaction_text_def)

definition valid_texts :: "('t, 'm) CompactionItem_scheme \<Rightarrow> 't list \<Rightarrow> bool" where
  "valid_texts ci turns \<longleftrightarrow> list_all (\<lambda>t. case ci_text ci t of Some s \<Rightarrow> utf8_valid s | None \<Rightarrow> True) turns"

lemma separate_total: "valid_texts cb turns \<Longrightarrow> \<exists>st'. separate_loop cb turns st = Ok st'"
proof (induction turns arbitrary: st)
  case (Cons t ts)
  obtain user_section rest where "split_prior_compaction_text (case ci_text cb t of Some s \<Rightarrow> s | None \<Rightarrow> []) = Ok (user_section, rest)"
    using split_prior_total [of "case ci_text cb t of Some s \<Rightarrow> s | None \<Rightarrow> []"] Cons.prems
    by (fastforce simp: valid_texts_def split: option.splits)
  with Cons show ?case by (simp add: valid_texts_def)
qed simp

section \<open>The block that is put in\<close>

text \<open>Texts that do not close a block of user queries.\<close>

definition unclosed :: "string \<Rightarrow> bool" where
  "unclosed s \<longleftrightarrow> utf8_valid s \<and> \<not> contains s end_tag"

definition quotable :: "('t, 'm) CompactionItem_scheme \<Rightarrow> 't \<Rightarrow> bool" where
  "quotable ci turn \<longleftrightarrow>
     list_all unclosed ((case ci_text ci turn of Some t \<Rightarrow> [t] | None \<Rightarrow> [])
       @ concat (map (\<lambda>f. [fr_id f, fr_name f]) (ci_attachment_refs ci turn)))"

lemma unclosed_Nil [simp]: "unclosed []"
  by (simp add: unclosed_def)

lemma unclosed_words: "ascii_text w \<Longrightarrow> CHR ''<'' \<notin> set w \<Longrightarrow> unclosed (w @ t) \<longleftrightarrow> unclosed t"
  using contains_skip [of "CHR ''<''" w t "''/grok_user_queries>''"] contains_left [of t end_tag w]
    utf8_valid_parts(2) [of "[]" w t] utf8_valid_ascii [of w]
  by (auto simp: unclosed_def ascii_text_def intro: utf8_valid_append)

lemma unclosed_tag:
  assumes "ascii_text (CHR ''<'' # w)" and "CHR ''<'' \<notin> set w" and "\<not> prefix end_tag (CHR ''<'' # w @ t)"
  shows "unclosed (CHR ''<'' # w @ t) \<longleftrightarrow> unclosed t"
proof (cases "w = []")
  case True
  with assms show ?thesis by (auto simp: unclosed_def contains_Cons)
next
  case False
  with assms unclosed_words [of w t] show ?thesis by (auto simp: unclosed_def contains_Cons ascii_text_def)
qed

lemma unclosed_join:
  assumes "c \<notin> set ''/grok_user_queries>''" and "unclosed a" and "unclosed (c # b)"
  shows "unclosed (a @ c # b)"
  using assms contains_split_letter [of c "''/grok_user_queries>''" a b "CHR ''<''"] utf8_valid_append [of a "c # b"]
  by (simp add: unclosed_def)

lemma file_line_unclosed:
  assumes "unclosed (fr_id f)" and "unclosed (fr_name f)" and "unclosed t"
  shows "unclosed (file_line f @ t)"
proof -
  let ?q = "[CHR 0x22]"
  have "unclosed ((?q @ '' />'' @ [CHR 0x0A]) @ t)" using assms(3) by (subst unclosed_words) (auto simp: ascii_text_def)
  then have "unclosed (fr_name f @ CHR 0x22 # '' />'' @ [CHR 0x0A] @ t)" using assms(2) by (intro unclosed_join) auto
  then have "unclosed ((?q @ '' name='' @ ?q) @ fr_name f @ CHR 0x22 # '' />'' @ [CHR 0x0A] @ t)"
    by (subst unclosed_words) (auto simp: ascii_text_def)
  then have "unclosed (fr_id f @ CHR 0x22 # '' name='' @ ?q @ fr_name f @ CHR 0x22 # '' />'' @ [CHR 0x0A] @ t)"
    using assms(1) by (intro unclosed_join) auto
  then have "unclosed (CHR ''<'' # (''grok_file id='' @ ?q) @ fr_id f @ CHR 0x22 # '' name='' @ ?q @ fr_name f @ CHR 0x22 # '' />'' @ [CHR 0x0A] @ t)"
    by (subst unclosed_tag) (auto simp: ascii_text_def)
  then show ?thesis by (simp add: file_line_def)
qed

lemma file_lines_unclosed:
  "\<forall>f \<in> set fs. unclosed (fr_id f) \<and> unclosed (fr_name f) \<Longrightarrow> unclosed t \<Longrightarrow> unclosed (concat (map file_line fs) @ t)"
  by (induction fs) (simp_all add: file_line_unclosed)

lemma truncate_middle_unclosed:
  assumes "unclosed s" and "truncate_middle s n = Some t"
  shows "unclosed t"
proof -
  have s: "utf8_valid s" "\<not> contains s end_tag" using assms(1) by (simp_all add: unclosed_def)
  obtain i j where t: "t = concat (take i (chars_of s)) @ ''...[truncated]...'' @ concat (drop j (chars_of s))"
    using assms(2) by (auto simp: truncate_middle_def Let_def split: if_splits)
  note chars = utf8_valid_chars [OF s(1)]
  have cut: "s = concat (take k (chars_of s)) @ concat (drop k (chars_of s))" for k
    using chars by (metis append_take_drop_id concat_append)
  have valid: "utf8_valid (concat (take k (chars_of s)))" "utf8_valid (concat (drop k (chars_of s)))" for k
    using chars concat_chars by (meson in_set_takeD in_set_dropD)+
  have "unclosed (concat (take i (chars_of s)))" "unclosed (concat (drop j (chars_of s)))"
    using valid s(2) contains_left [of _ end_tag] contains_right [of _ end_tag] cut unfolding unclosed_def by metis+
  then have "unclosed (''...[truncated]...'' @ concat (drop j (chars_of s)))"
    by (subst unclosed_words) (auto simp: ascii_text_def)
  with \<open>unclosed (concat (take i (chars_of s)))\<close> show ?thesis
    unfolding t using unclosed_join [of "CHR ''.''" "concat (take i (chars_of s))" "''..[truncated]...'' @ concat (drop j (chars_of s))"] by simp
qed


lemma query_entry_unclosed:
  assumes "quotable ci turn" and "query_entry ci n turn = Some e" and "unclosed t"
  shows "unclosed (e @ t)"
proof -
  define msg where "msg = (case ci_text ci turn of Some t \<Rightarrow> t | None \<Rightarrow> [])"
  define shown where "shown = (case truncate_middle msg n of Some truncated \<Rightarrow> truncated | None \<Rightarrow> msg)"
  define files where "files = ci_attachment_refs ci turn"
  have msg: "unclosed msg" "\<forall>f \<in> set files. unclosed (fr_id f) \<and> unclosed (fr_name f)"
    using assms(1) by (auto simp: quotable_def msg_def files_def list_all_iff split: option.splits)
  then have shown: "unclosed shown" by (auto simp: shown_def truncate_middle_unclosed split: option.splits)
  have "unclosed ([CHR 0x0A] @ t)" using assms(3) by (subst unclosed_words) (auto simp: ascii_text_def)
  then have close: "unclosed (CHR ''<'' # ''/grok_query>'' @ [CHR 0x0A] @ t)" by (subst unclosed_tag) (auto simp: ascii_text_def)
  have "unclosed (shown @ (if files \<noteq> [] then [CHR 0x0A] @ concat (map file_line files) else []) @ ''</grok_query>'' @ [CHR 0x0A] @ t)"
  proof (cases "files = []")
    case True
    have "unclosed (shown @ CHR ''<'' # ''/grok_query>'' @ [CHR 0x0A] @ t)" using shown close by (intro unclosed_join) auto
    with True show ?thesis by simp
  next
    case False
    have "unclosed (concat (map file_line files) @ CHR ''<'' # ''/grok_query>'' @ [CHR 0x0A] @ t)"
      using file_lines_unclosed [OF msg(2) close] .
    then have "unclosed ([CHR 0x0A] @ concat (map file_line files) @ CHR ''<'' # ''/grok_query>'' @ [CHR 0x0A] @ t)"
      by (subst unclosed_words) (auto simp: ascii_text_def)
    then have "unclosed (shown @ CHR 0x0A # concat (map file_line files) @ CHR ''<'' # ''/grok_query>'' @ [CHR 0x0A] @ t)"
      using shown by (intro unclosed_join) auto
    with False show ?thesis by simp
  qed
  then have "unclosed (CHR ''<'' # ''grok_query>'' @ shown
      @ (if files \<noteq> [] then [CHR 0x0A] @ concat (map file_line files) else []) @ ''</grok_query>'' @ [CHR 0x0A] @ t)"
    by (subst unclosed_tag) (auto simp: ascii_text_def)
  moreover have "e = CHR ''<'' # ''grok_query>'' @ shown
      @ (if files \<noteq> [] then [CHR 0x0A] @ concat (map file_line files) else []) @ ''</grok_query>'' @ [CHR 0x0A]"
    using assms(2) unfolding query_entry_def Let_def msg_def shown_def files_def by (auto split: if_splits)
  ultimately show ?thesis by simp
qed

lemma query_entries_unclosed:
  "\<forall>turn \<in> set turns. quotable ci turn \<Longrightarrow> unclosed (concat (List.map_filter (query_entry ci n) turns))"
proof (induction turns)
  case (Cons turn turns)
  then show ?case
    using query_entry_unclosed [of ci turn n] by (cases "query_entry ci n turn") (simp_all add: List.map_filter_simps)
qed (simp add: List.map_filter_simps)

lemma extracted_block:
  assumes "\<forall>turn \<in> set turns. quotable ci turn" and "extract_user_queries_from_turns ci turns n = Some b"
  shows "query_block b"
proof -
  obtain body where body: "unclosed body" "b = start_tag @ [CHR 0x0A] @ body @ end_tag"
    using assms query_entries_unclosed [OF assms(1), of "unat n"]
    by (auto simp: extract_user_queries_from_turns_def Let_def split: if_splits)
  have "unclosed ([CHR 0x0A] @ body)" using body(1) by (subst unclosed_words) (auto simp: ascii_text_def)
  then have front: "unclosed (CHR ''<'' # ''grok_user_queries>'' @ [CHR 0x0A] @ body)"
    by (subst unclosed_tag) (auto simp: ascii_text_def)
  obtain f where f: "f = start_tag @ [CHR 0x0A] @ body" "unclosed f" using front by simp
  have b: "b = f @ CHR ''<'' # ''/grok_user_queries>''" by (simp add: f(1) body(2))
  have "find_str b end_tag = Some (length f)"
    using find_str_at_end [of "CHR ''<''" "''/grok_user_queries>''" f] f(2) by (simp add: unclosed_def b)
  moreover have "length b - length end_tag = length f" by (simp add: b)
  moreover have "utf8_valid end_tag" by (rule utf8_valid_ascii) auto
  then have "utf8_valid b" using f(2) utf8_valid_append [of f end_tag] by (simp add: b unclosed_def)
  moreover have "prefix start_tag b" by (simp add: body(2))
  ultimately show ?thesis unfolding query_block_def by (simp only: simp_thms)
qed


section \<open>User queries over many compactions\<close>

text \<open>
  One compaction of history turns keeps the queries of earlier compactions and those of the turns, and puts them before
  the summary; the next one starts with the item that carries this text.
\<close>

definition history_text :: "'t CompactionItemBuilder \<Rightarrow> u32 \<Rightarrow> 't list \<Rightarrow> string \<Rightarrow> (unit, string) res" where
  "history_text cb n turns summary =
     try_res (separate_prior_user_queries cb turns) (\<lambda>st.
       Ok (assemble_user_queries_preamble (st_prior_user_queries st) (extract_user_queries_from_turns cb turns n) @ summary))"

fun after_rounds :: "'t CompactionItemBuilder \<Rightarrow> u32 \<Rightarrow> string \<Rightarrow> ('t list \<times> string) list \<Rightarrow> (unit, string) res" where
  "after_rounds cb n carried [] = Ok carried"
| "after_rounds cb n carried ((turns, summary) # rounds) =
     try_res (history_text cb n (cb_compaction_summary_item cb carried # turns) summary) (\<lambda>carried'. after_rounds cb n carried' rounds)"

text \<open>What a harness promises of the items that carry a summary.\<close>

definition carries_summaries :: "'t CompactionItemBuilder \<Rightarrow> bool" where
  "carries_summaries cb \<longleftrightarrow>
     (\<forall>s. ci_is_compaction_summary cb (cb_compaction_summary_item cb s) \<and> ci_text cb (cb_compaction_summary_item cb s) = Some s
        \<and> ci_role cb (cb_compaction_summary_item cb s) \<noteq> User)"

definition untagged :: "string \<Rightarrow> bool" where
  "untagged summary \<longleftrightarrow> utf8_valid summary \<and> \<not> contains summary start_tag"

definition fresh_turn :: "'t CompactionItemBuilder \<Rightarrow> 't \<Rightarrow> bool" where
  "fresh_turn cb turn \<longleftrightarrow> quotable cb turn \<and> \<not> ci_is_compaction_summary cb turn"

lemma separate_loop_plain:
  "\<forall>t \<in> set turns. \<not> ci_is_compaction_summary cb t \<Longrightarrow>
     separate_loop cb turns st = Ok (st\<lparr>st_turns_for_llm := st_turns_for_llm st @ turns\<rparr>)"
  by (induction turns arbitrary: st) simp_all

lemma extract_Cons_other:
  "ci_role ci t \<noteq> User \<Longrightarrow> extract_user_queries_from_turns ci (t # turns) n = extract_user_queries_from_turns ci turns n"
  by (simp add: extract_user_queries_from_turns_def query_entry_def List.map_filter_simps)

lemma history_text_round:
  assumes "carries_summaries cb" and "\<forall>t \<in> set turns. fresh_turn cb t"
    and "split_prior_compaction_text carried = Ok (prior, rest)"
  shows "history_text cb n (cb_compaction_summary_item cb carried # turns) summary =
     Ok (assemble_user_queries_preamble prior (extract_user_queries_from_turns cb turns n) @ summary)"
proof -
  have turns: "\<forall>t \<in> set turns. \<not> ci_is_compaction_summary cb t" using assms(2) by (simp add: fresh_turn_def)
  show ?thesis
    using assms(1,3)
    by (cases prior)
      (simp_all add: history_text_def separate_prior_user_queries_def carries_summaries_def extract_Cons_other
        separate_loop_plain [OF turns])
qed

lemma blocks_of_extracted:
  "\<forall>t \<in> set turns. fresh_turn cb t \<Longrightarrow> \<forall>b \<in> set (blocks_of (extract_user_queries_from_turns cb turns n)). query_block b"
  using extracted_block [of turns cb n] by (auto simp: blocks_of_def fresh_turn_def split: option.splits)

lemma rounds_keep_blocks:
  assumes "carries_summaries cb"
  shows "\<forall>(turns, summary) \<in> set rounds. (\<forall>t \<in> set turns. fresh_turn cb t) \<and> untagged summary \<Longrightarrow>
    split_prior_compaction_text carried = Ok (joined bs, rest) \<Longrightarrow> \<forall>b \<in> set bs. query_block b \<Longrightarrow>
    \<exists>final rest'. after_rounds cb n carried rounds = Ok final \<and> split_prior_compaction_text final =
      Ok (joined (bs @ concat (map (\<lambda>(turns, summary). blocks_of (extract_user_queries_from_turns cb turns n)) rounds)), rest')"
proof (induction rounds arbitrary: carried bs rest)
  case (Cons r rounds)
  obtain turns summary where r: "r = (turns, summary)" by force
  let ?cur = "extract_user_queries_from_turns cb turns n"
  let ?next = "assemble_user_queries_preamble (joined bs) ?cur @ summary"
  have fresh: "\<forall>t \<in> set turns. fresh_turn cb t" and summary: "utf8_valid summary" "\<not> contains summary start_tag"
    using Cons.prems(1) by (auto simp: r untagged_def)
  have blocks: "\<forall>b \<in> set (bs @ blocks_of ?cur). query_block b" using Cons.prems(3) blocks_of_extracted [OF fresh] by auto
  obtain rest2 where "split_prior_compaction_text ?next = Ok (joined (bs @ blocks_of ?cur), rest2)"
    using split_preamble [OF blocks summary] by blast
  from Cons.IH [OF _ this blocks] Cons.prems(1) r
  have "\<exists>final rest'. after_rounds cb n ?next rounds = Ok final \<and> split_prior_compaction_text final =
      Ok (joined ((bs @ blocks_of ?cur) @ concat (map (\<lambda>(turns, summary). blocks_of (extract_user_queries_from_turns cb turns n)) rounds)), rest')"
    by simp
  with history_text_round [OF assms fresh Cons.prems(2), of n summary] r show ?case by simp
qed auto



text \<open>Two rounds of a small chat.\<close>

datatype chat_item = Query string | Carried string

definition chat :: "chat_item CompactionItemBuilder" where
  "chat = \<lparr>ci_role = \<lambda>t. case t of Query s \<Rightarrow> User | Carried s \<Rightarrow> Developer,
     ci_text = \<lambda>t. case t of Query s \<Rightarrow> Some s | Carried s \<Rightarrow> Some s,
     ci_has_tool_requests = \<lambda>t. False,
     ci_is_compaction_summary = \<lambda>t. case t of Query s \<Rightarrow> False | Carried s \<Rightarrow> True,
     ci_attachment_refs = \<lambda>t. [],
     cb_compaction_summary_item = Carried,
     cb_strip_tool_content = Some\<rparr>"


text \<open>
  A message that quotes the closing tag ends the block early: the next compaction finds a block without the rest of the
  message, and hands that rest to the model as if it were part of the summary.
\<close>

lemma quoted_tag_cuts_message:
  "(case history_text chat 3000 [Query ''a</grok_user_queries>secret''] ''summary'' of
      Ok carried \<Rightarrow> (case split_prior_compaction_text carried of
        Ok (Some blocks, rest) \<Rightarrow> \<not> contains blocks ''secret'' \<and> contains rest ''secret''
      | _ \<Rightarrow> False)
    | _ \<Rightarrow> False)"
  by code_simp

text \<open>A message that is cut in the middle has the characters it may have, and the mark between its halves.\<close>

lemma truncate_middle_length:
  assumes "utf8_valid s" and "truncate_middle s n = Some t"
  shows "char_count t = n + 17"
proof -
  let ?i = "n div 2" and ?j = "char_count s - (n - n div 2)"
  have t: "t = concat (take ?i (chars_of s)) @ ''...[truncated]...'' @ concat (drop ?j (chars_of s))" and less: "n < char_count s"
    using assms(2) by (auto simp: truncate_middle_def Let_def split: if_splits)
  let ?chs = "take ?i (chars_of s) @ map (\<lambda>c. [c]) ''...[truncated]...'' @ drop ?j (chars_of s)"
  have "\<forall>ch \<in> set ?chs. char_valid ch"
    using utf8_valid_chars [OF assms(1)] by (auto simp: char_valid_def dest: in_set_takeD in_set_dropD)
  then have "chars_of (concat ?chs) = ?chs" using concat_chars by blast
  moreover have "concat ?chs = t" by (simp add: t)
  ultimately show ?thesis using less by (auto simp: char_count_def)
qed

end
