(* ===== verification/Compaction_Inter.thy ===== *)
theory Compaction_Inter
  imports Compaction_History Compaction_Sampling
begin

text \<open>
  Compaction between two turns (\<open>inter_compaction/compact.rs\<close>): the filtered conversation is cut into chunks of a
  token budget, each chunk is summarised by one call, and the summaries are put together behind the user's messages.
  The theorems say which chunks the model is called with and that the text passes its own validation.
\<close>

section \<open>The pipeline\<close>

record InterCompactionConfig =
  ic_compaction_model_name :: string
  ic_sampling_timeout_secs :: u64
  ic_compaction_strategy :: CompactionStrategy
  ic_dnc_chunk_token_limit :: u32
  ic_user_message_compact_threshold :: u32

definition UNBOUNDED_CHUNK_LIMIT :: u32 where
  "UNBOUNDED_CHUNK_LIMIT = - 1"

record ChunkedCompactionOutput =
  co_combined_text :: string
  co_analysis_text :: string

datatype InterEvent =
    On_recompaction string
  | On_chunk_sampled bool nat
  | On_chunk_count nat

definition flush_chunk :: "('w, 't) Host \<Rightarrow> ('t \<Rightarrow> u32) \<Rightarrow> InterCompactionConfig \<Rightarrow> 't list \<Rightarrow> 'w
    \<Rightarrow> 'w \<times> InterEvent list \<times> (CompactionSampleError, LlmCompactionOutput) res" where
  "flush_chunk h count_item_tokens config turns w =
     (case (sum_res 0 (map count_item_tokens turns) :: (CompactionSampleError, u32) res) of
        Ok total_tokens \<Rightarrow>
          (case (try_res format_compaction_developer_prompt (\<lambda>system.
                   try_res format_compaction_user_prompt (\<lambda>user. Ok \<lparr>cp_system = system, cp_user = user\<rparr>))) of
             Ok prompt \<Rightarrow>
               let t0 = h_now h w;
                   (w1, reply) = h_sample h turns prompt (ic_sampling_timeout_secs config) w
               in (w1, [On_chunk_sampled (\<not> isl reply) (h_now h w1 - t0)],
                   (case reply of Inr out \<Rightarrow> Ok out | Inl e \<Rightarrow> Err e))
           | Err e \<Rightarrow> (w, [], Err (Sample_Other e))
           | Panic \<Rightarrow> (w, [], Panic))
      | _ \<Rightarrow> (w, [], Panic))"

fun chunk_loop :: "('w, 't) Host \<Rightarrow> ('t \<Rightarrow> u32) \<Rightarrow> InterCompactionConfig \<Rightarrow> u32 \<Rightarrow> 't list \<Rightarrow> 't list \<Rightarrow> u32
    \<Rightarrow> LlmCompactionOutput list \<Rightarrow> 'w
    \<Rightarrow> 'w \<times> InterEvent list \<times> (CompactionSampleError, 't list \<times> LlmCompactionOutput list) res" where
  "chunk_loop h count_item_tokens config limit [] compactable chunk_tokens outputs w = (w, [], Ok (compactable, outputs))"
| "chunk_loop h count_item_tokens config limit (turn # turns) compactable chunk_tokens outputs w =
     (let turn_tokens = count_item_tokens turn in
      if compactable \<noteq> [] \<and> limit \<noteq> UNBOUNDED_CHUNK_LIMIT \<and> saturating_add chunk_tokens turn_tokens > limit
      then
        case flush_chunk h count_item_tokens config compactable w of
          (w1, es, Ok out) \<Rightarrow>
            (case (plus_res 0 turn_tokens :: (unit, u32) res) of
               Ok tokens \<Rightarrow>
                 (case chunk_loop h count_item_tokens config limit turns [turn] tokens (outputs @ [out]) w1 of
                    (w2, es2, r) \<Rightarrow> (w2, es @ es2, r))
             | _ \<Rightarrow> (w1, es, Panic))
        | (w1, es, Err e) \<Rightarrow> (w1, es, Err e)
        | (w1, es, Panic) \<Rightarrow> (w1, es, Panic)
      else
        case (plus_res chunk_tokens turn_tokens :: (unit, u32) res) of
          Ok tokens \<Rightarrow> chunk_loop h count_item_tokens config limit turns (compactable @ [turn]) tokens outputs w
        | _ \<Rightarrow> (w, [], Panic))"

definition final_flush :: "('w, 't) Host \<Rightarrow> ('t \<Rightarrow> u32) \<Rightarrow> InterCompactionConfig
    \<Rightarrow> 'w \<times> InterEvent list \<times> (CompactionSampleError, 't list \<times> LlmCompactionOutput list) res
    \<Rightarrow> 'w \<times> InterEvent list \<times> (CompactionSampleError, LlmCompactionOutput list) res" where
  "final_flush h count_item_tokens config loop =
     (case loop of
        (w1, es, Ok (compactable, outputs)) \<Rightarrow>
          if compactable \<noteq> []
          then (case flush_chunk h count_item_tokens config compactable w1 of
                  (w2, es2, r) \<Rightarrow> (w2, es @ es2, try_res r (\<lambda>out. Ok (outputs @ [out]))))
          else (w1, es, Ok outputs)
      | (w1, es, Err e) \<Rightarrow> (w1, es, Err e)
      | (w1, es, Panic) \<Rightarrow> (w1, es, Panic))"

definition chunk_summary :: "nat \<Rightarrow> LlmCompactionOutput \<Rightarrow> string" where
  "chunk_summary i out =
     ''<chunk_summary index='' @ [CHR 0x22] @ dec_string i @ [CHR 0x22] @ ''>'' @ [CHR 0x0A] @ lo_response out
     @ [CHR 0x0A] @ ''</chunk_summary>'' @ [CHR 0x0A, CHR 0x0A]"

text \<open>What follows the last chunk: the events for the observer and the two texts.\<close>

definition combine_chunks :: "InterCompactionConfig \<Rightarrow> 't SeparatedHistoryTurns \<Rightarrow> string option \<Rightarrow> LlmCompactionOutput list
    \<Rightarrow> InterEvent list \<times> ChunkedCompactionOutput" where
  "combine_chunks config separated current_user_queries outputs =
     ((if st_has_prior_compaction separated then [On_recompaction (strategy_label (ic_compaction_strategy config))] else [])
      @ [On_chunk_count (length outputs)],
      \<lparr>co_combined_text = assemble_user_queries_preamble (st_prior_user_queries separated) current_user_queries
         @ concat (map (\<lambda>(i, out). chunk_summary i out) (List.enumerate 0 outputs)),
       co_analysis_text = concat (map (\<lambda>(i, out). wrap_chunk_analysis i (lo_thinking out)) (List.enumerate 0 outputs))\<rparr>)"

definition sample_compaction_chunked :: "'t CompactionItemBuilder \<Rightarrow> ('w, 't) Host \<Rightarrow> ('t \<Rightarrow> u32) \<Rightarrow> 't list \<Rightarrow> string option
    \<Rightarrow> InterCompactionConfig \<Rightarrow> 'w \<Rightarrow> 'w \<times> InterEvent list \<times> (CompactionSampleError, ChunkedCompactionOutput) res" where
  "sample_compaction_chunked cb h count_item_tokens turns current_user_queries config w =
     (case (case ic_compaction_strategy config of
              Basic \<Rightarrow> Some UNBOUNDED_CHUNK_LIMIT
            | DivideAndConquer \<Rightarrow> Some (ic_dnc_chunk_token_limit config)
            | FullReplace \<Rightarrow> None) of
        None \<Rightarrow> (w, [], Err (Sample_Build ''full_replace must be routed through the event-proc compact_conversation helper''))
      | Some limit \<Rightarrow>
          let filtered = filter_turns_for_inter_compaction cb turns in
          if filtered = [] then (w, [], Err (Sample_Other ''No turns remaining after filtering''))
          else
            case separate_prior_user_queries cb filtered of
              Ok separated \<Rightarrow>
                (case final_flush h count_item_tokens config
                        (chunk_loop h count_item_tokens config limit (st_turns_for_llm separated) [] 0 [] w) of
                   (w1, es, Ok outputs) \<Rightarrow>
                     (let (es2, out) = combine_chunks config separated current_user_queries outputs
                      in (w1, es @ es2, Ok out))
                 | (w1, es, Err e) \<Rightarrow> (w1, es, Err e)
                 | (w1, es, Panic) \<Rightarrow> (w1, es, Panic))
            | _ \<Rightarrow> (w, [], Panic))"


section \<open>The chunks\<close>

definition tokens_of :: "('t \<Rightarrow> u32) \<Rightarrow> 't list \<Rightarrow> nat" where
  "tokens_of count ts = sum_list (map (\<lambda>t. unat (count t)) ts)"

definition fits :: "('t \<Rightarrow> u32) \<Rightarrow> u32 \<Rightarrow> 't list \<Rightarrow> bool" where
  "fits count limit ts \<longleftrightarrow> limit = UNBOUNDED_CHUNK_LIMIT \<or> tokens_of count ts \<le> unat limit"

fun chunks :: "('t \<Rightarrow> u32) \<Rightarrow> u32 \<Rightarrow> 't list \<Rightarrow> 't list \<Rightarrow> 't list list" where
  "chunks count limit cur [] = (if cur = [] then [] else [cur])"
| "chunks count limit cur (t # ts) =
     (if cur \<noteq> [] \<and> \<not> fits count limit (cur @ [t]) then cur # chunks count limit [t] ts else chunks count limit (cur @ [t]) ts)"

lemma chunks_concat: "concat (chunks count limit cur ts) = cur @ ts"
  by (induction ts arbitrary: cur) auto

definition within_budget :: "('t \<Rightarrow> u32) \<Rightarrow> u32 \<Rightarrow> 't list \<Rightarrow> bool" where
  "within_budget count limit c \<longleftrightarrow> c \<noteq> [] \<and> (fits count limit c \<or> length c = 1)"

lemma chunks_within_budget:
  "cur = [] \<or> within_budget count limit cur \<Longrightarrow> c \<in> set (chunks count limit cur ts) \<Longrightarrow> within_budget count limit c"
proof (induction ts arbitrary: cur)
  case Nil
  then show ?case by (simp split: if_splits)
next
  case (Cons t ts)
  have one: "within_budget count limit [t]" by (simp add: within_budget_def)
  show ?case
  proof (cases "cur \<noteq> [] \<and> \<not> fits count limit (cur @ [t])")
    case True
    with Cons.prems Cons.IH [of "[t]"] one show ?thesis by auto
  next
    case False
    then have "within_budget count limit (cur @ [t])" by (auto simp: within_budget_def)
    with False Cons.prems(2) Cons.IH [of "cur @ [t]"] show ?thesis by (simp only: chunks.simps if_False simp_thms)
  qed
qed

text \<open>No chunk could have taken the first item of the next.\<close>

lemma chunks_maximal:
  "successively (\<lambda>c d. \<not> fits count limit (c @ [hd d])) (chunks count limit cur ts)
   \<and> (cur \<noteq> [] \<longrightarrow> hd (hd (chunks count limit cur ts)) = hd cur \<and> chunks count limit cur ts \<noteq> [])"
proof (induction ts arbitrary: cur)
  case (Cons t ts)
  show ?case
    using Cons.IH [of "[t]"] Cons.IH [of "cur @ [t]"] by (cases "chunks count limit [t] ts") (auto simp: hd_append)
qed auto

text \<open>One call per chunk, in order, until one fails.\<close>

fun sample_all :: "('w, 't) Host \<Rightarrow> CompactionPrompt \<Rightarrow> u64 \<Rightarrow> 't list list \<Rightarrow> 'w
    \<Rightarrow> 'w \<times> InterEvent list \<times> (CompactionSampleError, LlmCompactionOutput list) res" where
  "sample_all h prompt timeout [] w = (w, [], Ok [])"
| "sample_all h prompt timeout (c # cs) w =
     (case h_sample h c prompt timeout w of
        (w1, Inr out) \<Rightarrow>
          (case sample_all h prompt timeout cs w1 of
             (w2, es, r) \<Rightarrow> (w2, On_chunk_sampled True (h_now h w1 - h_now h w) # es, try_res r (\<lambda>outs. Ok (out # outs))))
      | (w1, Inl e) \<Rightarrow> (w1, [On_chunk_sampled False (h_now h w1 - h_now h w)], Err e))"

definition history_prompt :: CompactionPrompt where
  "history_prompt = \<lparr>cp_system = compaction_developer_prompt, cp_user = compaction_user_prompt\<rparr>"

lemma flush_chunk_call:
  assumes "tokens_of count c < 2 ^ 32"
  shows "flush_chunk h count config c w =
    (case h_sample h c history_prompt (ic_sampling_timeout_secs config) w of
       (w1, Inr out) \<Rightarrow> (w1, [On_chunk_sampled True (h_now h w1 - h_now h w)], Ok out)
     | (w1, Inl e) \<Rightarrow> (w1, [On_chunk_sampled False (h_now h w1 - h_now h w)], Err e))"
  using assms
  by (auto simp: flush_chunk_def sum_res_eq tokens_of_def comp_def format_compaction_developer_prompt_def
      format_compaction_user_prompt_def history_prompt_def Let_def split: prod.splits sum.splits)

lemma over_limit:
  assumes "unat tokens = tokens_of count cur" and "limit \<noteq> UNBOUNDED_CHUNK_LIMIT"
  shows "limit < saturating_add tokens (count t) \<longleftrightarrow> \<not> fits count limit (cur @ [t])"
proof -
  have "unat limit \<noteq> 2 ^ 32 - 1"
    using assms(2) by (simp add: UNBOUNDED_CHUNK_LIMIT_def word_unat_eq_iff unsigned_minus_1_eq_mask mask_eq_exp_minus_1)
  moreover have "unat limit < 2 ^ 32" using unat_lt [of limit] by simp
  ultimately show ?thesis
    using assms by (auto simp: fits_def word_less_nat_alt unat_saturating_add tokens_of_def)
qed


lemma try_res_assoc: "try_res (try_res r f) g = try_res r (\<lambda>x. try_res (f x) g)"
  by (cases r) simp_all

lemma final_flush_events:
  "final_flush h count config (w, es @ es2, r) = (case final_flush h count config (w, es2, r) of (w', es3, r') \<Rightarrow> (w', es @ es3, r'))"
  by (auto simp: final_flush_def split: res.splits prod.splits)

lemma chunk_loop_samples:
  assumes "unat tokens = tokens_of count cur" and "limit = UNBOUNDED_CHUNK_LIMIT \<longrightarrow> tokens_of count (cur @ turns) < 2 ^ 32"
  shows "final_flush h count config (chunk_loop h count config limit turns cur tokens outs w) =
    (case sample_all h history_prompt (ic_sampling_timeout_secs config) (chunks count limit cur turns) w of
       (w', es, r) \<Rightarrow> (w', es, try_res r (\<lambda>os. Ok (outs @ os))))"
  using assms
proof (induction turns arbitrary: cur tokens outs w)
  case Nil
  have "tokens_of count cur < 2 ^ 32" using Nil(1) unat_lt [of tokens] by simp
  then show ?case by (auto simp: final_flush_def flush_chunk_call split: prod.splits sum.splits)
next
  case (Cons t ts)
  have cur: "tokens_of count cur < 2 ^ 32" using Cons.prems(1) unat_lt [of tokens] by simp
  show ?case
  proof (cases "cur \<noteq> [] \<and> \<not> fits count limit (cur @ [t])")
    case True
    then have limit: "limit \<noteq> UNBOUNDED_CHUNK_LIMIT" by (auto simp: fits_def)
    have over: "cur \<noteq> [] \<and> limit \<noteq> UNBOUNDED_CHUNK_LIMIT \<and> limit < saturating_add tokens (count t)"
      using True limit over_limit [OF Cons.prems(1) limit] by simp
    obtain w1 reply where reply: "h_sample h cur history_prompt (ic_sampling_timeout_secs config) w = (w1, reply)" by force
    show ?thesis
    proof (cases reply)
      case (Inl e)
      with reply over True show ?thesis by (simp add: flush_chunk_call [OF cur] final_flush_def)
    next
      case (Inr out)
      have "unat (count t) = tokens_of count [t]" by (simp add: tokens_of_def)
      note IH = Cons.IH [OF this, of "outs @ [out]" w1]
      have "(plus_res 0 (count t) :: (unit, u32) res) = Ok (count t)" by (simp add: plus_res_def)
      with Inr reply over True limit IH show ?thesis
        by (auto simp: flush_chunk_call [OF cur] final_flush_events [of _ _ _ _ "[_]", simplified] try_res_assoc Let_def split: prod.splits)
    qed
  next
    case False
    have "\<not> (cur \<noteq> [] \<and> limit \<noteq> UNBOUNDED_CHUNK_LIMIT \<and> limit < saturating_add tokens (count t))"
      using False over_limit [OF Cons.prems(1)] by blast
    moreover have sum: "unat tokens + unat (count t) < 2 ^ 32"
    proof (cases "limit = UNBOUNDED_CHUNK_LIMIT")
      case True
      with Cons.prems show ?thesis by (simp add: tokens_of_def)
    next
      case bounded: False
      show ?thesis
      proof (cases "cur = []")
        case True
        with Cons.prems(1) unat_lt [of "count t"] show ?thesis by (simp add: tokens_of_def)
      next
        case nonempty: False
        with False bounded Cons.prems(1) unat_lt [of limit] show ?thesis by (simp add: fits_def tokens_of_def)
      qed
    qed
    then have plus: "(plus_res tokens (count t) :: (unit, u32) res) = Ok (tokens + count t)" by (simp add: res_simps)
    have "unat (tokens + count t) = tokens_of count (cur @ [t])"
      using sum Cons.prems(1) unat_plus [of tokens "count t"] by (simp add: no_overflow_iff tokens_of_def)
    from Cons.IH [OF this, of outs w] Cons.prems(2) False plus calculation show ?thesis
      by (simp only: chunk_loop.simps Let_def if_False chunks.simps append_assoc append_Cons append_Nil res.case)
  qed
qed


definition chunk_limit :: "InterCompactionConfig \<Rightarrow> u32" where
  "chunk_limit config =
     (if ic_compaction_strategy config = DivideAndConquer then ic_dnc_chunk_token_limit config else UNBOUNDED_CHUNK_LIMIT)"

lemma pipeline_samples:
  assumes "ic_compaction_strategy config \<noteq> FullReplace" and "filter_turns_for_inter_compaction cb turns \<noteq> []"
    and "separate_prior_user_queries cb (filter_turns_for_inter_compaction cb turns) = Ok sep"
    and "chunk_limit config = UNBOUNDED_CHUNK_LIMIT \<longrightarrow> tokens_of count (st_turns_for_llm sep) < 2 ^ 32"
  shows "sample_compaction_chunked cb h count turns queries config w =
    (case sample_all h history_prompt (ic_sampling_timeout_secs config) (chunks count (chunk_limit config) [] (st_turns_for_llm sep)) w of
       (w1, es, Ok outs) \<Rightarrow> (case combine_chunks config sep queries outs of (es2, out) \<Rightarrow> (w1, es @ es2, Ok out))
     | (w1, es, Err e) \<Rightarrow> (w1, es, Err e)
     | (w1, es, Panic) \<Rightarrow> (w1, es, Panic))"
proof -
  have loop: "final_flush h count config (chunk_loop h count config (chunk_limit config) (st_turns_for_llm sep) [] 0 [] w) =
      sample_all h history_prompt (ic_sampling_timeout_secs config) (chunks count (chunk_limit config) [] (st_turns_for_llm sep)) w"
    using chunk_loop_samples [of 0 count "[]" "chunk_limit config" "st_turns_for_llm sep" h config "[]" w] assms(4)
    by (auto simp: tokens_of_def try_res_assoc split: prod.splits) (metis append_Nil res.exhaust try_res.simps)+
  have "(case ic_compaction_strategy config of Basic \<Rightarrow> Some UNBOUNDED_CHUNK_LIMIT
      | DivideAndConquer \<Rightarrow> Some (ic_dnc_chunk_token_limit config) | FullReplace \<Rightarrow> None) = Some (chunk_limit config)"
    using assms(1) by (cases "ic_compaction_strategy config") (simp_all add: chunk_limit_def)
  with assms(2,3) loop show ?thesis
    by (simp add: sample_compaction_chunked_def Let_def)
qed

lemma sample_all_no_Panic: "snd (snd (sample_all h prompt timeout cs w)) \<noteq> Panic"
  by (induction cs arbitrary: w) (auto simp: res_simps split: prod.splits sum.splits, metis snd_conv)

text \<open>
  C28: the pipeline calls the model once for every chunk of the filtered conversation, in order, and stops at the first
  chunk that fails. The chunks are the conversation, cut where the next item would not fit the token budget: none is
  empty, none but a single large item is over the budget, and none had room for the first item of the next. Nothing
  overflows as long as an unlimited chunk stays below 2 to the 32 tokens.
\<close>

theorem chunk_calls_exact:
  assumes "ic_compaction_strategy config \<noteq> FullReplace" and "filter_turns_for_inter_compaction cb turns \<noteq> []"
    and "separate_prior_user_queries cb (filter_turns_for_inter_compaction cb turns) = Ok sep"
    and "chunk_limit config = UNBOUNDED_CHUNK_LIMIT \<longrightarrow> tokens_of count (st_turns_for_llm sep) < 2 ^ 32"
    and "cs = chunks count (chunk_limit config) [] (st_turns_for_llm sep)"
  shows "concat cs = st_turns_for_llm sep
    \<and> (\<forall>c \<in> set cs. within_budget count (chunk_limit config) c)
    \<and> successively (\<lambda>c d. \<not> fits count (chunk_limit config) (c @ [hd d])) cs
    \<and> (case sample_all h history_prompt (ic_sampling_timeout_secs config) cs w of (w1, es, r) \<Rightarrow>
         (case r of
            Ok outs \<Rightarrow> sample_compaction_chunked cb h count turns queries config w =
              (w1, es @ fst (combine_chunks config sep queries outs), Ok (snd (combine_chunks config sep queries outs)))
          | Err e \<Rightarrow> sample_compaction_chunked cb h count turns queries config w = (w1, es, Err e)
          | Panic \<Rightarrow> False))"
proof (intro conjI)
  show "concat cs = st_turns_for_llm sep" by (simp add: assms(5) chunks_concat)
  show "\<forall>c \<in> set cs. within_budget count (chunk_limit config) c" using chunks_within_budget assms(5) by blast
  show "successively (\<lambda>c d. \<not> fits count (chunk_limit config) (c @ [hd d])) cs" using chunks_maximal assms(5) by blast
  show "case sample_all h history_prompt (ic_sampling_timeout_secs config) cs w of (w1, es, r) \<Rightarrow>
         (case r of
            Ok outs \<Rightarrow> sample_compaction_chunked cb h count turns queries config w =
              (w1, es @ fst (combine_chunks config sep queries outs), Ok (snd (combine_chunks config sep queries outs)))
          | Err e \<Rightarrow> sample_compaction_chunked cb h count turns queries config w = (w1, es, Err e)
          | Panic \<Rightarrow> False)"
    using pipeline_samples [OF assms(1-4), of h queries w] sample_all_no_Panic [of h history_prompt "ic_sampling_timeout_secs config" cs w]
    unfolding assms(5) by (auto split: prod.splits res.splits)
qed


text \<open>Three messages of four tokens and chunks of eight.\<close>

definition small_chunks :: InterCompactionConfig where
  "small_chunks = \<lparr>ic_compaction_model_name = ''m'', ic_sampling_timeout_secs = 120,
     ic_compaction_strategy = DivideAndConquer, ic_dnc_chunk_token_limit = 8, ic_user_message_compact_threshold = 3000\<rparr>"

definition three_queries :: "chat_item list" where
  "three_queries = [Query ''aaaa'', Query ''bbbb'', Query ''cccc'']"

definition four_each :: "chat_item \<Rightarrow> u32" where
  "four_each t = 4"

theorem chunk_calls_exact_witness:
  "\<exists>cs. cs = [[Query ''aaaa'', Query ''bbbb''], [Query ''cccc'']]
     \<and> (\<forall>c \<in> set cs. within_budget four_each 8 c)
     \<and> (case sample_all scripted_host history_prompt 120 cs 2 of (w1, es, r) \<Rightarrow>
          (case r of
             Ok outs \<Rightarrow> sample_compaction_chunked chat scripted_host four_each three_queries None small_chunks 2 =
               (w1, es @ fst (combine_chunks small_chunks
                  \<lparr>st_turns_for_llm = three_queries, st_prior_user_queries = None, st_has_prior_compaction = False\<rparr> None outs),
                Ok (snd (combine_chunks small_chunks
                  \<lparr>st_turns_for_llm = three_queries, st_prior_user_queries = None, st_has_prior_compaction = False\<rparr> None outs)))
           | Err e \<Rightarrow> sample_compaction_chunked chat scripted_host four_each three_queries None small_chunks 2 = (w1, es, Err e)
           | Panic \<Rightarrow> False))"
proof -
  let ?sep = "\<lparr>st_turns_for_llm = three_queries, st_prior_user_queries = None, st_has_prior_compaction = False\<rparr>"
  let ?cs = "[[Query ''aaaa'', Query ''bbbb''], [Query ''cccc'']]"
  have keep: "filter_turns_for_inter_compaction chat three_queries = three_queries"
    by (simp add: filter_turns_for_inter_compaction_def three_queries_def chat_def List.map_filter_simps)
  have sep: "separate_prior_user_queries chat (filter_turns_for_inter_compaction chat three_queries) = Ok ?sep"
    unfolding keep by (simp add: separate_prior_user_queries_def three_queries_def chat_def)
  have some: "filter_turns_for_inter_compaction chat three_queries \<noteq> []" unfolding keep by (simp add: three_queries_def)
  have config: "chunk_limit small_chunks = 8" "ic_sampling_timeout_secs small_chunks = 120" "ic_compaction_strategy small_chunks \<noteq> FullReplace"
    "chunk_limit small_chunks \<noteq> UNBOUNDED_CHUNK_LIMIT" by code_simp+
  have bounded: "chunk_limit small_chunks = UNBOUNDED_CHUNK_LIMIT \<longrightarrow> tokens_of four_each (st_turns_for_llm ?sep) < 2 ^ 32"
    using config(4) by blast
  have cs: "?cs = chunks four_each (chunk_limit small_chunks) [] (st_turns_for_llm ?sep)" by code_simp
  note facts = chunk_calls_exact [OF config(3) some sep bounded cs, of scripted_host None 2]
  show ?thesis
    by (intro exI [of _ ?cs] conjI refl facts [THEN conjunct2, THEN conjunct1, unfolded config(1)]
        facts [THEN conjunct2, THEN conjunct2, THEN conjunct2, unfolded config(2)])
qed

section \<open>The text passes its validation\<close>

lemma count_matches_skip: "l \<notin> set w \<Longrightarrow> count_matches (l # q) (w @ t) = count_matches (l # q) t"
  by (induction w) (auto simp: count_matches.simps)

lemma count_matches_tag:
  "l \<notin> set w \<Longrightarrow> \<not> prefix (l # q) (l # w @ t) \<Longrightarrow> count_matches (l # q) (l # w @ t) = count_matches (l # q) t"
  using count_matches_skip [of l w q t] by (simp add: count_matches.simps)

definition no_chunk_tag :: "string \<Rightarrow> bool" where
  "no_chunk_tag s \<longleftrightarrow> count_matches ''<chunk_summary'' s = 0 \<and> count_matches ''</chunk_summary>'' s = 0"

definition chunk_head :: "nat \<Rightarrow> string" where
  "chunk_head i = '' index='' @ [CHR 0x22] @ dec_string i @ [CHR 0x22] @ ''>'' @ [CHR 0x0A]"

lemma chunk_summary_parts:
  "chunk_summary i out @ t = ''<chunk_summary'' @ chunk_head i @ lo_response out @ CHR 0x0A # ''</chunk_summary>'' @ [CHR 0x0A, CHR 0x0A] @ t"
  by (simp add: chunk_summary_def chunk_head_def)

lemma chunk_head_plain: "CHR ''<'' \<notin> set (chunk_head i)"
  by (auto simp: chunk_head_def dest: dec_string_digits)

lemma chunk_summary_count:
  assumes "no_chunk_tag (lo_response out)"
  shows "count_matches ''<chunk_summary'' (chunk_summary i out @ t) = Suc (count_matches ''<chunk_summary'' t)"
    and "count_matches ''</chunk_summary>'' (chunk_summary i out @ t) = Suc (count_matches ''</chunk_summary>'' t)"
proof -
  let ?lf = "CHR 0x0A" and ?l = "CHR ''<''"
  let ?closing = "''</chunk_summary>'' @ [?lf, ?lf] @ t"
  have "count_matches (?l # ''chunk_summary'') (lo_response out @ ?lf # ?closing) = count_matches (?l # ''chunk_summary'') t"
    using assms count_matches_split [of ?lf "''chunk_summary''" ?l "lo_response out" ?closing]
      count_matches_skip [of ?l "[?lf]" "''chunk_summary''" ?closing] count_matches_skip [of ?l "[?lf, ?lf]" "''chunk_summary''" t]
      count_matches_tag [of ?l "''/chunk_summary>''" "''chunk_summary''" "[?lf, ?lf] @ t"]
    by (simp add: no_chunk_tag_def)
  then show "count_matches ''<chunk_summary'' (chunk_summary i out @ t) = Suc (count_matches ''<chunk_summary'' t)"
    unfolding chunk_summary_parts
    using count_matches_hit [of "''<chunk_summary''"] count_matches_skip [OF chunk_head_plain, of "''chunk_summary''" i] by simp
  have "count_matches (?l # ''/chunk_summary>'') (lo_response out @ ?lf # ?closing) = Suc (count_matches (?l # ''/chunk_summary>'') t)"
    using assms count_matches_split [of ?lf "''/chunk_summary>''" ?l "lo_response out" ?closing]
      count_matches_skip [of ?l "[?lf]" "''/chunk_summary>''" ?closing] count_matches_skip [of ?l "[?lf, ?lf]" "''/chunk_summary>''" t]
      count_matches_hit [of "''</chunk_summary>''" "[?lf, ?lf] @ t"]
    by (simp add: no_chunk_tag_def)
  then show "count_matches ''</chunk_summary>'' (chunk_summary i out @ t) = Suc (count_matches ''</chunk_summary>'' t)"
    unfolding chunk_summary_parts
    using count_matches_skip [OF chunk_head_plain, of "''/chunk_summary>''" i]
      count_matches_tag [of ?l "''chunk_summary''" "''/chunk_summary>''"] by simp
qed


definition summaries :: "nat \<Rightarrow> LlmCompactionOutput list \<Rightarrow> string" where
  "summaries k outs = concat (map (\<lambda>(i, out). chunk_summary i out) (List.enumerate k outs))"

lemma summaries_count:
  assumes "\<forall>out \<in> set outs. no_chunk_tag (lo_response out)"
  shows "count_matches ''<chunk_summary'' (summaries k outs) = length outs" "count_matches ''</chunk_summary>'' (summaries k outs) = length outs"
  using assms by (induction outs arbitrary: k) (simp_all add: summaries_def chunk_summary_count)

lemma summaries_lead: "outs \<noteq> [] \<Longrightarrow> \<exists>rest. summaries k outs = CHR ''<'' # rest"
  by (cases outs) (simp_all add: summaries_def chunk_summary_def)

lemma combined_count:
  assumes "no_chunk_tag pre" and "\<forall>out \<in> set outs. no_chunk_tag (lo_response out)"
  shows "count_matches ''<chunk_summary'' (pre @ summaries 0 outs) = length outs"
    and "count_matches ''</chunk_summary>'' (pre @ summaries 0 outs) = length outs"
proof -
  have "count_matches (CHR ''<'' # q) (pre @ summaries 0 outs) = count_matches (CHR ''<'' # q) pre + count_matches (CHR ''<'' # q) (summaries 0 outs)"
    if "CHR ''<'' \<notin> set q" for q
  proof (cases "outs = []")
    case True
    then show ?thesis by (simp add: summaries_def)
  next
    case False
    with summaries_lead obtain rest where "summaries 0 outs = CHR ''<'' # rest" by blast
    with count_matches_split [OF that] show ?thesis by simp
  qed
  from this [of "''chunk_summary''"] this [of "''/chunk_summary>''"] assms summaries_count [OF assms(2), of 0]
  show "count_matches ''<chunk_summary'' (pre @ summaries 0 outs) = length outs"
    and "count_matches ''</chunk_summary>'' (pre @ summaries 0 outs) = length outs"
    by (simp_all add: no_chunk_tag_def)
qed

lemma sample_all_outputs:
  "sample_all h prompt timeout cs w = (w1, es, Ok outs) \<Longrightarrow>
     length outs = length cs \<and> (\<forall>out \<in> set outs. \<exists>c w. snd (h_sample h c prompt timeout w) = Inr out)"
proof (induction cs arbitrary: w es outs)
  case (Cons c cs)
  obtain w2 reply where reply: "h_sample h c prompt timeout w = (w2, reply)" by force
  with Cons.prems obtain out es2 outs2 where "reply = Inr out" "sample_all h prompt timeout cs w2 = (w1, es2, Ok outs2)" "outs = out # outs2"
    by (auto simp: res_simps split: sum.splits prod.splits)
  with Cons.IH [of w2 es2 outs2] reply show ?case by (auto, metis snd_conv)
qed simp

definition answers_without_chunk_tags :: "('w, 't) Host \<Rightarrow> bool" where
  "answers_without_chunk_tags h \<longleftrightarrow>
     (\<forall>c prompt timeout w out. snd (h_sample h c prompt timeout w) = Inr out \<longrightarrow> no_chunk_tag (lo_response out))"

text \<open>
  C29: a text that the pipeline puts together from at least one item passes the check it is persisted after: it is not
  blank, and it opens and closes as many summary tags as there are chunks - as long as the model and the user's messages
  do not write these tags themselves.
\<close>

theorem chunked_text_validates:
  assumes "answers_without_chunk_tags h"
    and "separate_prior_user_queries cb (filter_turns_for_inter_compaction cb turns) = Ok sep" and "st_turns_for_llm sep \<noteq> []"
    and "chunk_limit config = UNBOUNDED_CHUNK_LIMIT \<longrightarrow> tokens_of count (st_turns_for_llm sep) < 2 ^ 32"
    and "pre = assemble_user_queries_preamble (st_prior_user_queries sep) queries" and "utf8_valid pre" and "no_chunk_tag pre"
    and "sample_compaction_chunked cb h count turns queries config w = (w1, es, Ok out)"
  shows "validate_compaction_text (co_combined_text out) (ic_compaction_strategy config) = Ok ()"
proof -
  let ?cs = "chunks count (chunk_limit config) [] (st_turns_for_llm sep)"
  have "ic_compaction_strategy config \<noteq> FullReplace" "filter_turns_for_inter_compaction cb turns \<noteq> []"
    using assms(8) by (auto simp: sample_compaction_chunked_def Let_def split: CompactionStrategy.splits)
  from pipeline_samples [OF this assms(2,4), of h queries w] assms(8)
  obtain w2 es2 outs where outs: "sample_all h history_prompt (ic_sampling_timeout_secs config) ?cs w = (w2, es2, Ok outs)"
    "out = snd (combine_chunks config sep queries outs)"
    by (auto split: prod.splits res.splits)
  have "?cs \<noteq> []" using chunks_concat [of count "chunk_limit config" "[]" "st_turns_for_llm sep"] assms(3) by auto
  with sample_all_outputs [OF outs(1)] have "outs \<noteq> []" by auto
  with summaries_lead obtain rest where rest: "summaries 0 outs = CHR ''<'' # rest" by blast
  have combined: "co_combined_text out = pre @ summaries 0 outs" by (simp add: outs(2) combine_chunks_def assms(5) summaries_def)
  have "\<not> whitespace_at ''<''" by code_simp
  then have "\<not> is_blank (co_combined_text out)" using not_blank_within [OF assms(6), of "CHR ''<''" rest] by (simp add: combined rest)
  moreover have "\<forall>out \<in> set outs. no_chunk_tag (lo_response out)"
    using sample_all_outputs [OF outs(1)] assms(1) unfolding answers_without_chunk_tags_def by blast
  from combined_count [OF assms(7) this] have "count_matches ''<chunk_summary'' (co_combined_text out) = count_matches ''</chunk_summary>'' (co_combined_text out)"
    by (simp only: combined)
  ultimately show ?thesis by (simp add: validate_compaction_text_def Let_def)
qed


definition steady_host :: "(nat, 't) Host" where
  "steady_host = \<lparr>h_sample = \<lambda>turns prompt timeout n. (Suc n, Inr \<lparr>lo_response = ''ok'', lo_thinking = []\<rparr>), h_sleep = \<lambda>secs n. n, h_now = \<lambda>n. n\<rparr>"

lemma steady_host_runs:
  "\<exists>w1 es. sample_all steady_host prompt timeout cs w = (w1, es, Ok (replicate (length cs) \<lparr>lo_response = ''ok'', lo_thinking = []\<rparr>))"
proof (induction cs arbitrary: w)
  case (Cons c cs)
  obtain w1 es where "sample_all steady_host prompt timeout cs (Suc w) = (w1, es, Ok (replicate (length cs) \<lparr>lo_response = ''ok'', lo_thinking = []\<rparr>))"
    using Cons.IH by blast
  moreover have "h_sample steady_host c prompt timeout w = (Suc w, Inr \<lparr>lo_response = ''ok'', lo_thinking = []\<rparr>)" by (simp add: steady_host_def)
  ultimately show ?case by simp
qed simp

theorem chunked_text_validates_witness:
  "\<exists>w1 es out. sample_compaction_chunked chat steady_host four_each three_queries None small_chunks 0 = (w1, es, Ok out)
     \<and> validate_compaction_text (co_combined_text out) DivideAndConquer = Ok ()"
proof -
  let ?sep = "\<lparr>st_turns_for_llm = three_queries, st_prior_user_queries = None, st_has_prior_compaction = False\<rparr>"
  have keep: "filter_turns_for_inter_compaction chat three_queries = three_queries"
    by (simp add: filter_turns_for_inter_compaction_def three_queries_def chat_def List.map_filter_simps)
  have sep: "separate_prior_user_queries chat (filter_turns_for_inter_compaction chat three_queries) = Ok ?sep"
    unfolding keep by (simp add: separate_prior_user_queries_def three_queries_def chat_def)
  have some: "filter_turns_for_inter_compaction chat three_queries \<noteq> []" unfolding keep by (simp add: three_queries_def)
  have config: "ic_compaction_strategy small_chunks = DivideAndConquer" "ic_compaction_strategy small_chunks \<noteq> FullReplace"
    "chunk_limit small_chunks \<noteq> UNBOUNDED_CHUNK_LIMIT" by code_simp+
  have bounded: "chunk_limit small_chunks = UNBOUNDED_CHUNK_LIMIT \<longrightarrow> tokens_of four_each (st_turns_for_llm ?sep) < 2 ^ 32"
    using config(3) by blast
  have "no_chunk_tag ''ok''" by code_simp
  then have host: "answers_without_chunk_tags steady_host" by (simp add: answers_without_chunk_tags_def steady_host_def)
  obtain w1 es outs where all_ok: "sample_all steady_host history_prompt (ic_sampling_timeout_secs small_chunks)
      (chunks four_each (chunk_limit small_chunks) [] (st_turns_for_llm ?sep)) 0 = (w1, es, Ok outs)"
    using steady_host_runs by blast
  obtain es2 out where combined: "combine_chunks small_chunks ?sep None outs = (es2, out)" by force
  have run: "sample_compaction_chunked chat steady_host four_each three_queries None small_chunks 0 = (w1, es @ es2, Ok out)"
    unfolding pipeline_samples [OF config(2) some sep bounded] all_ok prod.case res.case combined ..
  have "no_chunk_tag []" "three_queries \<noteq> []" by code_simp+
  then have "validate_compaction_text (co_combined_text out) (ic_compaction_strategy small_chunks) = Ok ()"
    by (intro chunked_text_validates [OF host sep _ bounded refl _ _ run]) (simp_all add: assemble_user_queries_preamble_def)
  with run config(1) show ?thesis by metis
qed

end
